(* ===== verification/Prelude.thy ===== *)
theory Prelude
  imports Main "HOL-Library.Word"
begin

text \<open>
  Shared vocabulary of the development: the widths of Rust's integers, the ways
  kernel code stops without returning, the state-and-stop computations in which every
  stateful operation is written, Rust's checked arithmetic, the loops of the source,
  and the generic lemmas on computations, lists and words used by the components.
\<close>

unbundle bit_operations_syntax

section \<open>Integers\<close>

type_synonym u8 = "8 word"
type_synonym u16 = "16 word"
type_synonym u64 = "64 word"

lemma unat_bound: "unat (w :: 'a::len word) < 2 ^ LENGTH('a)"
  by (rule unsigned_less)

section \<open>Computations that may stop\<close>

text \<open>
  The kernel is built with \<open>panic = "abort"\<close>: a panic prints a message and halts the
  machine, so nothing that happens after it can be observed.  A CPU exception ends in a
  handler of \<open>interrupts/exceptions.rs\<close>, all of which panic.  A computation therefore
  either stops (\<^const>\<open>Inl\<close>) or returns a value and the next state (\<^const>\<open>Inr\<close>).
\<close>

datatype stop =
    Panic string        \<comment> \<open>\<open>panic!\<close>, \<open>assert!\<close>, \<open>expect\<close>, \<open>unwrap\<close>, \<open>todo!\<close>\<close>
  | Overflow            \<comment> \<open>arithmetic overflow with overflow checks compiled in\<close>
  | Out_of_bounds       \<comment> \<open>slice or array index out of range\<close>
  | Page_fault u64      \<comment> \<open>the address the MMU refused\<close>
  | Spins               \<comment> \<open>waits forever for a lock\<close>
  | Halted              \<comment> \<open>\<open>halt()\<close>: interrupts off, \<open>hlt\<close> in a loop\<close>

type_synonym ('s, 'a) comp = "'s \<Rightarrow> stop + ('a \<times> 's)"

named_theorems run_simps \<open>how computations execute\<close>

definition ret :: "'a \<Rightarrow> ('s, 'a) comp" where
  "ret x s = Inr (x, s)"

definition stop_with :: "stop \<Rightarrow> ('s, 'a) comp" where
  "stop_with e s = Inl e"

definition bind :: "('s, 'a) comp \<Rightarrow> ('a \<Rightarrow> ('s, 'b) comp) \<Rightarrow> ('s, 'b) comp" where
  "bind f g s = (case f s of Inl e \<Rightarrow> Inl e | Inr (x, s') \<Rightarrow> g x s')"

definition gets :: "('s \<Rightarrow> 'a) \<Rightarrow> ('s, 'a) comp" where
  "gets f s = Inr (f s, s)"

definition modify :: "('s \<Rightarrow> 's) \<Rightarrow> ('s, unit) comp" where
  "modify f s = Inr ((), f s)"

definition panic_unless :: "bool \<Rightarrow> string \<Rightarrow> ('s, unit) comp" where
  "panic_unless b msg = (if b then ret () else stop_with (Panic msg))"

definition expect :: "'a option \<Rightarrow> string \<Rightarrow> ('s, 'a) comp" where
  "expect x msg = (case x of None \<Rightarrow> stop_with (Panic msg) | Some v \<Rightarrow> ret v)"

text \<open>The \<open>?\<close> operator on a \<open>Result\<close> inside a computation: an \<^const>\<open>Inl\<close> value is
  returned at once, an \<^const>\<open>Inr\<close> value is passed on.\<close>

definition bind_res ::
    "('s, 'e + 'a) comp \<Rightarrow> ('a \<Rightarrow> ('s, 'e + 'b) comp) \<Rightarrow> ('s, 'e + 'b) comp" where
  "bind_res f g = bind f (\<lambda>r. case r of Inl e \<Rightarrow> ret (Inl e) | Inr x \<Rightarrow> g x)"

lemma ret_run [run_simps]: "ret x s = Inr (x, s)"
  by (simp add: ret_def)

lemma stop_with_run [run_simps]: "stop_with e s = Inl e"
  by (simp add: stop_with_def)

lemma gets_run [run_simps]: "gets f s = Inr (f s, s)"
  by (simp add: gets_def)

lemma modify_run [run_simps]: "modify f s = Inr ((), f s)"
  by (simp add: modify_def)

lemma bind_run_Inl [run_simps]: "f s = Inl e \<Longrightarrow> bind f g s = Inl e"
  by (simp add: bind_def)

lemma bind_run_Inr [run_simps]: "f s = Inr (x, s') \<Longrightarrow> bind f g s = g x s'"
  by (simp add: bind_def)

lemma bind_ret [run_simps]: "bind (ret x) g s = g x s"
  by (simp add: bind_def ret_def)

lemma ret_bind: "bind (ret x) g = g x"
  by (rule ext) (rule bind_ret)

lemma bind_gets [run_simps]: "bind (gets f) g s = g (f s) s"
  by (simp add: bind_def gets_def)

lemma bind_modify [run_simps]: "bind (modify f) g s = g () (f s)"
  by (simp add: bind_def modify_def)

lemma bind_stop_with [run_simps]: "bind (stop_with e) g s = Inl e"
  by (simp add: bind_def stop_with_def)

lemma bind_assoc: "bind (bind f g) h = bind f (\<lambda>x. bind (g x) h)"
  by (rule ext) (simp add: bind_def split: sum.splits prod.splits)

lemma panic_unless_run [run_simps]:
  "panic_unless True msg s = Inr ((), s)"
  "panic_unless False msg s = Inl (Panic msg)"
  by (simp_all add: panic_unless_def ret_def stop_with_def)

lemma expect_run [run_simps]:
  "expect (Some x) msg s = Inr (x, s)"
  "expect None msg s = Inl (Panic msg)"
  by (simp_all add: expect_def ret_def stop_with_def)

lemma bind_expect_Some [run_simps]: "bind (expect (Some x) msg) g s = g x s"
  by (simp add: bind_def expect_def ret_def)

lemma bind_panic_unless [run_simps]: "b \<Longrightarrow> bind (panic_unless b msg) g s = g () s"
  by (simp add: bind_def panic_unless_def ret_def)

lemma bind_res_run [run_simps]:
  "f s = Inl e \<Longrightarrow> bind_res f g s = Inl e"
  "f s = Inr (Inl err, s') \<Longrightarrow> bind_res f g s = Inr (Inl err, s')"
  "f s = Inr (Inr x, s') \<Longrightarrow> bind_res f g s = g x s'"
  by (simp_all add: bind_res_def bind_def ret_def)

text \<open>Inversion: what a computation that returned has done.\<close>

lemma bind_InrE:
  assumes "bind f g s = Inr (y, t)"
  obtains x s' where "f s = Inr (x, s')" and "g x s' = Inr (y, t)"
  using assms by (auto simp: bind_def split: sum.splits)

lemma expect_InrE:
  assumes "expect x msg s = Inr (y, t)"
  obtains "x = Some y" and "t = s"
  using assms by (auto simp: expect_def ret_def stop_with_def split: option.splits)

lemma panic_unless_InrE:
  assumes "panic_unless b msg s = Inr (y, t)"
  obtains b and "t = s"
  using assms by (auto simp: panic_unless_def ret_def stop_with_def split: if_splits)

lemma bind_res_InrE:
  assumes "bind_res f g s = Inr (y, t)"
  obtains (err) e where "f s = Inr (Inl e, t)" and "y = Inl e"
        | (ok) x s' where "f s = Inr (Inr x, s')" and "g x s' = Inr (y, t)"
proof -
  from assms obtain r s1 where f: "f s = Inr (r, s1)"
    and g: "(case r of Inl e \<Rightarrow> ret (Inl e) | Inr x \<Rightarrow> g x) s1 = Inr (y, t)"
    unfolding bind_res_def by (rule bind_InrE)
  show thesis
  proof (cases r)
    case (Inl e)
    with f g show thesis by (intro err) (auto simp: ret_def)
  next
    case (Inr x)
    with f g show thesis by (intro ok) auto
  qed
qed

section \<open>Loops\<close>

text \<open>A \<open>for\<close> loop over a list, and one whose body ends in \<open>?\<close>.\<close>

primrec for_each :: "'a list \<Rightarrow> ('a \<Rightarrow> ('s, unit) comp) \<Rightarrow> ('s, unit) comp" where
  "for_each [] f = ret ()"
| "for_each (x # xs) f = bind (f x) (\<lambda>_. for_each xs f)"

primrec for_each_res ::
    "'a list \<Rightarrow> ('a \<Rightarrow> ('s, 'e + unit) comp) \<Rightarrow> ('s, 'e + unit) comp" where
  "for_each_res [] f = ret (Inr ())"
| "for_each_res (x # xs) f = bind_res (f x) (\<lambda>_. for_each_res xs f)"

text \<open>The values of \<open>a..=b\<close> and of \<open>a..b\<close> in iteration order.\<close>

definition range_incl :: "'a::len word \<Rightarrow> 'a word \<Rightarrow> 'a word list" where
  "range_incl a b = map of_nat [unat a..<Suc (unat b)]"

definition range_excl :: "'a::len word \<Rightarrow> 'a word \<Rightarrow> 'a word list" where
  "range_excl a b = map of_nat [unat a..<unat b]"

lemma set_range_incl: "set (range_incl a b) = {a..b}"
proof -
  have "x \<in> of_nat ` {unat a..<Suc (unat b)}" if "a \<le> x" "x \<le> b" for x
    using that by (intro image_eqI[of x of_nat "unat x"]) (auto simp: word_le_nat_alt)
  moreover have "a \<le> of_nat n" "of_nat n \<le> b" if "unat a \<le> n" "n < Suc (unat b)" for n
  proof -
    have "n < 2 ^ LENGTH('a)" using that unat_bound[of b] by linarith
    then have "unat (of_nat n :: 'a word) = n" by (simp add: unat_of_nat take_bit_nat_eq_self)
    with that show "a \<le> of_nat n" "of_nat n \<le> b" by (simp_all add: word_le_nat_alt)
  qed
  ultimately have "of_nat ` {unat a..<Suc (unat b)} = {a..b}" by fastforce
  then show ?thesis by (simp add: range_incl_def del: upt_Suc)
qed

lemma set_range_excl: "set (range_excl a b) = {a..<b}"
proof -
  have "x \<in> of_nat ` {unat a..<unat b}" if "a \<le> x" "x < b" for x
    using that by (intro image_eqI[of x of_nat "unat x"])
      (auto simp: word_le_nat_alt word_less_nat_alt)
  moreover have "a \<le> of_nat n" "of_nat n < b" if "unat a \<le> n" "n < unat b" for n
  proof -
    have "n < 2 ^ LENGTH('a)" using that unat_bound[of b] by linarith
    then have "unat (of_nat n :: 'a word) = n" by (simp add: unat_of_nat take_bit_nat_eq_self)
    with that show "a \<le> of_nat n" "of_nat n < b"
      by (simp_all add: word_le_nat_alt word_less_nat_alt)
  qed
  ultimately show ?thesis by (auto simp: range_excl_def)
qed

lemma distinct_range_incl:
  fixes a b :: "'a::len word"
  shows "distinct (range_incl a b)"
proof -
  have "inj_on (of_nat :: nat \<Rightarrow> 'a word) {unat a..<Suc (unat b)}"
  proof (rule inj_onI)
    fix x y assume "x \<in> {unat a..<Suc (unat b)}" "y \<in> {unat a..<Suc (unat b)}"
    then have "x < 2 ^ LENGTH('a)" "y < 2 ^ LENGTH('a)"
      using unat_bound[of b] unfolding atLeastLessThan_iff by linarith+
    then have "unat (of_nat x :: 'a word) = x" "unat (of_nat y :: 'a word) = y"
      by (simp_all add: unat_of_nat take_bit_nat_eq_self)
    moreover assume "of_nat x = (of_nat y :: 'a word)"
    ultimately show "x = y" by metis
  qed
  then show ?thesis by (simp add: range_incl_def distinct_map del: upt_Suc)
qed

lemma range_excl_Cons:
  fixes a b :: "'a::len word"
  shows "a < b \<Longrightarrow> range_excl a b = a # range_excl (a + 1) b"
proof -
  assume lt: "a < b"
  have "Suc (unat a) < 2 ^ LENGTH('a)" using lt unat_bound[of b] unfolding word_less_nat_alt by linarith
  then have "unat (a + 1) = Suc (unat a)" by (simp add: unat_word_ariths(1))
  moreover have "[unat a..<unat b] = unat a # [Suc (unat a)..<unat b]"
    using lt by (intro upt_conv_Cons) (simp add: word_less_nat_alt)
  ultimately show ?thesis by (simp add: range_excl_def)
qed

lemma for_each_append: "for_each (xs @ ys) f = bind (for_each xs f) (\<lambda>_. for_each ys f)"
  by (induction xs) (simp_all add: bind_assoc, simp add: fun_eq_iff bind_ret)

section \<open>Checked arithmetic\<close>

text \<open>
  Rust checks arithmetic when overflow checks are compiled in (the \<open>dev\<close> profile) and
  wraps otherwise (the \<open>release\<close> profile; the Makefile builds both).  The first argument
  says which build is modelled.
\<close>

definition add_ck :: "bool \<Rightarrow> 'a::len word \<Rightarrow> 'a word \<Rightarrow> ('s, 'a word) comp" where
  "add_ck chk a b =
     (if chk \<and> 2 ^ LENGTH('a) \<le> unat a + unat b then stop_with Overflow else ret (a + b))"

definition sub_ck :: "bool \<Rightarrow> 'a::len word \<Rightarrow> 'a word \<Rightarrow> ('s, 'a word) comp" where
  "sub_ck chk a b = (if chk \<and> a < b then stop_with Overflow else ret (a - b))"

definition mul_ck :: "bool \<Rightarrow> 'a::len word \<Rightarrow> 'a word \<Rightarrow> ('s, 'a word) comp" where
  "mul_ck chk a b =
     (if chk \<and> 2 ^ LENGTH('a) \<le> unat a * unat b then stop_with Overflow else ret (a * b))"

text \<open>A shift by the width or more is an overflow; unchecked, the amount is taken modulo
  the width.\<close>

definition shl_ck :: "bool \<Rightarrow> 'a::len word \<Rightarrow> nat \<Rightarrow> ('s, 'a word) comp" where
  "shl_ck chk a n =
     (if chk \<and> LENGTH('a) \<le> n then stop_with Overflow
      else ret (push_bit (n mod LENGTH('a)) a))"

text \<open>\<open>checked_add\<close>.\<close>

definition checked_add :: "'a::len word \<Rightarrow> 'a word \<Rightarrow> 'a word option" where
  "checked_add a b = (if unat a + unat b < 2 ^ LENGTH('a) then Some (a + b) else None)"

lemma add_ck_run [run_simps]:
  "unat a + unat b < 2 ^ LENGTH('a) \<Longrightarrow> add_ck chk a (b :: 'a::len word) s = Inr (a + b, s)"
  by (simp add: add_ck_def ret_def)

lemma sub_ck_run [run_simps]: "b \<le> a \<Longrightarrow> sub_ck chk a b s = Inr (a - b, s)"
  by (simp add: sub_ck_def ret_def not_less [symmetric])

lemma mul_ck_run [run_simps]:
  "unat a * unat b < 2 ^ LENGTH('a) \<Longrightarrow> mul_ck chk a (b :: 'a::len word) s = Inr (a * b, s)"
  by (simp add: mul_ck_def ret_def)

lemma shl_ck_run [run_simps]:
  "n < LENGTH('a) \<Longrightarrow> shl_ck chk (a :: 'a::len word) n s = Inr (push_bit n a, s)"
  by (simp add: shl_ck_def ret_def)

lemma unchecked_run [run_simps]:
  "add_ck False a b s = Inr (a + b, s)"
  "sub_ck False a b s = Inr (a - b, s)"
  "mul_ck False a b s = Inr (a * b, s)"
  by (simp_all add: add_ck_def sub_ck_def mul_ck_def ret_def)

lemma checked_add_Some: "checked_add a b = Some c \<Longrightarrow> c = a + b \<and> unat c = unat a + unat b"
  by (auto simp: checked_add_def unat_word_ariths split: if_splits)

section \<open>Alignment\<close>

lemma and_not_disjoint:
  assumes "w AND m = (0 :: 'a::len word)"
  shows "w AND NOT m = w"
proof -
  have "w AND NOT m = (w AND m) OR (w AND NOT m)" using assms by simp
  also have "\<dots> = w" by (simp flip: bit.conj_disj_distrib)
  finally show ?thesis .
qed

lemma unat_low12: "unat ((w :: u64) AND 0xFFF) = unat w mod 4096"
proof -
  have "w AND 0xFFF = take_bit 12 w" by (simp add: take_bit_eq_mask mask_eq_exp_minus_1)
  then have "unat (w AND 0xFFF) = take_bit 12 (unat w)" by (simp only: unsigned_take_bit_eq)
  then show ?thesis by (simp add: take_bit_eq_mod)
qed

lemma page_aligned_iff: "(w :: u64) AND 0xFFF = 0 \<longleftrightarrow> unat w mod 4096 = 0"
  by (metis unat_low12 unat_eq_0)

lemma unat_exp: "n < LENGTH('a) \<Longrightarrow> unat (2 ^ n :: 'a::len word) = 2 ^ n"
proof -
  assume "n < LENGTH('a)"
  then have "(2::nat) ^ n < 2 ^ LENGTH('a)" by simp
  then have "unat (of_nat (2 ^ n) :: 'a word) = 2 ^ n"
    by (simp add: unat_of_nat take_bit_nat_eq_self del: of_nat_power)
  then show ?thesis by simp
qed

section \<open>Bits of a word as a set\<close>

text \<open>Reading and setting a bit of a word by its index, and the same for the code outside the
  repository that does it: the \<open>bit_field\<close> and \<open>atomic_bitfield\<close> crates are a record of
  their two operations, and \<open>bits_contract\<close> says what they document, that index 0 is the least
  significant bit and that setting a bit changes that bit only.\<close>

definition get_bit :: "'a::len word \<Rightarrow> nat \<Rightarrow> bool" where
  "get_bit w n = bit w n"

definition put_bit :: "'a::len word \<Rightarrow> nat \<Rightarrow> bool \<Rightarrow> 'a word" where
  "put_bit w n b = (if b then w OR push_bit n 1 else w AND NOT (push_bit n 1))"

lemma get_put_bit:
  "n < LENGTH('a) \<Longrightarrow>
    get_bit (put_bit (w :: 'a::len word) n b) k = (if k = n then b else get_bit w k)"
  by (auto simp: get_bit_def put_bit_def bit_simps dest: bit_imp_le_length)

record bit_ops =
  get_bit_op :: "u8 \<Rightarrow> nat \<Rightarrow> bool"
  set_bit_op :: "u8 \<Rightarrow> nat \<Rightarrow> bool \<Rightarrow> u8"

definition bits_contract :: "bit_ops \<Rightarrow> bool" where
  "bits_contract B \<longleftrightarrow>
     (\<forall>w n. n < 8 \<longrightarrow> get_bit_op B w n = bit w n) \<and>
     (\<forall>w n b k. n < 8 \<longrightarrow> bit (set_bit_op B w n b) k = (if k = n then b else bit w k))"

lemma bits_contract_get: "bits_contract B \<Longrightarrow> n < 8 \<Longrightarrow> get_bit_op B w n = get_bit w n"
  by (simp add: bits_contract_def get_bit_def)

lemma bits_contract_set:
  assumes "bits_contract B" and "n < 8"
  shows "set_bit_op B w n b = put_bit w n b"
proof (rule bit_word_eqI)
  fix k assume "k < LENGTH(8)"
  have "bit (put_bit w n b) k = (if k = n then b else bit w k)"
    using get_put_bit[of n w b k] assms(2) by (simp add: get_bit_def)
  then show "bit (set_bit_op B w n b) k = bit (put_bit w n b) k"
    using assms by (simp add: bits_contract_def)
qed

definition word_bit_ops :: bit_ops where
  "word_bit_ops = \<lparr>get_bit_op = get_bit, set_bit_op = put_bit\<rparr>"

lemma word_bit_ops_contract: "bits_contract word_bit_ops"
proof -
  have "bit (put_bit w n b) k = (if k = n then b else bit w k)" if "n < 8" for w :: u8 and n b k
    using get_put_bit[of n w b k] that by (simp add: get_bit_def)
  then show ?thesis by (simp add: bits_contract_def word_bit_ops_def get_bit_def)
qed

text \<open>
  What every bitmap of the kernel promises its users: setting one position changes that
  position only.  The lemma about a whole list of positions is proved once here.
\<close>

locale bitmap =
  fixes get :: "'m \<Rightarrow> 'i \<Rightarrow> bool"
    and put :: "'m \<Rightarrow> 'i \<Rightarrow> bool \<Rightarrow> 'm"
    and valid :: "'m \<Rightarrow> 'i \<Rightarrow> bool"
  assumes get_put: "valid m i \<Longrightarrow> valid m j \<Longrightarrow> get (put m i b) j = (if j = i then b else get m j)"
    and valid_put: "valid m i \<Longrightarrow> valid (put m i b) j = valid m j"
begin

lemma get_fold_put:
  assumes "\<And>i. i \<in> set is \<Longrightarrow> valid m i" and "valid m j"
  shows "get (fold (\<lambda>i m. put m i b) is m) j = (if j \<in> set is then b else get m j)"
  using assms
proof (induction "is" arbitrary: m)
  case Nil
  then show ?case by simp
next
  case (Cons i "is")
  have v: "valid m i" using Cons.prems by simp
  have "get (fold (\<lambda>i m. put m i b) is (put m i b)) j
      = (if j \<in> set is then b else get (put m i b) j)"
    by (rule Cons.IH) (use Cons.prems v in \<open>simp_all add: valid_put\<close>)
  with Cons.prems v show ?case by (simp add: get_put)
qed

lemma valid_fold_put:
  "(\<And>i. i \<in> set is \<Longrightarrow> valid m i) \<Longrightarrow> valid (fold (\<lambda>i m. put m i b) is m) j = valid m j"
  by (induction "is" arbitrary: m) (simp_all add: valid_put)

lemma put_get_idem:
  "valid m i \<Longrightarrow> valid m j \<Longrightarrow> get (put (put m i b) i c) j = get (put m i c) j"
  by (simp add: get_put valid_put)

end

interpretation word_bits: bitmap get_bit put_bit "\<lambda>(w :: 'a::len word) n. n < LENGTH('a)"
  by unfold_locales (simp_all add: get_put_bit)

end
