(* ===== verification/Bootstrap_Heap.thy ===== *)
theory Bootstrap_Heap
  imports Prelude
begin

text \<open>
  \<open>kernel/src/memory/bootstrap_heap.rs\<close>: the bitmap allocator that hands out the eight
  arrays in which the first buddy trees live.  \<open>BootstrapAllocator<T>\<close> is a record of its
  start address and its bitmap byte; \<open>T\<close> enters only through \<open>size_of::<T>()\<close>, the
  argument \<open>size_of_T\<close>; the bit operations of the \<open>bit_field\<close> crate are the argument \<open>B\<close>.  The pointer of a \<open>BootstrapHeapBox\<close> is its address.  The
  abstract view of an allocator is the set of slots in use; \<open>abs_alloc\<close> and \<open>abs_drop\<close>
  say what the bitmap operations do to it, and the step relation \<open>heap_step\<close> runs any
  sequence of allocations and drops.
\<close>

section \<open>The allocator\<close>

record bootstrap_allocator =
  start_addr :: u64
  bitmap :: u8

definition new_unchecked :: "u64 \<Rightarrow> bootstrap_allocator" where
  "new_unchecked start = \<lparr>start_addr = start, bitmap = 0\<rparr>"

text \<open>\<open>BootstrapAllocator::<T>::space_taken\<close>\<close>

definition space_taken :: "u64 \<Rightarrow> u64" where
  "space_taken size_of_T = size_of_T * 8"

definition set_used :: "bit_ops \<Rightarrow> u64 \<Rightarrow> bool \<Rightarrow> (bootstrap_allocator, unit) comp" where
  "set_used B index used =
     (let b = index mod 8
      in modify (\<lambda>a. a\<lparr>bitmap := set_bit_op B (bitmap a) (unat b) used\<rparr>))"

text \<open>The loop \<open>for bit in 0..8\<close> of \<open>allocate\<close>, over the bits still to be tried.\<close>

primrec allocate_from ::
    "bit_ops \<Rightarrow> nat list \<Rightarrow> u64 \<Rightarrow> (bootstrap_allocator, u64 option) comp" where
  "allocate_from B [] size_of_T = ret None"
| "allocate_from B (b # bs) size_of_T =
     bind (gets bitmap) (\<lambda>byte.
       if \<not> get_bit_op B byte b then
         bind (modify (\<lambda>a. a\<lparr>bitmap := set_bit_op B byte b True\<rparr>)) (\<lambda>_.
         bind (gets start_addr) (\<lambda>start. ret (Some (start + of_nat b * size_of_T))))
       else allocate_from B bs size_of_T)"

definition allocate :: "bit_ops \<Rightarrow> u64 \<Rightarrow> (bootstrap_allocator, u64 option) comp" where
  "allocate B size_of_T = allocate_from B [0..<8] size_of_T"

text \<open>\<open>deallocate\<close>, which is what dropping a \<open>BootstrapHeapBox\<close> with pointer \<open>ptr\<close> runs.\<close>

definition deallocate :: "bit_ops \<Rightarrow> bool \<Rightarrow> u64 \<Rightarrow> u64 \<Rightarrow> (bootstrap_allocator, unit) comp" where
  "deallocate B chk size_of_T ptr =
     bind (gets start_addr) (\<lambda>start.
     bind (sub_ck chk ptr start) (\<lambda>addr_in_heap.
       if size_of_T = 0 then stop_with (Panic ''attempt to divide by zero'')
       else set_used B (addr_in_heap div size_of_T) False))"

section \<open>The static \<open>BOOTSTRAP_HEAP\<close>\<close>

text \<open>\<open>Once<BootstrapAllocator<..>>\<close>: \<^const>\<open>None\<close> until \<open>init_unchecked\<close>; \<open>wait().unwrap()\<close>
  on an uninitialised cell panics.\<close>

definition init_unchecked :: "u64 \<Rightarrow> (bootstrap_allocator option, unit) comp" where
  "init_unchecked address =
     modify (\<lambda>h. case h of None \<Rightarrow> Some (new_unchecked address) | Some a \<Rightarrow> Some a)"

definition on_heap :: "(bootstrap_allocator, 'a) comp \<Rightarrow> (bootstrap_allocator option, 'a) comp" where
  "on_heap f h = (case h of
       None \<Rightarrow> Inl (Panic ''called Option::unwrap() on a None value'')
     | Some a \<Rightarrow> (case f a of Inl e \<Rightarrow> Inl e | Inr (x, a') \<Rightarrow> Inr (x, Some a')))"

definition heap_allocate :: "bit_ops \<Rightarrow> u64 \<Rightarrow> (bootstrap_allocator option, u64 option) comp" where
  "heap_allocate B size_of_T = on_heap (allocate B size_of_T)"

definition heap_start :: "(bootstrap_allocator option, u64) comp" where
  "heap_start = on_heap (gets start_addr)"

definition heap_end :: "bool \<Rightarrow> u64 \<Rightarrow> (bootstrap_allocator option, u64) comp" where
  "heap_end chk size_of_T =
     bind heap_start (\<lambda>start. add_ck chk start (space_taken size_of_T))"

section \<open>Abstract view: the set of slots in use\<close>

definition used_slots :: "bootstrap_allocator \<Rightarrow> nat set" where
  "used_slots a = {b. b < 8 \<and> get_bit (bitmap a) b}"

definition slot_addr :: "bootstrap_allocator \<Rightarrow> u64 \<Rightarrow> nat \<Rightarrow> u64" where
  "slot_addr a size_of_T b = start_addr a + of_nat b * size_of_T"

text \<open>The heap's eight slots fit below the top of the address space.\<close>

definition fits :: "bootstrap_allocator \<Rightarrow> u64 \<Rightarrow> bool" where
  "fits a size_of_T \<longleftrightarrow>
     0 < size_of_T \<and> unat (start_addr a) + 8 * unat size_of_T < 2 ^ 64"

definition abs_alloc :: "nat set \<Rightarrow> nat option \<times> nat set" where
  "abs_alloc S =
     (case filter (\<lambda>b. b \<notin> S) [0..<8] of [] \<Rightarrow> (None, S) | b # _ \<Rightarrow> (Some b, insert b S))"

lemma used_slots_put:
  "b < 8 \<Longrightarrow> used_slots (a\<lparr>bitmap := put_bit (bitmap a) b v\<rparr>)
     = (if v then insert b (used_slots a) else used_slots a - {b})"
  by (auto simp: used_slots_def get_put_bit)

lemma allocate_from_spec:
  assumes B: "bits_contract B" and "\<forall>b \<in> set bs. b < 8"
  shows "allocate_from B bs size_of_T a =
     (case filter (\<lambda>b. b \<notin> used_slots a) bs of
        [] \<Rightarrow> Inr (None, a)
      | b # _ \<Rightarrow> Inr (Some (slot_addr a size_of_T b),
                      a\<lparr>bitmap := put_bit (bitmap a) b True\<rparr>))"
  using assms(2)
  by (induction bs)
    (auto simp: run_simps used_slots_def slot_addr_def bits_contract_get[OF B] bits_contract_set[OF B])

lemma unat_slot_addr:
  assumes "fits a size_of_T" and "b < 8"
  shows "unat (slot_addr a size_of_T b) = unat (start_addr a) + b * unat size_of_T"
proof -
  have b: "b * unat size_of_T \<le> 7 * unat size_of_T" using assms(2) by simp
  have "unat (of_nat b :: u64) = b" using assms(2) by (simp add: unat_of_nat take_bit_nat_eq_self)
  moreover have lt: "unat (start_addr a) + b * unat size_of_T < 2 ^ 64"
    using assms b unfolding fits_def by linarith
  ultimately have m: "unat (of_nat b * size_of_T :: u64) = b * unat size_of_T"
    by (simp add: unat_word_ariths)
  show ?thesis
    using lt by (simp add: slot_addr_def unat_word_ariths(1) m)
qed

lemma slot_addr_index:
  assumes "fits a size_of_T" and "b < 8"
  shows "unat ((slot_addr a size_of_T b - start_addr a) div size_of_T) = b"
    and "start_addr a \<le> slot_addr a size_of_T b"
proof -
  have le: "start_addr a \<le> slot_addr a size_of_T b"
    by (simp add: word_le_nat_alt unat_slot_addr[OF assms])
  then have "unat (slot_addr a size_of_T b - start_addr a) = b * unat size_of_T"
    by (simp add: unat_sub unat_slot_addr[OF assms])
  then show "unat ((slot_addr a size_of_T b - start_addr a) div size_of_T) = b"
    using assms(1) by (simp add: unat_div fits_def word_less_nat_alt)
  show "start_addr a \<le> slot_addr a size_of_T b" by (rule le)
qed

lemma allocate_abs:
  assumes "bits_contract B"
  shows "allocate B size_of_T a =
     (case abs_alloc (used_slots a) of
        (None, _) \<Rightarrow> Inr (None, a)
      | (Some b, _) \<Rightarrow> Inr (Some (slot_addr a size_of_T b),
                            a\<lparr>bitmap := put_bit (bitmap a) b True\<rparr>))"
  unfolding allocate_def abs_alloc_def
  by (subst allocate_from_spec[OF assms]) (auto split: list.split)

lemma abs_alloc_Some:
  assumes "abs_alloc S = (Some b, S')"
  shows "b < 8" and "b \<notin> S" and "S' = insert b S" and "\<forall>c<b. c \<in> S"
proof -
  from assms obtain bs where f: "filter (\<lambda>b. b \<notin> S) [0..<8] = b # bs" and S': "S' = insert b S"
    by (auto simp: abs_alloc_def split: list.splits)
  then have "b \<in> set (filter (\<lambda>b. b \<notin> S) [0..<8])" by simp
  then show "b < 8" and "b \<notin> S" by auto
  show "S' = insert b S" by (rule S')
  have sorted: "sorted (filter (\<lambda>b. b \<notin> S) [0..<8])"
    by (rule sorted_wrt_filter) simp
  show "\<forall>c<b. c \<in> S"
  proof (intro allI impI, rule ccontr)
    fix c assume "c < b" and "c \<notin> S"
    then have "c \<in> set (b # bs)" using \<open>b < 8\<close> unfolding f [symmetric] by simp
    with sorted \<open>c < b\<close> show False unfolding f by auto
  qed
qed

lemma abs_alloc_None: "abs_alloc S = (None, S') \<Longrightarrow> S' = S \<and> {0..<8} \<subseteq> S"
  by (auto simp: abs_alloc_def filter_empty_conv split: list.splits)

lemma deallocate_slot:
  assumes B: "bits_contract B" and fits: "fits a size_of_T" and b8: "b < 8"
  shows "deallocate B chk size_of_T (slot_addr a size_of_T b) a
       = Inr ((), a\<lparr>bitmap := put_bit (bitmap a) b False\<rparr>)"
proof -
  have "unat ((slot_addr a size_of_T b - start_addr a) div size_of_T mod 8) = b"
    using slot_addr_index(1)[OF fits b8] b8 by (simp add: unat_mod)
  then show ?thesis
    using fits slot_addr_index(2)[OF fits b8] b8
    by (auto simp: deallocate_def run_simps set_used_def Let_def fits_def bits_contract_set[OF B])
qed

section \<open>Any sequence of allocations and drops\<close>

text \<open>The state: the allocator and the pointers of the boxes that are alive.\<close>

inductive heap_step ::
    "bit_ops \<Rightarrow> bool \<Rightarrow> u64 \<Rightarrow> bootstrap_allocator \<times> u64 set \<Rightarrow> bootstrap_allocator \<times> u64 set \<Rightarrow> bool"
  for B chk size_of_T where
  step_alloc: "allocate B size_of_T a = Inr (Some p, a') \<Longrightarrow>
     heap_step B chk size_of_T (a, L) (a', insert p L)"
| step_exhausted: "allocate B size_of_T a = Inr (None, a') \<Longrightarrow>
     heap_step B chk size_of_T (a, L) (a', L)"
| step_drop: "p \<in> L \<Longrightarrow> deallocate B chk size_of_T p a = Inr ((), a') \<Longrightarrow>
     heap_step B chk size_of_T (a, L) (a', L - {p})"

inductive heap_reachable ::
    "bit_ops \<Rightarrow> bool \<Rightarrow> u64 \<Rightarrow> u64 \<Rightarrow> bootstrap_allocator \<times> u64 set \<Rightarrow> bool"
  for B chk size_of_T start where
  start: "heap_reachable B chk size_of_T start (new_unchecked start, {})"
| step: "heap_reachable B chk size_of_T start s \<Longrightarrow> heap_step B chk size_of_T s t \<Longrightarrow>
     heap_reachable B chk size_of_T start t"

inductive_cases heap_stepE: "heap_step B chk size_of_T (a, L) t"

definition heap_inv :: "u64 \<Rightarrow> u64 \<Rightarrow> bootstrap_allocator \<times> u64 set \<Rightarrow> bool" where
  "heap_inv size_of_T start = (\<lambda>(a, L).
     fits a size_of_T \<and> start_addr a = start \<and> L = slot_addr a size_of_T ` used_slots a)"

lemma slot_addr_eq_iff:
  assumes "fits a size_of_T" and "b < 8" and "c < 8"
  shows "slot_addr a size_of_T b = slot_addr a size_of_T c \<longleftrightarrow> b = c"
proof
  assume "slot_addr a size_of_T b = slot_addr a size_of_T c"
  with slot_addr_index(1)[OF assms(1,2)] slot_addr_index(1)[OF assms(1,3)] show "b = c"
    by (metis (no_types))
qed simp

lemma slot_addr_bitmap [simp]: "slot_addr (a\<lparr>bitmap := w\<rparr>) = slot_addr a"
  by (simp add: slot_addr_def fun_eq_iff)

lemma fits_bitmap [simp]: "fits (a\<lparr>bitmap := w\<rparr>) = fits a"
  by (simp add: fits_def fun_eq_iff)

lemma heap_inv_start:
  "0 < size_of_T \<Longrightarrow> unat start + 8 * unat size_of_T < 2 ^ 64 \<Longrightarrow>
    heap_inv size_of_T start (new_unchecked start, {})"
  by (simp add: heap_inv_def fits_def new_unchecked_def used_slots_def get_bit_def)

lemma heap_inv_step:
  assumes "heap_step B chk size_of_T s t" and "heap_inv size_of_T start s" and B: "bits_contract B"
  shows "heap_inv size_of_T start t"
  using assms(1,2)
proof (induction rule: heap_step.induct)
  case (step_alloc a p a' L)
  then obtain b S' where b: "abs_alloc (used_slots a) = (Some b, S')"
    and p: "p = slot_addr a size_of_T b" and a': "a' = a\<lparr>bitmap := put_bit (bitmap a) b True\<rparr>"
    by (auto simp: allocate_abs[OF B] split: prod.splits option.splits)
  with step_alloc.prems abs_alloc_Some(1)[OF b] show ?case
    by (auto simp: heap_inv_def used_slots_put)
next
  case (step_exhausted a a' L)
  then show ?case by (auto simp: allocate_abs[OF B] split: prod.splits option.splits)
next
  case (step_drop p L a a')
  then obtain b where b: "b \<in> used_slots a" and p: "p = slot_addr a size_of_T b"
    and fits: "fits a size_of_T"
    by (auto simp: heap_inv_def)
  from b have b8: "b < 8" by (simp add: used_slots_def)
  have a': "a' = a\<lparr>bitmap := put_bit (bitmap a) b False\<rparr>"
    using step_drop.hyps(2) deallocate_slot[OF B fits b8, of chk] p by simp
  have "slot_addr a size_of_T ` (used_slots a - {b})
      = slot_addr a size_of_T ` used_slots a - {slot_addr a size_of_T b}"
    using b8 by (auto simp: used_slots_def slot_addr_eq_iff[OF fits])
  with step_drop.prems b8 show ?case
    by (simp add: heap_inv_def a' p used_slots_put)
qed

lemma heap_reachable_inv:
  assumes "heap_reachable B chk size_of_T start s" and "bits_contract B"
    and "0 < size_of_T" and "unat start + 8 * unat size_of_T < 2 ^ 64"
  shows "heap_inv size_of_T start s"
  using assms by (induction rule: heap_reachable.induct) (auto intro: heap_inv_start heap_inv_step)

lemma slots_disjoint:
  assumes "fits a size_of_T" and "b < 8" and "c < 8" and "b \<noteq> c"
  shows "{unat (slot_addr a size_of_T b)..<unat (slot_addr a size_of_T b) + unat size_of_T}
       \<inter> {unat (slot_addr a size_of_T c)..<unat (slot_addr a size_of_T c) + unat size_of_T} = {}"
proof -
  have lt: "x * k + k \<le> y * k" if "x < y" for x y k :: nat
    using mult_le_mono1[of "Suc x" y k] that by simp
  show ?thesis
  proof (cases "b < c")
    case True
    from lt[OF this, of "unat size_of_T"] show ?thesis
      by (simp add: unat_slot_addr[OF assms(1)] assms(2,3))
  next
    case False
    with assms(4) have "c < b" by simp
    from lt[OF this, of "unat size_of_T"] show ?thesis
      by (simp add: unat_slot_addr[OF assms(1)] assms(2,3) Int_commute)
  qed
qed

section \<open>Properties\<close>

text \<open>C21: whatever allocations and drops have happened since \<open>init_unchecked\<close>, the live
  boxes lie inside the heap's region and no two of them overlap.\<close>

theorem bootstrap_boxes_disjoint:
  assumes "heap_reachable B chk size_of_T start (a, L)" and "bits_contract B"
    and "0 < size_of_T" and "unat start + 8 * unat size_of_T < 2 ^ 64"
    and "p \<in> L" and "q \<in> L" and "p \<noteq> q"
  shows "{unat p..<unat p + unat size_of_T} \<inter> {unat q..<unat q + unat size_of_T} = {}
       \<and> unat start \<le> unat p \<and> unat p + unat size_of_T \<le> unat start + unat (space_taken size_of_T)"
proof -
  have inv: "heap_inv size_of_T start (a, L)" by (rule heap_reachable_inv[OF assms(1-4)])
  then have fits: "fits a size_of_T" and st: "start_addr a = start" by (auto simp: heap_inv_def)
  from inv assms(5-7) obtain b c where bc: "b < 8" "c < 8" "b \<noteq> c"
    "p = slot_addr a size_of_T b" "q = slot_addr a size_of_T c"
    by (auto simp: heap_inv_def used_slots_def)
  have "Suc b * unat size_of_T \<le> 8 * unat size_of_T" using bc(1) by (intro mult_le_mono1) simp
  moreover have "unat (space_taken size_of_T) = 8 * unat size_of_T"
    using assms(4) by (simp add: space_taken_def unat_word_ariths)
  ultimately show ?thesis
    using slots_disjoint[OF fits bc(1-3)] bc st by (simp add: unat_slot_addr[OF fits])
qed

theorem bootstrap_boxes_disjoint_witness:
  "heap_reachable word_bit_ops True 16 0x1000
     (\<lparr>start_addr = 0x1000, bitmap = 3\<rparr>, {0x1000, 0x1010}) \<and>
   {unat (0x1000 :: u64)..<unat (0x1000 :: u64) + 16} \<inter> {unat (0x1010 :: u64)..<unat (0x1010 :: u64) + 16} = {}"
proof -
  let ?a = "new_unchecked 0x1000"
  let ?a1 = "\<lparr>start_addr = 0x1000, bitmap = 1\<rparr>" and ?a2 = "\<lparr>start_addr = 0x1000, bitmap = 3\<rparr>"
  have upt: "[0..<8] = [0, 1, 2, 3, 4, 5, 6, 7 :: nat]" by (simp add: upt_rec)
  have "allocate word_bit_ops 16 ?a = Inr (Some 0x1000, ?a1)"
    by (simp add: allocate_def upt run_simps new_unchecked_def get_bit_def put_bit_def word_bit_ops_def)
  with heap_reachable.start[of word_bit_ops True 16 "0x1000"]
  have r1: "heap_reachable word_bit_ops True 16 0x1000 (?a1, {0x1000})"
    by (rule heap_reachable.step[OF _ step_alloc])
  have "allocate word_bit_ops 16 ?a1 = Inr (Some 0x1010, ?a2)"
    by (simp add: allocate_def upt run_simps get_bit_def put_bit_def word_bit_ops_def)
  with r1 have "heap_reachable word_bit_ops True 16 0x1000 (?a2, insert 0x1010 {0x1000})"
    by (rule heap_reachable.step[OF _ step_alloc])
  then have r2: "heap_reachable word_bit_ops True 16 0x1000 (?a2, {0x1000, 0x1010})"
    by (simp add: insert_commute)
  with bootstrap_boxes_disjoint[OF r2 word_bit_ops_contract, of "0x1000" "0x1010"] show ?thesis by simp
qed

text \<open>C22: \<open>allocate\<close> implements the abstract allocator on the set of used slots: it always
  returns, takes the first free slot and gives the address of that slot, or gives nothing and
  changes nothing when all eight slots are used.\<close>

theorem bootstrap_allocate_refines:
  assumes B: "bits_contract B"
  shows "\<exists>r a'. allocate B size_of_T a = Inr (r, a') \<and> start_addr a' = start_addr a \<and>
     used_slots a' = snd (abs_alloc (used_slots a)) \<and>
     r = map_option (slot_addr a size_of_T) (fst (abs_alloc (used_slots a))) \<and>
     (r = None) = (used_slots a = {0..<8})"
proof -
  obtain q S where q: "abs_alloc (used_slots a) = (q, S)" by fastforce
  show ?thesis
  proof (cases q)
    case None
    with abs_alloc_None q have "S = used_slots a" "{0..<8} \<subseteq> used_slots a" by blast+
    moreover have "used_slots a \<subseteq> {0..<8}" by (auto simp: used_slots_def)
    ultimately show ?thesis using q None by (auto simp: allocate_abs[OF B])
  next
    case (Some b)
    note S = abs_alloc_Some[OF q[unfolded Some]]
    then have "used_slots a \<noteq> {0..<8}" by auto
    with S q Some show ?thesis by (simp add: allocate_abs[OF B] used_slots_put)
  qed
qed

theorem bootstrap_allocate_refines_witness:
  "\<exists>r a'. allocate word_bit_ops 16 \<lparr>start_addr = 0x2000, bitmap = 3\<rparr> = Inr (r, a') \<and>
     used_slots a' = snd (abs_alloc (used_slots \<lparr>start_addr = 0x2000, bitmap = 3\<rparr>))"
  using bootstrap_allocate_refines[OF word_bit_ops_contract, of 16 "\<lparr>start_addr = 0x2000, bitmap = 3\<rparr>"]
  by blast

text \<open>C23: dropping a box that \<open>allocate\<close> has returned restores the allocator to exactly
  the state before the allocation.\<close>

theorem bootstrap_alloc_drop:
  assumes B: "bits_contract B" and "fits a size_of_T" and "allocate B size_of_T a = Inr (Some p, a')"
  shows "deallocate B chk size_of_T p a' = Inr ((), a)"
proof -
  obtain b S where b: "abs_alloc (used_slots a) = (Some b, S)"
    and p: "p = slot_addr a size_of_T b" and a': "a' = a\<lparr>bitmap := put_bit (bitmap a) b True\<rparr>"
    using assms(3) by (auto simp: allocate_abs[OF B] split: prod.splits option.splits)
  note S = abs_alloc_Some[OF b]
  have "put_bit (put_bit (bitmap a) b True) b False = bitmap a"
  proof (rule bit_word_eqI)
    fix n assume n: "n < LENGTH(8)"
    have "get_bit (put_bit (put_bit (bitmap a) b True) b False) n = (n \<noteq> b \<and> get_bit (bitmap a) n)"
      using S(1) by (simp add: get_put_bit)
    moreover have "\<not> get_bit (bitmap a) b" using S(1,2) by (simp add: used_slots_def)
    ultimately show "bit (put_bit (put_bit (bitmap a) b True) b False) n = bit (bitmap a) n"
      by (auto simp: get_bit_def)
  qed
  moreover have "deallocate B chk size_of_T (slot_addr a' size_of_T b) a'
      = Inr ((), a'\<lparr>bitmap := put_bit (bitmap a') b False\<rparr>)"
    by (rule deallocate_slot[OF B]) (use assms(2) S(1) a' in simp_all)
  ultimately show ?thesis by (simp add: a' p)
qed

theorem bootstrap_alloc_drop_witness:
  "deallocate word_bit_ops True 16 0x2020 \<lparr>start_addr = 0x2000, bitmap = 7\<rparr>
   = Inr ((), \<lparr>start_addr = 0x2000, bitmap = 3\<rparr>)"
proof -
  have upt: "[0..<8] = [0, 1, 2, 3, 4, 5, 6, 7 :: nat]" by (simp add: upt_rec)
  have "allocate word_bit_ops 16 \<lparr>start_addr = 0x2000, bitmap = 3\<rparr>
      = Inr (Some 0x2020, \<lparr>start_addr = 0x2000, bitmap = 7\<rparr>)"
    by (simp add: allocate_def upt run_simps get_bit_def put_bit_def word_bit_ops_def)
  moreover have "fits \<lparr>start_addr = 0x2000, bitmap = 3\<rparr> 16" by (simp add: fits_def)
  ultimately show ?thesis by (intro bootstrap_alloc_drop[OF word_bit_ops_contract])
qed

end
