(* ===== verification/Machine.thy ===== *)
theory Machine
  imports Bootstrap_Heap
begin

text \<open>
  The machine the kernel runs on and the kernel's global state.  A record \<open>crates\<close> holds
  what the sources only call: the build profile, the address types of the \<open>x86_64\<close>
  crate and the buddy tree of the \<open>friendly\<close> crate; \<open>x86_64_contract\<close> is what their
  documentation promises of the address types.  The record \<open>machine\<close> holds physical
  memory, the control registers and the statics \<open>PHYSICAL_ALLOCATOR\<close>, \<open>HEAP\<close> and
  \<open>BOOTSTRAP_HEAP\<close>.  The MMU walks the page tables in physical memory from \<open>CR3\<close>; every
  access of the kernel to a virtual address goes through it, so that the kernel's
  recursive mapping can be verified instead of assumed.  Accessed and dirty bits, which
  the kernel never reads, and stale TLB entries are not modelled; flushes are logged.
\<close>

section \<open>Code outside the repository\<close>

text \<open>Where a tree keeps its blocks: \<open>TreeBox\<close> and the \<open>&'static mut\<close> array of the heap.\<close>

datatype tree_box = Bootstrap u64 | Heap u64 | Static u64

record 't crates =
  overflow_checks :: bool
  phys_addr_new :: "u64 \<Rightarrow> u64 option"
  virt_addr_try_new :: "u64 \<Rightarrow> u64 option"
  frame_containing_address :: "u64 \<Rightarrow> u64"
  tree_new :: "nat \<Rightarrow> nat \<Rightarrow> (u64 \<times> u64) list \<Rightarrow> tree_box \<Rightarrow> 't"
  tree_allocate :: "'t \<Rightarrow> u8 \<Rightarrow> u64 option \<times> 't"
  tree_deallocate :: "'t \<Rightarrow> u64 \<Rightarrow> u8 \<Rightarrow> 't option"
  tree_block_order_free :: "'t \<Rightarrow> u64 \<Rightarrow> u8"
  tree_max_order :: "nat \<Rightarrow> u8"
  blocks_in_tree :: "nat \<Rightarrow> nat"
  bit_field :: bit_ops
  atomic_bitfield :: bit_ops

definition canonical :: "u64 \<Rightarrow> bool" where
  "canonical va \<longleftrightarrow> drop_bit 47 va = 0 \<or> drop_bit 47 va = 0x1FFFF"

definition x86_64_contract :: "'t crates \<Rightarrow> bool" where
  "x86_64_contract C \<longleftrightarrow>
     (\<forall>a. a < 2 ^ 52 \<longrightarrow> phys_addr_new C a = Some a) \<and>
     (\<forall>a. canonical a \<longrightarrow> virt_addr_try_new C a = Some a) \<and>
     (\<forall>a. frame_containing_address C a = a AND NOT 0xFFF)"

section \<open>The state\<close>

datatype tlb_event = Flush u64 | Flush_all

text \<open>\<open>pmem f i\<close> is the \<open>i\<close>-th 64-bit word of the physical frame that starts at \<open>f\<close>.\<close>

record 't machine =
  pmem :: "u64 \<Rightarrow> u64 \<Rightarrow> u64"
  cr3 :: u64
  cr3_flags :: u64
  cr0_wp :: bool
  tlb_log :: "tlb_event list"
  phys_trees :: "'t option list option"
  heap_tree :: "'t option"
  bootstrap_heap :: "bootstrap_allocator option"

text \<open>Running an operation of the \<open>BOOTSTRAP_HEAP\<close> static inside the machine.\<close>

definition on_bootstrap ::
    "(bootstrap_allocator option, 'a) comp \<Rightarrow> (('t, 'z) machine_scheme, 'a) comp" where
  "on_bootstrap f m = (case f (bootstrap_heap m) of
       Inl e \<Rightarrow> Inl e
     | Inr (x, h) \<Rightarrow> Inr (x, m\<lparr>bootstrap_heap := h\<rparr>))"

section \<open>The MMU\<close>

definition pte_present :: "u64 \<Rightarrow> bool" where "pte_present e = bit e 0"
definition pte_writable :: "u64 \<Rightarrow> bool" where "pte_writable e = bit e 1"
definition pte_user :: "u64 \<Rightarrow> bool" where "pte_user e = bit e 2"
definition pte_huge :: "u64 \<Rightarrow> bool" where "pte_huge e = bit e 7"

definition pte_frame :: "u64 \<Rightarrow> u64" where
  "pte_frame e = e AND 0x000FFFFFFFFFF000"

definition va_p4 :: "u64 \<Rightarrow> u64" where "va_p4 va = drop_bit 39 va AND 511"
definition va_p3 :: "u64 \<Rightarrow> u64" where "va_p3 va = drop_bit 30 va AND 511"
definition va_p2 :: "u64 \<Rightarrow> u64" where "va_p2 va = drop_bit 21 va AND 511"
definition va_p1 :: "u64 \<Rightarrow> u64" where "va_p1 va = drop_bit 12 va AND 511"
definition va_word :: "u64 \<Rightarrow> u64" where "va_word va = drop_bit 3 va AND 511"

text \<open>The 4-level walk: the 4 KiB frame that holds the address, whether every level allows
  writes, and whether every level allows user accesses.  Large pages end the walk early;
  a large-page bit in a level-4 entry is reserved and faults.\<close>

definition mmu_translate :: "('t, 'z) machine_scheme \<Rightarrow> u64 \<Rightarrow> (u64 \<times> bool \<times> bool) option" where
  "mmu_translate m va =
     (if \<not> canonical va then None else
      let e4 = pmem m (cr3 m) (va_p4 va) in
      if \<not> pte_present e4 \<or> pte_huge e4 then None else
      let e3 = pmem m (pte_frame e4) (va_p3 va) in
      if \<not> pte_present e3 then None else
      if pte_huge e3 then
        Some ((pte_frame e3 AND NOT 0x3FFFFFFF) OR (va AND 0x3FFFF000),
              pte_writable e4 \<and> pte_writable e3, pte_user e4 \<and> pte_user e3) else
      let e2 = pmem m (pte_frame e3) (va_p2 va) in
      if \<not> pte_present e2 then None else
      if pte_huge e2 then
        Some ((pte_frame e2 AND NOT 0x1FFFFF) OR (va AND 0x1FF000),
              pte_writable e4 \<and> pte_writable e3 \<and> pte_writable e2,
              pte_user e4 \<and> pte_user e3 \<and> pte_user e2) else
      let e1 = pmem m (pte_frame e2) (va_p1 va) in
      if \<not> pte_present e1 then None else
        Some (pte_frame e1,
              pte_writable e4 \<and> pte_writable e3 \<and> pte_writable e2 \<and> pte_writable e1,
              pte_user e4 \<and> pte_user e3 \<and> pte_user e2 \<and> pte_user e1))"

text \<open>Kernel-mode accesses to an aligned 64-bit word.  With \<open>CR0.WP\<close> set, the kernel too
  must not write through a read-only mapping.\<close>

definition write_word :: "u64 \<Rightarrow> u64 \<Rightarrow> u64 \<Rightarrow> ('t, 'z) machine_scheme \<Rightarrow> ('t, 'z) machine_scheme" where
  "write_word f i v m = m\<lparr>pmem := (pmem m)(f := (pmem m f)(i := v))\<rparr>"

definition vread :: "u64 \<Rightarrow> (('t, 'z) machine_scheme, u64) comp" where
  "vread va m = (case mmu_translate m va of
       None \<Rightarrow> Inl (Page_fault va)
     | Some (f, _, _) \<Rightarrow> Inr (pmem m f (va_word va), m))"

definition vwrite :: "u64 \<Rightarrow> u64 \<Rightarrow> (('t, 'z) machine_scheme, unit) comp" where
  "vwrite va v m = (case mmu_translate m va of
       None \<Rightarrow> Inl (Page_fault va)
     | Some (f, w, _) \<Rightarrow>
         if cr0_wp m \<and> \<not> w then Inl (Page_fault va)
         else Inr ((), write_word f (va_word va) v m))"

definition tlb_flush :: "'t crates \<Rightarrow> u64 \<Rightarrow> (('t, 'z) machine_scheme, unit) comp" where
  "tlb_flush C va =
     bind (expect (virt_addr_try_new C va) ''address passed to VirtAddr::new is not canonical'')
       (\<lambda>a. modify (\<lambda>m. m\<lparr>tlb_log := tlb_log m @ [Flush a]\<rparr>))"

definition tlb_flush_all :: "(('t, 'z) machine_scheme, unit) comp" where
  "tlb_flush_all = modify (\<lambda>m. m\<lparr>tlb_log := tlb_log m @ [Flush_all]\<rparr>)"

text \<open>\<open>PhysAddr::new\<close>.\<close>

definition phys_addr :: "'t crates \<Rightarrow> u64 \<Rightarrow> (('t, 'z) machine_scheme, u64) comp" where
  "phys_addr C a = expect (phys_addr_new C a) ''physical addresses must not have any bits in the range 52 to 64 set''"

lemma pmem_write_word [simp]:
  "pmem (write_word f i v m) g j = (if g = f \<and> j = i then v else pmem m g j)"
  by (simp add: write_word_def)

lemma write_word_same [simp]:
  "cr3 (write_word f i v m) = cr3 m"
  "cr3_flags (write_word f i v m) = cr3_flags m"
  "cr0_wp (write_word f i v m) = cr0_wp m"
  "tlb_log (write_word f i v m) = tlb_log m"
  "phys_trees (write_word f i v m) = phys_trees m"
  "heap_tree (write_word f i v m) = heap_tree m"
  "bootstrap_heap (write_word f i v m) = bootstrap_heap m"
  by (simp_all add: write_word_def)

lemma tlb_flush_run [run_simps]:
  "x86_64_contract C \<Longrightarrow> canonical va \<Longrightarrow>
    tlb_flush C va m = Inr ((), m\<lparr>tlb_log := tlb_log m @ [Flush va]\<rparr>)"
  by (simp add: tlb_flush_def x86_64_contract_def run_simps)

lemma phys_addr_run [run_simps]:
  "x86_64_contract C \<Longrightarrow> a < 2 ^ 52 \<Longrightarrow> phys_addr C a m = Inr (a, m)"
  by (simp add: phys_addr_def x86_64_contract_def run_simps)

lemma mmu_translate_cong:
  "pmem m' = pmem m \<Longrightarrow> cr3 m' = cr3 m \<Longrightarrow> mmu_translate m' va = mmu_translate m va"
  by (simp only: mmu_translate_def)

lemma pte_frame_mask: "pte_frame e AND 0xFFF = 0"
  by (simp add: pte_frame_def and.assoc)

lemma pte_frame_bound: "pte_frame e < 2 ^ 52"
proof -
  have "pte_frame e \<le> 0x000FFFFFFFFFF000"
    unfolding pte_frame_def by (rule word_and_le1)
  then show ?thesis by (rule order_le_less_trans) simp
qed

end
