(* ===== verification/Physical_Allocator.thy ===== *)
theory Physical_Allocator
  imports Machine
begin

text \<open>
  \<open>kernel/src/memory/physical_allocator.rs\<close>: the frame allocator, an array of 256 buddy
  trees of 1 GiB each.  The trees are those of the \<open>friendly\<close> crate, reached through the
  operations of the record \<open>crates\<close>; \<open>friendly_contract\<close> states what that crate documents
  of a buddy tree in terms of the set of base blocks that are free.  The allocation loop
  is written with the answers of \<open>try_lock\<close> as an argument, so that contention from other
  cores is part of the model.  \<open>phys_free\<close>, the set of free frames of the whole allocator,
  is its abstract state: the lemmas show that \<open>allocate\<close> and \<open>deallocate\<close> act on it as a
  frame allocator must, which the locale \<open>frame_allocator\<close> states for the paging code.
\<close>

section \<open>Definitions\<close>

definition LEVEL_COUNT :: nat where "LEVEL_COUNT = 19"
definition BASE_ORDER :: nat where "BASE_ORDER = 12"

text \<open>\<open>size_of::<[Block; PhysicalTree::total_blocks()]>()\<close>; a \<open>Block\<close> is one byte.\<close>

definition tree_array_size :: "'t crates \<Rightarrow> u64" where
  "tree_array_size C = of_nat (blocks_in_tree C LEVEL_COUNT)"

definition localize :: "u8 \<Rightarrow> (u64 \<times> u64) list \<Rightarrow> (u64 \<times> u64) list" where
  "localize gib usable = List.map_filter (\<lambda>(range_start, range_end).
     let gib_start = push_bit 30 (ucast gib); gib_end = push_bit 30 (ucast gib + 1) + 1 in
     if range_start \<le> gib_end \<and> gib_start \<le> range_end then
       let hi = range_end - gib_start;
           lo = (if gib_start \<le> range_start then range_start - gib_start else 0)
       in Some (lo, hi)
     else None) usable"

text \<open>The body of the \<open>call_once\<close> of \<open>init_prelim\<close>: one tree per slot, on the bootstrap heap.\<close>

primrec prelim_trees ::
    "'t crates \<Rightarrow> (u64 \<times> u64) list \<Rightarrow> nat list \<Rightarrow> (('t, 'z) machine_scheme, 't list) comp" where
  "prelim_trees C usable [] = ret []"
| "prelim_trees C usable (i # is) =
     bind (on_bootstrap (heap_allocate (bit_field C) (tree_array_size C))) (\<lambda>b.
     bind (expect b ''Ran out of bootstrap heap memory!'') (\<lambda>p.
     let tree = tree_new C LEVEL_COUNT BASE_ORDER (localize (of_nat i) usable) (Bootstrap p) in
     bind (prelim_trees C usable is) (\<lambda>ts. ret (tree # ts))))"

definition init_prelim :: "'t crates \<Rightarrow> (u64 \<times> u64) list \<Rightarrow> (('t, 'z) machine_scheme, unit) comp" where
  "init_prelim C usable =
     bind (gets phys_trees) (\<lambda>once. case once of
       Some _ \<Rightarrow> ret ()
     | None \<Rightarrow> bind (prelim_trees C usable [0..<8]) (\<lambda>ts.
         modify (\<lambda>m. m\<lparr>phys_trees := Some (map Some ts @ replicate 248 None)\<rparr>)))"

datatype try_state = Tried | WasInUse | Untried

primrec position :: "try_state \<Rightarrow> try_state list \<Rightarrow> nat option" where
  "position x [] = None"
| "position x (y # ys) = (if y = x then Some 0 else map_option Suc (position x ys))"

definition next_index :: "try_state list \<Rightarrow> nat option" where
  "next_index tried =
     (case position Untried tried of Some i \<Rightarrow> Some i | None \<Rightarrow> position WasInUse tried)"

text \<open>The address of a block at \<open>address\<close> of tree \<open>index\<close>.\<close>

definition global_address :: "'t crates \<Rightarrow> nat \<Rightarrow> u64 \<Rightarrow> (unit, u64) comp" where
  "global_address C index address =
     bind (add_ck (overflow_checks C) (tree_max_order C LEVEL_COUNT) (of_nat BASE_ORDER)) (\<lambda>sh.
     bind (shl_ck (overflow_checks C) 1 (unat sh)) (\<lambda>gib.
     bind (mul_ck (overflow_checks C) (of_nat index) gib) (\<lambda>off.
     bind (add_ck (overflow_checks C) address off) (\<lambda>addr.
     bind (expect (phys_addr_new C addr) ''physical addresses must not have any bits in the range 52 to 64 set'')
       (\<lambda>a. ret (frame_containing_address C a))))))"

text \<open>One iteration of the loop of \<open>allocate\<close>: \<^const>\<open>Inl\<close> leaves it with a result, \<^const>\<open>Inr\<close>
  goes round again.  \<open>busy i\<close> says that \<open>try_lock\<close> finds tree \<open>i\<close> locked by somebody else.\<close>

definition allocate_attempt ::
    "'t crates \<Rightarrow> (nat \<Rightarrow> bool) \<Rightarrow> u8 \<Rightarrow> try_state list \<Rightarrow> 't option list
      \<Rightarrow> (stop + (u64 option \<times> 't option list)) + (try_state list \<times> 't option list)" where
  "allocate_attempt C busy order tried trees =
     (case next_index tried of
        None \<Rightarrow> Inl (Inr (None, trees))
      | Some index \<Rightarrow>
          if busy index then Inr (tried[index := WasInUse], trees)
          else (case trees ! index of
              None \<Rightarrow> Inr (tried[index := Tried], trees)
            | Some tree \<Rightarrow>
                (case tree_allocate C tree order of
                   (Some address, tree') \<Rightarrow>
                     (case global_address C index address () of
                        Inl e \<Rightarrow> Inl (Inl e)
                      | Inr (frame, _) \<Rightarrow> Inl (Inr (Some frame, trees[index := Some tree'])))
                 | (None, tree') \<Rightarrow> Inr (tried[index := Tried], trees[index := Some tree']))))"

text \<open>The loop itself; \<open>busy t\<close> are the locks held by others at the \<open>t\<close>-th attempt, and
  \<^const>\<open>None\<close> is a loop that never ends.\<close>

partial_function (option) allocate_loop ::
    "'t crates \<Rightarrow> (nat \<Rightarrow> nat \<Rightarrow> bool) \<Rightarrow> u8 \<Rightarrow> nat \<Rightarrow> try_state list \<Rightarrow> 't option list
      \<Rightarrow> (stop + (u64 option \<times> 't option list)) option" where
  "allocate_loop C busy order t tried trees =
     (case allocate_attempt C (busy t) order tried trees of
        Inl r \<Rightarrow> Some r
      | Inr (tried', trees') \<Rightarrow> allocate_loop C busy order (Suc t) tried' trees')"

text \<open>\<open>allocate\<close> on one core: nobody else holds a tree's lock, since the kernel never
  allocates frames in an interrupt handler.\<close>

definition phys_allocate :: "'t crates \<Rightarrow> u8 \<Rightarrow> (('t, 'z) machine_scheme, u64 option) comp" where
  "phys_allocate C order m = (case phys_trees m of
       None \<Rightarrow> Inl (Panic ''called Option::unwrap() on a None value'')
     | Some trees \<Rightarrow>
         (case allocate_loop C (\<lambda>_ _. False) order 0 (replicate 256 Untried) trees of
            None \<Rightarrow> Inl Spins
          | Some (Inl e) \<Rightarrow> Inl e
          | Some (Inr (r, trees')) \<Rightarrow> Inr (r, m\<lparr>phys_trees := Some trees'\<rparr>)))"

definition phys_deallocate :: "'t crates \<Rightarrow> u64 \<Rightarrow> u8 \<Rightarrow> (('t, 'z) machine_scheme, unit) comp" where
  "phys_deallocate C frame_addr order =
     (let tree = drop_bit (LEVEL_COUNT - 1 + BASE_ORDER) frame_addr;
          local_ptr = frame_addr mod push_bit (LEVEL_COUNT - 1 + BASE_ORDER) 1 in
      bind (gets phys_trees) (\<lambda>once.
      bind (expect once ''called Option::unwrap() on a None value'') (\<lambda>trees.
        if length trees \<le> unat tree then stop_with Out_of_bounds else
        bind (expect (trees ! unat tree) ''called Option::unwrap() on a None value'') (\<lambda>t.
        bind (expect (tree_deallocate C t local_ptr order) ''block is not in use'') (\<lambda>t'.
        modify (\<lambda>m. m\<lparr>phys_trees := Some (trees[unat tree := Some t'])\<rparr>))))))"

section \<open>What the buddy tree promises\<close>

text \<open>The base blocks of the block of order \<open>order\<close> at \<open>a\<close>.\<close>

definition block :: "u64 \<Rightarrow> u8 \<Rightarrow> u64 set" where
  "block a order = (\<lambda>k. a + of_nat k * 0x1000) ` {..<2 ^ unat order}"

text \<open>
  \<open>ok\<close> tells the well-formed trees of \<open>LEVEL_COUNT\<close> levels over base order
  \<open>BASE_ORDER\<close> apart, \<open>free\<close> gives the offsets of their free base blocks.  An allocation
  takes a free block out of the free set, a deallocation puts it back, a failing allocation
  leaves the free set alone, and all free blocks lie in the tree's 1 GiB.
\<close>

definition friendly_contract :: "'t crates \<Rightarrow> ('t \<Rightarrow> bool) \<Rightarrow> ('t \<Rightarrow> u64 set) \<Rightarrow> bool" where
  "friendly_contract C ok free \<longleftrightarrow>
     tree_max_order C LEVEL_COUNT = of_nat (LEVEL_COUNT - 1) \<and>
     (\<forall>t order a t'. ok t \<and> tree_allocate C t order = (Some a, t') \<longrightarrow>
        ok t' \<and> block a order \<subseteq> free t \<and> free t' = free t - block a order) \<and>
     (\<forall>t order t'. ok t \<and> tree_allocate C t order = (None, t') \<longrightarrow> ok t' \<and> free t' = free t) \<and>
     (\<forall>t order a t'. ok t \<and> tree_deallocate C t a order = Some t' \<longrightarrow>
        ok t' \<and> free t' = free t \<union> block a order) \<and>
     (\<forall>t a. ok t \<and> a \<in> free t \<longrightarrow> a < 2 ^ 30 \<and> a AND 0xFFF = 0)"

lemma friendly_max_order:
  "friendly_contract C ok free \<Longrightarrow> tree_max_order C LEVEL_COUNT = of_nat (LEVEL_COUNT - 1)"
  unfolding friendly_contract_def by (elim conjE)

lemma friendly_alloc_Some:
  assumes "friendly_contract C ok free" and "ok t" and "tree_allocate C t order = (Some a, t')"
  shows "ok t' \<and> block a order \<subseteq> free t \<and> free t' = free t - block a order"
proof -
  from assms(1) have "\<forall>t order a t'. ok t \<and> tree_allocate C t order = (Some a, t') \<longrightarrow>
      ok t' \<and> block a order \<subseteq> free t \<and> free t' = free t - block a order"
    unfolding friendly_contract_def by (elim conjE)
  with assms(2,3) show ?thesis by metis
qed

lemma friendly_alloc_None:
  assumes "friendly_contract C ok free" and "ok t" and "tree_allocate C t order = (None, t')"
  shows "ok t' \<and> free t' = free t"
proof -
  from assms(1) have "\<forall>t order t'. ok t \<and> tree_allocate C t order = (None, t') \<longrightarrow>
      ok t' \<and> free t' = free t"
    unfolding friendly_contract_def by (elim conjE)
  with assms(2,3) show ?thesis by metis
qed

lemma friendly_dealloc:
  assumes "friendly_contract C ok free" and "ok t" and "tree_deallocate C t a order = Some t'"
  shows "ok t' \<and> free t' = free t \<union> block a order"
proof -
  from assms(1) have "\<forall>t order a t'. ok t \<and> tree_deallocate C t a order = Some t' \<longrightarrow>
      ok t' \<and> free t' = free t \<union> block a order"
    unfolding friendly_contract_def by (elim conjE)
  with assms(2,3) show ?thesis by metis
qed

lemma friendly_free_bound:
  assumes "friendly_contract C ok free" and "ok t" and "a \<in> free t"
  shows "a < 2 ^ 30" and "a AND 0xFFF = 0"
proof -
  from assms(1) have "\<forall>t a. ok t \<and> a \<in> free t \<longrightarrow> a < 2 ^ 30 \<and> a AND 0xFFF = 0"
    unfolding friendly_contract_def by (elim conjE)
  with assms(2,3) show "a < 2 ^ 30" and "a AND 0xFFF = 0" by metis+
qed

section \<open>The abstract state: free frames\<close>

definition tree_base :: "nat \<Rightarrow> u64" where
  "tree_base i = of_nat i * 2 ^ 30"

definition slot_free :: "('t \<Rightarrow> u64 set) \<Rightarrow> 't option list \<Rightarrow> nat \<Rightarrow> u64 set" where
  "slot_free free trees i =
     (case trees ! i of None \<Rightarrow> {} | Some t \<Rightarrow> (+) (tree_base i) ` free t)"

definition trees_free :: "('t \<Rightarrow> u64 set) \<Rightarrow> 't option list \<Rightarrow> u64 set" where
  "trees_free free trees = (\<Union>i<length trees. slot_free free trees i)"

definition trees_ok :: "('t \<Rightarrow> bool) \<Rightarrow> 't option list \<Rightarrow> bool" where
  "trees_ok ok trees \<longleftrightarrow>
     length trees = 256 \<and> (\<forall>i t. i < 256 \<longrightarrow> trees ! i = Some t \<longrightarrow> ok t)"

definition phys_free :: "('t \<Rightarrow> u64 set) \<Rightarrow> ('t, 'z) machine_scheme \<Rightarrow> u64 set" where
  "phys_free free m = (case phys_trees m of None \<Rightarrow> {} | Some trees \<Rightarrow> trees_free free trees)"

definition phys_ok :: "('t \<Rightarrow> bool) \<Rightarrow> ('t, 'z) machine_scheme \<Rightarrow> bool" where
  "phys_ok ok m \<longleftrightarrow> (\<exists>trees. phys_trees m = Some trees \<and> trees_ok ok trees)"

lemma unat_tree_base: "i < 256 \<Longrightarrow> unat (tree_base i) = i * 2 ^ 30"
  by (simp add: tree_base_def unat_word_ariths unat_of_nat take_bit_nat_eq_self)

lemma unat_tree_addr:
  assumes "i < 256" and "a < 2 ^ 30"
  shows "unat (tree_base i + a) = i * 2 ^ 30 + unat a"
proof -
  have "unat a < 2 ^ 30" using assms(2) by (simp add: word_less_nat_alt)
  then have "i * 2 ^ 30 + unat a < 2 ^ 64" using assms(1) by simp
  then show ?thesis by (simp add: unat_word_ariths(1) unat_tree_base[OF assms(1)])
qed

lemma tree_addr_inject:
  assumes "i < 256" "j < 256" "a < 2 ^ 30" "b < 2 ^ 30"
  shows "tree_base i + a = tree_base j + b \<longleftrightarrow> i = j \<and> a = b"
proof
  assume eq: "tree_base i + a = tree_base j + b"
  have a: "unat a < 2 ^ 30" and b: "unat b < 2 ^ 30"
    using assms(3,4) by (simp_all add: word_less_nat_alt)
  from eq have "i * 2 ^ 30 + unat a = j * 2 ^ 30 + unat b"
    by (metis unat_tree_addr assms)
  moreover from this a b have "i = j" by simp
  ultimately show "i = j \<and> a = b" by (simp add: word_unat_eq_iff)
qed simp

lemma global_address_run:
  assumes "friendly_contract C ok free" and "x86_64_contract C"
    and "i < 256" and "a < 2 ^ 30" and "a AND 0xFFF = 0"
  shows "global_address C i a () = Inr (tree_base i + a, ())"
proof -
  have mo: "tree_max_order C LEVEL_COUNT = 18"
    using friendly_max_order[OF assms(1)] by (simp add: LEVEL_COUNT_def)
  have ua: "unat a < 2 ^ 30" using assms(4) by (simp add: word_less_nat_alt)
  have i: "unat (of_nat i * 0x40000000 :: u64) = i * 2 ^ 30"
    using unat_tree_base[OF assms(3)] by (simp add: tree_base_def)
  have "unat (tree_base i + a) < 2 ^ 52"
    using assms(3) ua by (simp add: unat_tree_addr[OF assms(3,4)])
  then have lt: "tree_base i + a < 2 ^ 52" by (simp add: word_less_nat_alt)
  have "unat a mod 4096 = 0" using assms(5) by (simp add: page_aligned_iff)
  then have "unat (tree_base i + a) mod 4096 = 0"
    by (simp add: unat_tree_addr[OF assms(3,4)] mod_add_eq[symmetric] mod_mult_eq[symmetric])
  then have al: "(tree_base i + a) AND NOT 0xFFF = tree_base i + a"
    by (intro and_not_disjoint) (simp add: page_aligned_iff)
  show ?thesis
    using assms(2) lt al mo ua assms(3)
    by (simp add: global_address_def run_simps BASE_ORDER_def i tree_base_def x86_64_contract_def
        add.commute[of a] unat_of_nat take_bit_nat_eq_self)
qed

lemma block_base: "a \<in> block a order"
  by (auto simp: block_def intro!: image_eqI[where x = 0])

lemma block_shift: "(+) b ` block a order = block (b + a) order"
  by (auto simp: block_def image_image add.assoc)

lemma block_order_0 [simp]: "block a 0 = {a}"
  by (simp add: block_def lessThan_Suc)

lemma slot_free_disjoint:
  assumes ok: "trees_ok ok trees" and fc: "friendly_contract C ok free"
    and ij: "i < 256" "j < 256" "i \<noteq> j"
  shows "slot_free free trees i \<inter> slot_free free trees j = {}"
proof -
  have bound: "a < 2 ^ 30" if "k < 256" "trees ! k = Some u" "a \<in> free u" for k u a
    using friendly_free_bound(1)[OF fc _ that(3)] ok that(1,2) unfolding trees_ok_def by metis
  show ?thesis
  proof (rule equals0I)
    fix x assume "x \<in> slot_free free trees i \<inter> slot_free free trees j"
    then obtain t u a b where tu: "trees ! i = Some t" "trees ! j = Some u"
      and ab: "a \<in> free t" "b \<in> free u" and x: "x = tree_base i + a" "x = tree_base j + b"
      by (auto simp only: slot_free_def Int_iff split: option.splits)
    have "tree_base i + a = tree_base j + b \<longleftrightarrow> i = j \<and> a = b"
      by (rule tree_addr_inject[OF ij(1,2) bound[OF ij(1) tu(1) ab(1)] bound[OF ij(2) tu(2) ab(2)]])
    with ij(3) x show False by argo
  qed
qed

lemma trees_free_update:
  assumes ok: "trees_ok ok trees" and fc: "friendly_contract C ok free" and i: "i < 256"
  shows "trees_free free (trees[i := Some t'])
       = trees_free free trees - slot_free free trees i \<union> (+) (tree_base i) ` free t'"
proof -
  have len: "length trees = 256" using ok by (simp add: trees_ok_def)
  let ?rest = "\<Union>j\<in>{..<256} - {i}. slot_free free trees j"
  have split: "(\<Union>j<256. F j) = F i \<union> (\<Union>j\<in>{..<256} - {i}. F j)" for F :: "nat \<Rightarrow> u64 set"
    using i by blast
  have "?rest \<inter> slot_free free trees i = {}"
    using slot_free_disjoint[OF ok fc] i by blast
  moreover have "(\<Union>j\<in>{..<256} - {i}. slot_free free (trees[i := Some t']) j) = ?rest"
    by (intro SUP_cong) (auto simp: slot_free_def)
  moreover have "slot_free free (trees[i := Some t']) i = (+) (tree_base i) ` free t'"
    using i len by (simp add: slot_free_def)
  ultimately show ?thesis
    unfolding trees_free_def by (simp add: len split) blast
qed

lemma trees_ok_update:
  assumes "trees_ok ok trees" and "ok t'"
  shows "trees_ok ok (trees[i := Some t'])"
proof -
  have "ok t" if "j < 256" "trees[i := Some t'] ! j = Some t" for j t
    using assms that by (cases "j = i") (auto simp: trees_ok_def)
  with assms show ?thesis by (simp add: trees_ok_def)
qed

lemma slot_free_subset: "i < length trees \<Longrightarrow> slot_free free trees i \<subseteq> trees_free free trees"
  by (auto simp: trees_free_def)

section \<open>The allocation loop\<close>

lemma position_Some: "position x ys = Some i \<Longrightarrow> i < length ys \<and> ys ! i = x"
  by (induction ys arbitrary: i) (auto split: if_splits)

lemma position_None: "position x ys = None \<longleftrightarrow> x \<notin> set ys"
  by (induction ys) auto

lemma next_index_Some:
  "next_index tried = Some i \<Longrightarrow> i < length tried \<and> tried ! i \<noteq> Tried"
  by (auto simp: next_index_def split: option.splits dest: position_Some)

lemma next_index_None: "next_index tried = None \<longleftrightarrow> set tried \<subseteq> {Tried}"
proof -
  have "next_index tried = None \<longleftrightarrow> Untried \<notin> set tried \<and> WasInUse \<notin> set tried"
    by (simp add: next_index_def position_None[symmetric] split: option.splits)
  moreover have "x = Tried" if "Untried \<notin> set tried" "WasInUse \<notin> set tried" "x \<in> set tried" for x
    using that by (cases x) auto
  ultimately show ?thesis by auto
qed

definition alloc_post ::
    "('t \<Rightarrow> bool) \<Rightarrow> ('t \<Rightarrow> u64 set) \<Rightarrow> u8 \<Rightarrow> 't option list
      \<Rightarrow> stop + (u64 option \<times> 't option list) \<Rightarrow> bool" where
  "alloc_post ok free order trees r = (case r of
       Inl _ \<Rightarrow> False
     | Inr (None, trees') \<Rightarrow> trees_ok ok trees' \<and> trees_free free trees' = trees_free free trees
     | Inr (Some f, trees') \<Rightarrow> trees_ok ok trees' \<and> block f order \<subseteq> trees_free free trees
         \<and> trees_free free trees' = trees_free free trees - block f order)"

lemma trees_alloc_Some:
  assumes fc: "friendly_contract C ok free" and ok: "trees_ok ok trees"
    and i: "i < 256" "trees ! i = Some t" and al: "tree_allocate C t order = (Some a, t')"
  shows "trees_ok ok (trees[i := Some t'])"
    and "block (tree_base i + a) order \<subseteq> trees_free free trees"
    and "trees_free free (trees[i := Some t']) = trees_free free trees - block (tree_base i + a) order"
    and "a < 2 ^ 30" and "a AND 0xFFF = 0"
proof -
  have "ok t" using ok i by (simp add: trees_ok_def)
  note f = friendly_alloc_Some[OF fc this al]
  then have "a \<in> free t" using block_base by blast
  then show "a < 2 ^ 30" and "a AND 0xFFF = 0" using friendly_free_bound[OF fc \<open>ok t\<close>] by blast+
  from f ok show "trees_ok ok (trees[i := Some t'])" by (blast intro: trees_ok_update)
  have len: "i < length trees" using i ok by (simp add: trees_ok_def)
  have sf: "slot_free free trees i = (+) (tree_base i) ` free t" using i by (simp add: slot_free_def)
  have b: "block (tree_base i + a) order \<subseteq> slot_free free trees i"
    using f by (auto simp: sf simp flip: block_shift)
  with slot_free_subset[OF len] show sub: "block (tree_base i + a) order \<subseteq> trees_free free trees" by fast
  have "(+) (tree_base i) ` free t' = slot_free free trees i - block (tree_base i + a) order"
    using f by (simp add: sf image_set_diff flip: block_shift)
  with trees_free_update[OF ok fc i(1), of t'] b slot_free_subset[OF len, of free]
  show "trees_free free (trees[i := Some t']) = trees_free free trees - block (tree_base i + a) order"
    by blast
qed

lemma trees_alloc_None:
  assumes fc: "friendly_contract C ok free" and ok: "trees_ok ok trees"
    and i: "i < 256" "trees ! i = Some t" and al: "tree_allocate C t order = (None, t')"
  shows "trees_ok ok (trees[i := Some t'])"
    and "trees_free free (trees[i := Some t']) = trees_free free trees"
proof -
  have "ok t" using ok i by (simp add: trees_ok_def)
  note f = friendly_alloc_None[OF fc this al]
  then show "trees_ok ok (trees[i := Some t'])" using ok by (blast intro: trees_ok_update)
  have len: "i < length trees" using i ok by (simp add: trees_ok_def)
  have "slot_free free trees i = (+) (tree_base i) ` free t'"
    using f i by (simp add: slot_free_def)
  with trees_free_update[OF ok fc i(1), of t'] slot_free_subset[OF len, of free]
  show "trees_free free (trees[i := Some t']) = trees_free free trees"
    by blast
qed

text \<open>An iteration that leaves the loop gives a correct result; one that goes on keeps the
  free frames and turns at least one tree to \<^const>\<open>Tried\<close> unless it was locked.\<close>

lemma allocate_attempt_done:
  assumes fc: "friendly_contract C ok free" and x: "x86_64_contract C"
    and ok: "trees_ok ok trees" and len: "length tried = 256"
    and at: "allocate_attempt C busy order tried trees = Inl r"
  shows "alloc_post ok free order trees r"
proof (cases "next_index tried")
  case None
  with at ok show ?thesis by (auto simp: allocate_attempt_def alloc_post_def)
next
  case (Some i)
  then have i: "i < 256" using next_index_Some len by metis
  from Some at obtain tr a tr' where tr: "trees ! i = Some tr"
    and al: "tree_allocate C tr order = (Some a, tr')"
    by (auto simp: allocate_attempt_def split: if_splits option.splits prod.splits)
  note s = trees_alloc_Some[OF fc ok i tr al]
  have "r = Inr (Some (tree_base i + a), trees[i := Some tr'])"
    using at Some tr al
    by (simp add: allocate_attempt_def global_address_run[OF fc x i s(4,5)] split: if_splits)
  with s show ?thesis by (simp add: alloc_post_def)
qed

lemma allocate_attempt_again:
  assumes fc: "friendly_contract C ok free" and ok: "trees_ok ok trees"
    and len: "length tried = 256"
    and at: "allocate_attempt C busy order tried trees = Inr (tried', trees')"
  shows "length tried' = 256" and "trees_ok ok trees'"
    and "trees_free free trees' = trees_free free trees"
proof -
  from at obtain i where i: "next_index tried = Some i"
    by (auto simp: allocate_attempt_def split: option.splits)
  then have i256: "i < 256" using next_index_Some len by metis
  from at i have "trees' = trees \<or> (\<exists>tr tr'. trees ! i = Some tr
      \<and> tree_allocate C tr order = (None, tr') \<and> trees' = trees[i := Some tr'])"
    by (auto simp: allocate_attempt_def split: if_splits option.splits prod.splits sum.splits)
  then show "trees_ok ok trees'" and "trees_free free trees' = trees_free free trees"
    using trees_alloc_None[OF fc ok i256] ok by blast+
  from at i len show "length tried' = 256"
    by (auto simp: allocate_attempt_def split: if_splits option.splits prod.splits sum.splits)
qed

lemma allocate_loop_post:
  assumes fc: "friendly_contract C ok free" and x: "x86_64_contract C"
    and ret: "allocate_loop C busy order t tried trees = Some r"
    and ok: "trees_ok ok trees" and len: "length tried = 256"
  shows "alloc_post ok free order trees r"
proof -
  let ?P = "\<lambda>D b ord (t :: nat) tried trees r. D = C \<longrightarrow> ord = order \<longrightarrow> trees_ok ok trees
    \<longrightarrow> length tried = 256 \<longrightarrow> alloc_post ok free order trees r"
  have "?P C busy order t tried trees r"
  proof (rule allocate_loop.raw_induct[where P = ?P, OF _ ret], intro impI)
    fix loop D b ord t tried trees r
    assume IH: "\<And>D b ord t tried trees r.
        loop D b ord t tried trees = Some r \<Longrightarrow> ?P D b ord t tried trees r"
      and eq: "(case allocate_attempt D (b t) ord tried trees of Inl r \<Rightarrow> Some r
        | Inr (tried', trees') \<Rightarrow> loop D b ord (Suc t) tried' trees') = Some r"
      and D: "D = C" "ord = order" and ok: "trees_ok ok trees" and len: "length tried = 256"
    show "alloc_post ok free order trees r"
    proof (cases "allocate_attempt C (b t) order tried trees")
      case (Inl r')
      with eq D allocate_attempt_done[OF fc x ok len Inl] show ?thesis by simp
    next
      case (Inr p)
      obtain tried' trees' where p: "p = (tried', trees')" by (cases p)
      note again = allocate_attempt_again[OF fc ok len Inr[unfolded p]]
      from eq D Inr p have "loop D b ord (Suc t) tried' trees' = Some r" by simp
      from IH[OF this] D again have "alloc_post ok free order trees' r" by simp
      then show ?thesis by (simp only: alloc_post_def again(3))
    qed
  qed
  with ok len show ?thesis by simp
qed

definition pending :: "try_state list \<Rightarrow> nat" where
  "pending tried = card {i. i < length tried \<and> tried ! i \<noteq> Tried}"

lemma pending_Tried:
  assumes "i < length tried" and "tried ! i \<noteq> Tried"
  shows "pending (tried[i := Tried]) < pending tried"
proof -
  have "{k. k < length (tried[i := Tried]) \<and> tried[i := Tried] ! k \<noteq> Tried}
      = {k. k < length tried \<and> tried ! k \<noteq> Tried} - {i}"
    using assms(1) by (auto simp: nth_list_update split: if_splits)
  moreover have "i \<in> {k. k < length tried \<and> tried ! k \<noteq> Tried}" using assms by simp
  ultimately show ?thesis unfolding pending_def by (simp only:) (rule card_Diff1_less, simp_all)
qed

lemma pending_WasInUse:
  assumes "i < length tried" and "tried ! i \<noteq> Tried"
  shows "pending (tried[i := WasInUse]) = pending tried"
proof -
  have "{k. k < length (tried[i := WasInUse]) \<and> tried[i := WasInUse] ! k \<noteq> Tried}
      = {k. k < length tried \<and> tried ! k \<noteq> Tried}"
    using assms by (auto simp: nth_list_update split: if_splits)
  then show ?thesis by (simp add: pending_def)
qed

lemma allocate_attempt_pending:
  assumes "allocate_attempt C busy order tried trees = Inr (tried', trees')"
  shows "pending tried' \<le> pending tried"
    and "\<forall>i. \<not> busy i \<Longrightarrow> pending tried' < pending tried"
proof -
  from assms obtain i where i: "next_index tried = Some i"
    by (auto simp: allocate_attempt_def split: option.splits)
  note lt = pending_Tried[OF next_index_Some[OF i, THEN conjunct1] next_index_Some[OF i, THEN conjunct2]]
    and eq = pending_WasInUse[OF next_index_Some[OF i, THEN conjunct1] next_index_Some[OF i, THEN conjunct2]]
  from assms i have "tried' = tried[i := Tried] \<or> busy i \<and> tried' = tried[i := WasInUse]"
    by (auto simp: allocate_attempt_def split: if_splits option.splits prod.splits sum.splits)
  with lt eq show "pending tried' \<le> pending tried"
    and "\<forall>i. \<not> busy i \<Longrightarrow> pending tried' < pending tried" by auto
qed

lemma allocate_loop_returns:
  assumes quiet: "\<forall>t\<ge>N. \<forall>i. \<not> busy t i"
  shows "\<exists>r. allocate_loop C busy order t tried trees = Some r"
proof (induction "(N - t) + pending tried" arbitrary: t tried trees rule: less_induct)
  case less
  show ?case
  proof (cases "allocate_attempt C (busy t) order tried trees")
    case (Inl r)
    then show ?thesis by (subst allocate_loop.simps) simp
  next
    case (Inr p)
    obtain tried' trees' where p: "p = (tried', trees')" by (cases p)
    have "(N - Suc t) + pending tried' < (N - t) + pending tried"
      using allocate_attempt_pending[OF Inr[unfolded p]] quiet by (cases "t < N") auto
    from less[OF this] Inr p show ?thesis by (subst allocate_loop.simps) simp
  qed
qed

section \<open>The frame allocator as its clients see it\<close>

lemma phys_allocate_cases:
  assumes fc: "friendly_contract C ok free" and x: "x86_64_contract C" and ok: "phys_ok ok m"
  obtains (got) f trees where "phys_allocate C order m = Inr (Some f, m\<lparr>phys_trees := Some trees\<rparr>)"
      and "phys_ok ok (m\<lparr>phys_trees := Some trees\<rparr>)" and "block f order \<subseteq> phys_free free m"
      and "phys_free free (m\<lparr>phys_trees := Some trees\<rparr>) = phys_free free m - block f order"
    | (out) trees where "phys_allocate C order m = Inr (None, m\<lparr>phys_trees := Some trees\<rparr>)"
      and "phys_ok ok (m\<lparr>phys_trees := Some trees\<rparr>)"
      and "phys_free free (m\<lparr>phys_trees := Some trees\<rparr>) = phys_free free m"
proof -
  from ok obtain trees0 where t0: "phys_trees m = Some trees0" and ok0: "trees_ok ok trees0"
    by (auto simp: phys_ok_def)
  obtain r where r: "allocate_loop C (\<lambda>_ _. False) order 0 (replicate 256 Untried) trees0 = Some r"
    using allocate_loop_returns[of 0 "\<lambda>_ _. False" C order 0 "replicate 256 Untried" trees0] by auto
  have post: "alloc_post ok free order trees0 r"
    by (rule allocate_loop_post[OF fc x r ok0]) simp
  obtain q trees where q: "r = Inr (q, trees)"
    using post by (cases r) (auto simp: alloc_post_def)
  let ?m' = "m\<lparr>phys_trees := Some trees\<rparr>"
  have run: "phys_allocate C order m = Inr (q, ?m')" using r q t0 by (simp add: phys_allocate_def)
  show thesis
  proof (cases q)
    case None
    from post have "trees_ok ok trees" "trees_free free trees = trees_free free trees0"
      unfolding q None alloc_post_def by simp_all
    with run show thesis
      unfolding None by (intro out[of trees]) (simp_all add: phys_free_def phys_ok_def t0)
  next
    case (Some f)
    from post have "trees_ok ok trees" "block f order \<subseteq> trees_free free trees0"
      "trees_free free trees = trees_free free trees0 - block f order"
      unfolding q Some alloc_post_def by simp_all
    with run show thesis
      unfolding Some by (intro got[of f trees]) (simp_all add: phys_free_def phys_ok_def t0)
  qed
qed

lemma frame_address_split:
  "unat (drop_bit 30 (f :: u64)) = unat f div 2 ^ 30"
  "tree_base (unat (drop_bit 30 f)) + f mod push_bit 30 1 = f"
proof -
  show d: "unat (drop_bit 30 f) = unat f div 2 ^ 30"
    by (simp add: drop_bit_eq_div unat_div)
  have "tree_base (unat (drop_bit 30 f)) = f div 2 ^ 30 * 2 ^ 30"
    by (simp add: tree_base_def drop_bit_eq_div)
  then show "tree_base (unat (drop_bit 30 f)) + f mod push_bit 30 1 = f"
    by (simp add: push_bit_eq_mult div_mult_mod_eq)
qed

lemma phys_deallocate_free:
  assumes fc: "friendly_contract C ok free" and ok: "phys_ok ok m"
    and de: "phys_deallocate C f order m = Inr ((), m')"
  shows "phys_ok ok m'" and "phys_free free m' = phys_free free m \<union> block f order"
    and "\<exists>trees. m' = m\<lparr>phys_trees := Some trees\<rparr>"
proof -
  let ?i = "unat (drop_bit 30 f)" and ?l = "f mod push_bit 30 1"
  from ok obtain trees where t: "phys_trees m = Some trees" and tok: "trees_ok ok trees"
    by (auto simp: phys_ok_def)
  have sh: "LEVEL_COUNT - 1 + BASE_ORDER = 30" by (simp add: LEVEL_COUNT_def BASE_ORDER_def)
  from de t obtain tr tr' where i: "?i < 256" and tr: "trees ! ?i = Some tr"
    and d: "tree_deallocate C tr ?l order = Some tr'"
    and m': "m' = m\<lparr>phys_trees := Some (trees[?i := Some tr'])\<rparr>"
    using tok unfolding phys_deallocate_def Let_def sh
    by (auto simp: trees_ok_def run_simps stop_with_def elim!: bind_InrE expect_InrE
        simp: gets_def modify_def split: if_splits)
  have "ok tr" using tok tr i by (simp add: trees_ok_def)
  note f = friendly_dealloc[OF fc this d]
  have "slot_free free trees ?i \<subseteq> trees_free free trees"
    by (rule slot_free_subset) (use i tok in \<open>simp add: trees_ok_def\<close>)
  moreover have "(+) (tree_base ?i) ` free tr' = slot_free free trees ?i \<union> block f order"
    using f tr frame_address_split(2)[of f]
    by (simp add: slot_free_def image_Un block_shift del: push_bit_of_1)
  ultimately have "trees_free free (trees[?i := Some tr']) = trees_free free trees \<union> block f order"
    using trees_free_update[OF tok fc i, of tr'] by blast
  with t m' show "phys_free free m' = phys_free free m \<union> block f order"
    by (simp add: phys_free_def)
  from f tok m' show "phys_ok ok m'" by (simp add: phys_ok_def trees_ok_update)
  from m' show "\<exists>trees. m' = m\<lparr>phys_trees := Some trees\<rparr>" by blast
qed

section \<open>Giving up\<close>

text \<open>The trees marked \<^const>\<open>Tried\<close> have refused, the others are as they were.\<close>

definition refused :: "'t crates \<Rightarrow> u8 \<Rightarrow> 't option \<Rightarrow> bool" where
  "refused C order slot = (case slot of
       None \<Rightarrow> True
     | Some t \<Rightarrow> fst (tree_allocate C t order) = None)"

definition tried_inv :: "'t crates \<Rightarrow> u8 \<Rightarrow> 't option list \<Rightarrow> try_state list \<Rightarrow> 't option list \<Rightarrow> bool" where
  "tried_inv C order trees0 tried trees \<longleftrightarrow>
     length trees0 = length tried \<and> length trees = length tried \<and>
     (\<forall>i < length tried. if tried ! i = Tried then refused C order (trees0 ! i)
                         else trees ! i = trees0 ! i)"

lemma tried_inv_again:
  assumes inv: "tried_inv C order trees0 tried trees"
    and at: "allocate_attempt C busy order tried trees = Inr (tried', trees')"
  shows "tried_inv C order trees0 tried' trees'"
proof -
  from at obtain i where i: "next_index tried = Some i"
    by (auto simp: allocate_attempt_def split: option.splits)
  have il: "i < length tried" "tried ! i \<noteq> Tried" using next_index_Some[OF i] by auto
  then have same: "trees ! i = trees0 ! i" using inv by (auto simp: tried_inv_def)
  from at i same consider "tried' = tried[i := WasInUse]" "trees' = trees"
    | t where "tried' = tried[i := Tried]" "trees' = trees[i := t] \<or> trees' = trees"
        "refused C order (trees0 ! i)"
    by (auto simp: allocate_attempt_def refused_def split: if_splits option.splits prod.splits sum.splits)
  then show ?thesis
    using inv il by cases (auto simp: tried_inv_def nth_list_update split: if_splits)
qed

lemma allocate_loop_None:
  fixes C :: "'t crates"
  assumes ret: "allocate_loop C busy order t tried trees = Some (Inr (None, trees'))"
    and inv: "tried_inv C order trees0 tried trees"
  shows "\<forall>i < length trees0. refused C order (trees0 ! i)"
proof -
  let ?P = "\<lambda>D b ord (t :: nat) tried trees (r :: stop + (u64 option \<times> 't option list)).
    D = C \<longrightarrow> ord = order \<longrightarrow> tried_inv C order trees0 tried trees \<longrightarrow>
    (\<exists>u. r = Inr (None, u)) \<longrightarrow> (\<forall>i < length trees0. refused C order (trees0 ! i))"
  have "?P C busy order t tried trees (Inr (None, trees'))"
  proof (rule allocate_loop.raw_induct[where P = ?P, OF _ ret], intro impI)
    fix loop D b ord t tried trees r
    assume IH: "\<And>D b ord t tried trees r.
        loop D b ord t tried trees = Some r \<Longrightarrow> ?P D b ord t tried trees r"
      and eq: "(case allocate_attempt D (b t) ord tried trees of Inl r \<Rightarrow> Some r
        | Inr (tried', trees') \<Rightarrow> loop D b ord (Suc t) tried' trees') = Some r"
      and D: "D = C" "ord = order" and inv: "tried_inv C order trees0 tried trees"
      and r: "\<exists>u. r = Inr (None, u)"
    show "\<forall>i < length trees0. refused C order (trees0 ! i)"
    proof (cases "allocate_attempt C (b t) order tried trees")
      case (Inl r')
      with eq D r obtain u where "allocate_attempt C (b t) order tried trees = Inl (Inr (None, u))"
        by auto
      then have "next_index tried = None"
        by (auto simp: allocate_attempt_def split: option.splits if_splits prod.splits sum.splits)
      then have "tried ! i = Tried" if "i < length tried" for i
        using that by (meson next_index_None nth_mem singletonD subsetD)
      with inv show ?thesis by (auto simp: tried_inv_def)
    next
      case (Inr p)
      obtain tried' trees' where p: "p = (tried', trees')" by (cases p)
      from eq D Inr p have "loop D b ord (Suc t) tried' trees' = Some r" by simp
      from IH[OF this] D r tried_inv_again[OF inv Inr[unfolded p]] show ?thesis by blast
    qed
  qed
  with inv show ?thesis by blast
qed

section \<open>The interface of the frame allocator\<close>

text \<open>A run of successful allocations.\<close>

primrec allocs :: "('s \<Rightarrow> stop + ('f option \<times> 's)) \<Rightarrow> 's \<Rightarrow> 'f list \<Rightarrow> 's \<Rightarrow> bool" where
  "allocs alloc s [] s' = (s' = s)"
| "allocs alloc s (f # fs) s' = (\<exists>s1. alloc s = Inr (Some f, s1) \<and> allocs alloc s1 fs s')"

text \<open>What the paging code relies on: allocation returns, takes what it gives out of the free
  frames, and deallocation puts it back.\<close>

locale frame_allocator =
  fixes invar :: "'s \<Rightarrow> bool"
    and free :: "'s \<Rightarrow> 'f set"
    and alloc :: "'s \<Rightarrow> stop + ('f option \<times> 's)"
    and dealloc :: "'f \<Rightarrow> 's \<Rightarrow> stop + (unit \<times> 's)"
    and blk :: "'f \<Rightarrow> 'f set"
  assumes alloc_returns: "invar s \<Longrightarrow> \<exists>r s'. alloc s = Inr (r, s')"
    and alloc_some: "invar s \<Longrightarrow> alloc s = Inr (Some f, s') \<Longrightarrow>
      invar s' \<and> blk f \<subseteq> free s \<and> free s' = free s - blk f"
    and alloc_none: "invar s \<Longrightarrow> alloc s = Inr (None, s') \<Longrightarrow> invar s' \<and> free s' = free s"
    and dealloc_free: "invar s \<Longrightarrow> dealloc f s = Inr ((), s') \<Longrightarrow>
      invar s' \<and> free s' = free s \<union> blk f"
begin

lemma allocs_free:
  assumes "invar s" and "allocs alloc s fs s'"
  shows "invar s'" and "free s' = free s - (\<Union>f \<in> set fs. blk f)"
    and "\<forall>f \<in> set fs. blk f \<subseteq> free s"
  using assms
proof (induction fs arbitrary: s)
  case Nil
  {
    case 1 then show ?case by simp
  next
    case 2 then show ?case by simp
  next
    case 3 then show ?case by simp
  }
next
  case (Cons f fs)
  {
    case 1
    then show ?case using Cons.IH(1) alloc_some by fastforce
  next
    case 2
    then obtain s1 where "alloc s = Inr (Some f, s1)" "allocs alloc s1 fs s'" by auto
    with Cons.IH(2) alloc_some[OF 2(1)] show ?case by auto
  next
    case 3
    then obtain s1 where "alloc s = Inr (Some f, s1)" "allocs alloc s1 fs s'" by auto
    with Cons.IH(3) alloc_some[OF 3(1)] show ?case by fastforce
  }
qed

lemma allocs_disjoint:
  "invar s \<Longrightarrow> allocs alloc s fs s' \<Longrightarrow> sorted_wrt (\<lambda>f g. blk f \<inter> blk g = {}) fs"
proof (induction fs arbitrary: s)
  case Nil
  then show ?case by simp
next
  case (Cons f fs)
  then obtain s1 where s1: "alloc s = Inr (Some f, s1)" "allocs alloc s1 fs s'" by auto
  note a = alloc_some[OF Cons.prems(1) s1(1)]
  then have "blk f \<inter> blk g = {}" if "g \<in> set fs" for g
    using allocs_free(3)[OF _ s1(2)] that by blast
  moreover have "sorted_wrt (\<lambda>f g. blk f \<inter> blk g = {}) fs"
    using Cons.IH[OF _ s1(2)] a by blast
  ultimately show ?case by simp
qed

lemma alloc_dealloc:
  assumes "invar s" and "alloc s = Inr (Some f, s1)" and "dealloc f s1 = Inr ((), s2)"
  shows "invar s2 \<and> free s2 = free s"
  using alloc_some[OF assms(1,2)] dealloc_free[of s1 f s2] assms(3) by blast

end

text \<open>The environment in which the allocator of the machine is used: the crates with the
  promises made about them, and the machine.\<close>

type_synonym ('t, 'z) alloc_env =
  "'t crates \<times> ('t \<Rightarrow> bool) \<times> ('t \<Rightarrow> u64 set) \<times> ('t, 'z) machine_scheme"

definition env_ok :: "('t, 'z) alloc_env \<Rightarrow> bool" where
  "env_ok = (\<lambda>(C, ok, free, m). friendly_contract C ok free \<and> x86_64_contract C \<and> phys_ok ok m)"

definition env_free :: "('t, 'z) alloc_env \<Rightarrow> u64 set" where
  "env_free = (\<lambda>(C, ok, free, m). phys_free free m)"

definition in_env :: "('t crates \<Rightarrow> (('t, 'z) machine_scheme, 'a) comp) \<Rightarrow> (('t, 'z) alloc_env, 'a) comp" where
  "in_env f = (\<lambda>(C, ok, free, m). case f C m of
     Inl e \<Rightarrow> Inl e | Inr (x, m') \<Rightarrow> Inr (x, (C, ok, free, m')))"

interpretation phys: frame_allocator env_ok env_free "in_env (\<lambda>C. phys_allocate C order)"
  "\<lambda>f. in_env (\<lambda>C. phys_deallocate C f order)" "\<lambda>f. block f order" for order
proof
  fix s :: "('a, 'b) alloc_env" and s' f
  obtain C ok free m where s: "s = (C, ok, free, m)" by (cases s)
  assume "env_ok s"
  then have fc: "friendly_contract C ok free" and x: "x86_64_contract C" and ok: "phys_ok ok m"
    by (simp_all add: env_ok_def s)
  from fc x ok show "\<exists>r s'. in_env (\<lambda>C. phys_allocate C order) s = Inr (r, s')"
    by (cases rule: phys_allocate_cases[where order = order]) (simp_all add: in_env_def s)
  show "env_ok s' \<and> block f order \<subseteq> env_free s \<and> env_free s' = env_free s - block f order"
    if "in_env (\<lambda>C. phys_allocate C order) s = Inr (Some f, s')"
    using fc x ok
    by (cases rule: phys_allocate_cases[where order = order])
      (use that fc x in \<open>auto simp: in_env_def env_ok_def env_free_def s\<close>)
  show "env_ok s' \<and> env_free s' = env_free s" if "in_env (\<lambda>C. phys_allocate C order) s = Inr (None, s')"
    using fc x ok
    by (cases rule: phys_allocate_cases[where order = order])
      (use that fc x in \<open>auto simp: in_env_def env_ok_def env_free_def s\<close>)
  show "env_ok s' \<and> env_free s' = env_free s \<union> block f order"
    if "in_env (\<lambda>C. phys_deallocate C f order) s = Inr ((), s')"
    using that phys_deallocate_free(1,2)[OF fc ok] fc x
    by (auto simp: in_env_def env_ok_def env_free_def s split: sum.splits)
qed

lemma allocs_in_env:
  "allocs (phys_allocate C order) m fs m' \<Longrightarrow>
    allocs (in_env (\<lambda>C. phys_allocate C order)) (C, ok, free, m) fs (C, ok, free, m')"
proof (induction fs arbitrary: m)
  case Nil
  then show ?case by simp
next
  case (Cons f fs)
  then obtain m1 where "phys_allocate C order m = Inr (Some f, m1)"
    and "allocs (phys_allocate C order) m1 fs m'" by auto
  with Cons.IH[of m1] show ?case by (auto simp: in_env_def)
qed

end
