(* ===== verification/Paging.thy ===== *)
theory Paging
  imports Physical_Allocator
begin

text \<open>
  \<open>kernel/src/memory/paging.rs\<close>: pages, page table entries and their flags, and page
  tables.  A \<open>&PageTable<L>\<close> is the virtual address of the table together with its level;
  its entries are read and written through the MMU at \<open>table + 8 * index\<close>.  Table addresses
  come out of the recursive mapping: \<open>next_table_addr\<close> computes them from the address of
  the table above, as the code does.
\<close>

section \<open>Pages\<close>

datatype page_size = Kib4 | Mib2

primrec page_size_bytes :: "page_size \<Rightarrow> u64" where
  "page_size_bytes Kib4 = 4 * 1024"
| "page_size_bytes Mib2 = 2 * 1024 * 1024"

record page =
  number :: u64
  page_size :: "page_size option"

definition p4_index :: "page \<Rightarrow> u64" where "p4_index p = drop_bit 27 (number p) AND 0x1FF"
definition p3_index :: "page \<Rightarrow> u64" where "p3_index p = drop_bit 18 (number p) AND 0x1FF"
definition p2_index :: "page \<Rightarrow> u64" where "p2_index p = drop_bit 9 (number p) AND 0x1FF"
definition p1_index :: "page \<Rightarrow> u64" where "p1_index p = number p AND 0x1FF"

text \<open>\<open>start_address\<close>; the multiplication overflows for page numbers of \<open>2^52\<close> and more.\<close>

definition start_address :: "bool \<Rightarrow> page \<Rightarrow> ('s, u64 option) comp" where
  "start_address chk p = (case page_size p of
       None \<Rightarrow> ret None
     | Some sz \<Rightarrow> bind (mul_ck chk (number p) (page_size_bytes sz)) (\<lambda>a. ret (Some a)))"

definition containing_address :: "u64 \<Rightarrow> page" where
  "containing_address addr = \<lparr>number = addr div page_size_bytes Kib4, page_size = Some Kib4\<rparr>"

definition page_add :: "bool \<Rightarrow> page \<Rightarrow> u64 \<Rightarrow> ('s, page) comp" where
  "page_add chk p n = bind (add_ck chk (number p) n) (\<lambda>k. ret (p\<lparr>number := k\<rparr>))"

definition page_sub :: "bool \<Rightarrow> page \<Rightarrow> u64 \<Rightarrow> ('s, page) comp" where
  "page_sub chk p n = bind (sub_ck chk (number p) n) (\<lambda>k. ret (p\<lparr>number := k\<rparr>))"

text \<open>\<open>Ord for Page\<close> compares page numbers only.\<close>

definition page_le :: "page \<Rightarrow> page \<Rightarrow> bool" where "page_le p q \<longleftrightarrow> number p \<le> number q"

text \<open>\<open>Step for Page\<close>: counting, and stepping with a check for the end of the numbers.\<close>

definition steps_between :: "page \<Rightarrow> page \<Rightarrow> nat option" where
  "steps_between p q =
     (if number p \<le> number q then Some (unat (number q) - unat (number p)) else None)"

definition forward_checked :: "page \<Rightarrow> u64 \<Rightarrow> page option" where
  "forward_checked p n =
     (case checked_add (number p) n of Some k \<Rightarrow> Some (p\<lparr>number := k\<rparr>) | None \<Rightarrow> None)"

definition backward_checked :: "page \<Rightarrow> u64 \<Rightarrow> page option" where
  "backward_checked p n =
     (if n \<le> number p then Some (p\<lparr>number := number p - n\<rparr>) else None)"

text \<open>The pages of \<open>start..=end\<close>, in the order \<open>Step\<close> gives; each keeps the size of \<open>start\<close>.\<close>

definition page_range :: "page \<Rightarrow> page \<Rightarrow> page list" where
  "page_range p q = map (\<lambda>n. p\<lparr>number := n\<rparr>) (range_incl (number p) (number q))"

section \<open>Entries\<close>

definition PRESENT :: u64 where "PRESENT = 1"
definition WRITABLE :: u64 where "WRITABLE = push_bit 1 1"
definition USER_ACCESSIBLE :: u64 where "USER_ACCESSIBLE = push_bit 2 1"
definition WRITE_DIRECT :: u64 where "WRITE_DIRECT = push_bit 3 1"
definition NO_CACHE :: u64 where "NO_CACHE = push_bit 4 1"
definition ACCESSED :: u64 where "ACCESSED = push_bit 5 1"
definition DIRTY :: u64 where "DIRTY = push_bit 6 1"
definition HUGE_PAGE :: u64 where "HUGE_PAGE = push_bit 7 1"
definition GLOBAL :: u64 where "GLOBAL = push_bit 8 1"
definition NO_EXECUTE :: u64 where "NO_EXECUTE = push_bit 63 1"

definition all_flags :: u64 where
  "all_flags = PRESENT OR WRITABLE OR USER_ACCESSIBLE OR WRITE_DIRECT OR NO_CACHE OR ACCESSED
     OR DIRTY OR HUGE_PAGE OR GLOBAL OR NO_EXECUTE"

definition from_bits_truncate :: "u64 \<Rightarrow> u64" where
  "from_bits_truncate bits = bits AND all_flags"

definition contains :: "u64 \<Rightarrow> u64 \<Rightarrow> bool" where
  "contains flags f \<longleftrightarrow> flags AND f = f"

lemmas flag_defs = PRESENT_def WRITABLE_def USER_ACCESSIBLE_def WRITE_DIRECT_def NO_CACHE_def
  ACCESSED_def DIRTY_def HUGE_PAGE_def GLOBAL_def NO_EXECUTE_def

text \<open>A \<open>PageTableEntry\<close> is its 64 bits.\<close>

definition entry_flags :: "u64 \<Rightarrow> u64" where
  "entry_flags e = from_bits_truncate e"

definition physical_address :: "'t crates \<Rightarrow> u64 \<Rightarrow> (('t, 'z) machine_scheme, u64 option) comp" where
  "physical_address C e =
     (if contains (entry_flags e) PRESENT
      then bind (phys_addr C (e AND 0x000FFFFFFFFFF000)) (\<lambda>a. ret (Some a))
      else ret None)"

definition add_flags :: "u64 \<Rightarrow> u64 \<Rightarrow> u64" where
  "add_flags e flags = e OR flags"

text \<open>The value \<open>set\<close> stores, or its panic.\<close>

definition entry_set :: "u64 \<Rightarrow> u64 \<Rightarrow> ('s, u64) comp" where
  "entry_set pa flags =
     bind (panic_unless (pa AND 0xFFF = 0) ''Physical address not page aligned!'') (\<lambda>_.
     let bit_47 = drop_bit 48 pa AND 1 in
     bind (if bit_47 = 1
           then panic_unless (drop_bit 48 pa = 0xFFFF) ''Physical address is not correctly sign extended!''
           else panic_unless (drop_bit 48 pa = 0) ''Physical address is not correctly sign extended!'') (\<lambda>_.
     ret (pa OR flags)))"

section \<open>Tables\<close>

datatype table_level = Level4 | Level3 | Level2 | Level1

definition CAN_BE_HUGE :: "table_level \<Rightarrow> bool" where
  "CAN_BE_HUGE l \<longleftrightarrow> l = Level3 \<or> l = Level2"

datatype OutOfMemory = OutOfMemory

definition PAGE_TABLE_ENTRIES :: u64 where "PAGE_TABLE_ENTRIES = 512"

text \<open>\<open>Index\<close> and \<open>IndexMut\<close> of the 512 entries.\<close>

definition read_entry :: "u64 \<Rightarrow> u64 \<Rightarrow> (('t, 'z) machine_scheme, u64) comp" where
  "read_entry table i =
     (if i < PAGE_TABLE_ENTRIES then vread (table + 8 * i) else stop_with Out_of_bounds)"

definition write_entry :: "u64 \<Rightarrow> u64 \<Rightarrow> u64 \<Rightarrow> (('t, 'z) machine_scheme, unit) comp" where
  "write_entry table i e =
     (if i < PAGE_TABLE_ENTRIES then vwrite (table + 8 * i) e else stop_with Out_of_bounds)"

text \<open>\<open>zero\<close>: \<open>set_unused\<close> on every entry.\<close>

definition table_zero :: "u64 \<Rightarrow> (('t, 'z) machine_scheme, unit) comp" where
  "table_zero table = for_each (map of_nat [0..<512]) (\<lambda>i. write_entry table i 0)"

definition next_table_addr :: "u64 \<Rightarrow> u64 \<Rightarrow> (('t, 'z) machine_scheme, u64 option) comp" where
  "next_table_addr table index =
     bind (read_entry table index) (\<lambda>e.
     let fl = entry_flags e in
     ret (if contains fl PRESENT \<and> \<not> contains fl HUGE_PAGE
          then Some (push_bit 48 0xFFFF OR push_bit 9 table OR push_bit 12 index)
          else None))"

text \<open>\<open>next_page_table\<close> and \<open>next_page_table_mut\<close> turn the address into a reference.\<close>

definition next_page_table :: "u64 \<Rightarrow> u64 \<Rightarrow> (('t, 'z) machine_scheme, u64 option) comp" where
  "next_page_table table index = next_table_addr table index"

definition create_table :: "'t crates \<Rightarrow> table_level \<Rightarrow> u64 \<Rightarrow> u64
    \<Rightarrow> (('t, 'z) machine_scheme, OutOfMemory + unit) comp" where
  "create_table C l table index =
     bind (read_entry table index) (\<lambda>e.
       if contains (entry_flags e) HUGE_PAGE then
         bind (panic_unless (CAN_BE_HUGE l) ''Page has huge bit but cannot be huge!'') (\<lambda>_. ret (Inr ()))
       else
         bind (phys_allocate C 0) (\<lambda>r. case r of
           None \<Rightarrow> ret (Inl OutOfMemory)
         | Some frame \<Rightarrow>
             bind (entry_set frame (PRESENT OR WRITABLE OR USER_ACCESSIBLE)) (\<lambda>e'.
             bind (write_entry table index e') (\<lambda>_.
             bind (next_page_table table index) (\<lambda>t.
             bind (expect t ''No next table!'') (\<lambda>t'.
             bind (table_zero t') (\<lambda>_. ret (Inr ()))))))))"

definition next_table_create :: "'t crates \<Rightarrow> table_level \<Rightarrow> u64 \<Rightarrow> u64
    \<Rightarrow> (('t, 'z) machine_scheme, (OutOfMemory + u64) option) comp" where
  "next_table_create C l table index =
     bind (next_page_table table index) (\<lambda>t.
     bind (if t = None then create_table C l table index else ret (Inr ())) (\<lambda>r. case r of
       Inl oom \<Rightarrow> ret (Some (Inl oom))
     | Inr _ \<Rightarrow> bind (next_page_table table index) (\<lambda>t'. ret (map_option Inr t'))))"

end
