(* ===== verification/Util.thy ===== *)
theory Util
  imports Machine
begin

text \<open>
  \<open>kernel/src/util.rs\<close>: rounding division and the volatile 64-bit fill used to clear pages.
  The macro \<open>constant_unroll!\<close> only repeats its body for three items and is written out
  where it is used.
\<close>

definition round_up_divide :: "bool \<Rightarrow> u64 \<Rightarrow> u64 \<Rightarrow> ('s, u64) comp" where
  "round_up_divide chk x y =
     bind (add_ck chk x y) (\<lambda>s.
     bind (sub_ck chk s 1) (\<lambda>d.
       if y = 0 then stop_with (Panic ''attempt to divide by zero'') else ret (d div y)))"

definition memset_volatile_64bit ::
    "u64 \<Rightarrow> u64 \<Rightarrow> u64 \<Rightarrow> (('t, 'z) machine_scheme, u64) comp" where
  "memset_volatile_64bit s c n =
     bind (panic_unless (n AND 7 = 0) ''n must a be multiple of 8'') (\<lambda>_.
     bind (panic_unless (s AND 7 = 0) ''ptr must be aligned to 8 bytes'') (\<lambda>_.
     bind (for_each (range_excl 0 (drop_bit 3 n)) (\<lambda>i. vwrite (s + 8 * i) c)) (\<lambda>_. ret s)))"

lemma round_up_divide_run:
  assumes "0 < y" and "unat x + unat y < 2 ^ 64"
  shows "round_up_divide chk x y s = Inr ((x + y - 1) div y, s)"
    and "unat ((x + y - 1) div y) = (unat x + unat y - 1) div unat y"
proof -
  have xy: "unat (x + y) = unat x + unat y" using assms(2) by (simp add: unat_word_ariths(1))
  have y: "0 < unat y" using assms(1) by (simp add: word_less_nat_alt)
  then have le: "1 \<le> x + y" by (simp add: word_le_nat_alt xy)
  then have "unat (x + y - 1) = unat x + unat y - 1" by (simp add: unat_sub xy)
  then show "unat ((x + y - 1) div y) = (unat x + unat y - 1) div unat y" by (simp add: unat_div)
  from assms le show "round_up_divide chk x y s = Inr ((x + y - 1) div y, s)"
    by (auto simp: round_up_divide_def run_simps)
qed

end
