(* ===== verification/Page_Map.thy ===== *)
theory Page_Map
  imports Paging Util
begin

text \<open>
  \<open>kernel/src/memory/paging/page_map.rs\<close>: the \<open>Mapper\<close>, which walks and edits the page
  tables through the recursive mapping, \<open>PageRangeMapping\<close>, and switching between address
  spaces.  Each method is one definition over the machine; \<open>Result\<close> values are sums inside
  the computation, panics stop it.  \<open>TemporaryPage\<close> and what is built on it need the kernel
  heap and follow in a later theory.
\<close>

section \<open>Options and errors\<close>

datatype FreeMemory = Free | NoFree
datatype InvalidateTlb = Invalidate | NoInvalidate
datatype ZeroPage = Zero | NoZero
datatype TryMapError = InvalidAddress page | AlreadyMapped page | TryOutOfMemory

text \<open>\<open>From<OutOfMemory> for TryMapError\<close>, which \<open>?\<close> applies.\<close>

primrec try_map_error_from :: "OutOfMemory + 'a \<Rightarrow> TryMapError + 'a" where
  "try_map_error_from (Inl _) = Inl TryOutOfMemory"
| "try_map_error_from (Inr x) = Inr x"

section \<open>The mapper\<close>

text \<open>The address of the active P4 table under the recursive entry 510.\<close>

definition P4 :: u64 where "P4 = 0xFFFFFF7FBFDFE000"

definition KERNEL_MAPPING_BEGIN :: u64 where "KERNEL_MAPPING_BEGIN = 0xFFFFFFFF80000000"

definition LAST_USABLE_PAGE :: page where
  "LAST_USABLE_PAGE =
     \<lparr>number = number (containing_address (push_bit 47 1 - 1)) - 1, page_size = Some Kib4\<rparr>"

definition STACK_TOP :: u64 where "STACK_TOP = 0x7FFFFFFFE000"
definition INITIAL_STACK_SIZE_PAGES :: u64 where "INITIAL_STACK_SIZE_PAGES = 16"
definition STACK_BOTTOM :: u64 where "STACK_BOTTOM = STACK_TOP - INITIAL_STACK_SIZE_PAGES"

text \<open>\<open>Option::and_then\<close> around computations.\<close>

definition and_then :: "'a option \<Rightarrow> ('a \<Rightarrow> ('s, 'b option) comp) \<Rightarrow> ('s, 'b option) comp" where
  "and_then x f = (case x of None \<Rightarrow> ret None | Some v \<Rightarrow> f v)"

text \<open>The closure \<open>huge_page\<close> of \<open>walk_page_table\<close>.\<close>

definition walk_huge_page :: "'t crates \<Rightarrow> u64 option \<Rightarrow> page
    \<Rightarrow> (('t, 'z) machine_scheme, (u64 \<times> page_size) option) comp" where
  "walk_huge_page C p3 page =
     and_then p3 (\<lambda>p3.
       bind (read_entry p3 (p3_index page)) (\<lambda>p3_entry.
       bind (physical_address C p3_entry) (\<lambda>pa.
       bind (panic_unless (\<not> (pa \<noteq> None \<and> contains (entry_flags p3_entry) HUGE_PAGE))
              ''1 GiB pages are not supported!'') (\<lambda>_.
       bind (next_page_table p3 (p3_index page)) (\<lambda>p2.
         and_then p2 (\<lambda>p2.
           bind (read_entry p2 (p2_index page)) (\<lambda>p2_entry.
           bind (physical_address C p2_entry) (\<lambda>start_frame. case start_frame of
             None \<Rightarrow> ret None
           | Some start_frame \<Rightarrow>
               if contains (entry_flags p2_entry) (PRESENT OR HUGE_PAGE) then
                 bind (panic_unless (drop_bit 12 start_frame mod PAGE_TABLE_ENTRIES = 0)
                        ''Adress is not 2MiB aligned!'') (\<lambda>_.
                 ret (Some (p2_entry, Mib2)))
               else ret None)))))))) "

definition walk_page_table :: "'t crates \<Rightarrow> page
    \<Rightarrow> (('t, 'z) machine_scheme, (u64 \<times> page_size) option) comp" where
  "walk_page_table C page =
     bind (next_page_table P4 (p4_index page)) (\<lambda>p3.
     bind (and_then p3 (\<lambda>p3. next_page_table p3 (p3_index page))) (\<lambda>p2.
     bind (and_then p2 (\<lambda>p2. next_page_table p2 (p2_index page))) (\<lambda>p1.
     bind (and_then p1 (\<lambda>p1.
         bind (read_entry p1 (p1_index page)) (\<lambda>p1_entry.
         ret (if contains (entry_flags p1_entry) PRESENT then Some (p1_entry, Kib4) else None))))
       (\<lambda>r. case r of
         Some x \<Rightarrow> ret (Some x)
       | None \<Rightarrow> walk_huge_page C p3 page))))"

text \<open>Flushing one page, as the methods do when asked to.\<close>

definition flush_page :: "'t crates \<Rightarrow> page \<Rightarrow> InvalidateTlb \<Rightarrow> (('t, 'z) machine_scheme, unit) comp" where
  "flush_page C page invplg =
     (if invplg = Invalidate then
        bind (start_address (overflow_checks C) page) (\<lambda>a.
        bind (expect a ''called Option::unwrap() on a None value'') (\<lambda>a. tlb_flush C a))
      else ret ())"

text \<open>A step of the chain \<open>next_table_create(..).expect(..)?\<close>.\<close>

definition expect_table :: "string \<Rightarrow> 't crates \<Rightarrow> table_level \<Rightarrow> u64 \<Rightarrow> u64
    \<Rightarrow> (('t, 'z) machine_scheme, OutOfMemory + u64) comp" where
  "expect_table msg C l table index =
     bind (next_table_create C l table index) (\<lambda>t. expect t msg)"

definition map_to :: "'t crates \<Rightarrow> page \<Rightarrow> u64 \<Rightarrow> u64 \<Rightarrow> InvalidateTlb
    \<Rightarrow> (('t, 'z) machine_scheme, OutOfMemory + unit) comp" where
  "map_to C page pa flags invplg =
     bind_res (expect_table ''No next p3 table!'' C Level4 P4 (p4_index page)) (\<lambda>p3.
     bind_res (expect_table ''No next p2 table!'' C Level3 p3 (p3_index page)) (\<lambda>p2.
     bind (panic_unless (page_size page \<noteq> None) ''Page to map requires size!'') (\<lambda>_.
     if page_size page = Some Kib4 then
       bind (next_table_create C Level2 p2 (p2_index page)) (\<lambda>t. case t of
         None \<Rightarrow>
           bind (read_entry p2 (p2_index page)) (\<lambda>e.
             if contains (entry_flags e) HUGE_PAGE
             then stop_with (Panic ''No next p1 table - the area is mapped in 2mib pages'')
             else stop_with (Panic ''No next p1 table (unknown reason)''))
       | Some r \<Rightarrow>
           bind_res (ret r) (\<lambda>p1.
           bind (entry_set pa (flags OR PRESENT)) (\<lambda>e.
           bind (write_entry p1 (p1_index page) e) (\<lambda>_.
           bind (flush_page C page invplg) (\<lambda>_. ret (Inr ()))))))
     else stop_with (Panic ''2mib pages are only partially supported!''))))"

definition map_page :: "'t crates \<Rightarrow> page \<Rightarrow> u64 \<Rightarrow> InvalidateTlb \<Rightarrow> ZeroPage
    \<Rightarrow> (('t, 'z) machine_scheme, OutOfMemory + unit) comp" where
  "map_page C page flags invplg zero =
     bind (panic_unless (page_size page \<noteq> None) ''Page needs size!'') (\<lambda>_.
     bind (phys_allocate C (if page_size page = Some Kib4 then 0 else 9)) (\<lambda>frame. case frame of
       None \<Rightarrow> ret (Inl OutOfMemory)
     | Some frame \<Rightarrow>
         bind_res (map_to C page frame flags invplg) (\<lambda>_.
         bind (if zero = Zero then
                 bind (start_address (overflow_checks C) page) (\<lambda>a.
                 bind (expect a ''called Option::unwrap() on a None value'') (\<lambda>a.
                 bind (memset_volatile_64bit a 0 (page_size_bytes (the (page_size page)))) (\<lambda>_. ret ())))
               else ret ()) (\<lambda>_. ret (Inr ())))))"

text \<open>The page \<open>no\<close> of the loops \<open>for no in start.number()..=end.number()\<close>.\<close>

definition numbered_page :: "'t crates \<Rightarrow> u64 \<Rightarrow> (('t, 'z) machine_scheme, page) comp" where
  "numbered_page C no =
     bind (mul_ck (overflow_checks C) no 0x1000) (\<lambda>a. ret (containing_address a))"

definition map_range :: "'t crates \<Rightarrow> page \<Rightarrow> page \<Rightarrow> u64 \<Rightarrow> InvalidateTlb \<Rightarrow> ZeroPage
    \<Rightarrow> (('t, 'z) machine_scheme, OutOfMemory + unit) comp" where
  "map_range C pg_start pg_end flags invplg zero =
     bind (panic_unless (page_size pg_start = Some Kib4 \<and> page_size pg_end = Some Kib4)
            ''Only mapping of 4kib pages is supported'') (\<lambda>_.
     for_each_res (range_incl (number pg_start) (number pg_end)) (\<lambda>no.
       bind (numbered_page C no) (\<lambda>page. map_page C page flags invplg zero)))"

text \<open>The checks of \<open>try_map_user_range\<close>, in the order of the code.\<close>

definition user_range_error :: "'t crates \<Rightarrow> page \<Rightarrow> page \<Rightarrow> u64 \<Rightarrow> u64 \<Rightarrow> TryMapError option" where
  "user_range_error C pg_start pg_end v_start v_end =
     (if number LAST_USABLE_PAGE < number pg_end then Some (InvalidAddress pg_end)
      else if virt_addr_try_new C v_end = None then Some (InvalidAddress pg_end)
      else if virt_addr_try_new C v_start = None then Some (InvalidAddress pg_start)
      else if drop_bit 63 v_end = 1 then Some (InvalidAddress pg_end)
      else if drop_bit 63 v_start = 1 then Some (InvalidAddress pg_start)
      else if number (containing_address STACK_BOTTOM) < number pg_end then Some (InvalidAddress pg_end)
      else None)"

definition try_map_user_range ::
    "'t crates \<Rightarrow> page \<Rightarrow> page \<Rightarrow> u64 \<Rightarrow> InvalidateTlb \<Rightarrow> bool \<Rightarrow> ZeroPage
      \<Rightarrow> (('t, 'z) machine_scheme, TryMapError + unit) comp" where
  "try_map_user_range C pg_start pg_end flags invplg ignore_already_mapped zero =
     bind (panic_unless (page_size pg_start = Some Kib4 \<and> page_size pg_end = Some Kib4)
            ''Only mapping of 4kib pages is supported'') (\<lambda>_.
     bind (start_address (overflow_checks C) pg_start) (\<lambda>v_start.
     bind (expect v_start ''called Option::unwrap() on a None value'') (\<lambda>v_start.
     bind (start_address (overflow_checks C) pg_end) (\<lambda>v_end.
     bind (expect v_end ''called Option::unwrap() on a None value'') (\<lambda>v_end.
     case user_range_error C pg_start pg_end v_start v_end of
       Some e \<Rightarrow> ret (Inl e)
     | None \<Rightarrow>
         for_each_res (range_incl (number pg_start) (number pg_end)) (\<lambda>no.
           bind (numbered_page C no) (\<lambda>page.
           bind (if \<not> ignore_already_mapped
                 then bind (walk_page_table C page) (\<lambda>w. ret (w \<noteq> None))
                 else ret False) (\<lambda>already.
             if already then ret (Inl (AlreadyMapped page))
             else bind (map_page C page flags invplg zero) (\<lambda>r. ret (try_map_error_from r))))))))))"

definition set_flags :: "'t crates \<Rightarrow> page \<Rightarrow> page \<Rightarrow> u64 \<Rightarrow> InvalidateTlb
    \<Rightarrow> (('t, 'z) machine_scheme, unit) comp" where
  "set_flags C pg_start pg_end flags invplg =
     for_each (range_incl (number pg_start) (number pg_end)) (\<lambda>no.
       bind (numbered_page C no) (\<lambda>page.
       bind (walk_page_table C page) (\<lambda>w.
       bind (expect w ''Virtual address is not mapped!'') (\<lambda>paddr.
       bind (physical_address C (fst paddr)) (\<lambda>pa.
       bind (expect pa ''called Option::unwrap() on a None value'') (\<lambda>pa.
       bind (map_to C page pa flags invplg) (\<lambda>r. case r of
         Inl _ \<Rightarrow> stop_with (Panic ''called Result::unwrap() on an Err value'')
       | Inr _ \<Rightarrow> ret ())))))))"

definition unmap :: "'t crates \<Rightarrow> page \<Rightarrow> FreeMemory \<Rightarrow> InvalidateTlb
    \<Rightarrow> (('t, 'z) machine_scheme, unit) comp" where
  "unmap C page free_physmem invplg =
     bind (start_address (overflow_checks C) page) (\<lambda>a.
     bind (panic_unless (a \<noteq> None) ''Page to map requires size!'') (\<lambda>_.
     bind (walk_page_table C page) (\<lambda>w.
     bind (panic_unless (w \<noteq> None) ''Virtual address is not mapped!'') (\<lambda>_.
     bind (next_page_table P4 (p4_index page)) (\<lambda>p3.
     bind (expect p3 ''Unmap called on unmapped page!'') (\<lambda>p3.
     bind (next_page_table p3 (p3_index page)) (\<lambda>p2.
     bind (expect p2 ''Unmap called on unmapped page!'') (\<lambda>p2.
     bind (next_page_table p2 (p2_index page)) (\<lambda>p1.
     bind (case p1 of
         Some p1 \<Rightarrow>
           bind (read_entry p1 (p1_index page)) (\<lambda>e.
           bind (physical_address C e) (\<lambda>frame.
           bind (expect frame ''Page already unmapped!'') (\<lambda>frame.
           bind (write_entry p1 (p1_index page) 0) (\<lambda>_.
             if free_physmem = Free then phys_deallocate C frame 0 else ret ()))))
       | None \<Rightarrow>
           bind (read_entry p2 (p2_index page)) (\<lambda>e.
           bind (physical_address C e) (\<lambda>frame.
           bind (expect frame ''Page already unmapped!'') (\<lambda>frame.
           bind (write_entry p2 (p2_index page) 0) (\<lambda>_.
             if free_physmem = Free then phys_deallocate C frame 9 else ret ()))))) (\<lambda>_.
     flush_page C page invplg))))))))))"

definition unmap_range :: "'t crates \<Rightarrow> page \<Rightarrow> page \<Rightarrow> FreeMemory \<Rightarrow> InvalidateTlb
    \<Rightarrow> (('t, 'z) machine_scheme, unit) comp" where
  "unmap_range C pg_start pg_end free_physmem invplg =
     for_each (page_range pg_start pg_end) (\<lambda>page. unmap C page free_physmem invplg)"

text \<open>\<open>expect\<close> on the result of \<open>map_to\<close>.\<close>

definition map_to_expect :: "string \<Rightarrow> 't crates \<Rightarrow> page \<Rightarrow> u64 \<Rightarrow> u64 \<Rightarrow> InvalidateTlb
    \<Rightarrow> (('t, 'z) machine_scheme, unit) comp" where
  "map_to_expect msg C page pa flags invplg =
     bind (map_to C page pa flags invplg) (\<lambda>r. case r of
       Inl _ \<Rightarrow> stop_with (Panic msg) | Inr _ \<Rightarrow> ret ())"

definition id_map_range :: "'t crates \<Rightarrow> u64 \<Rightarrow> u64 \<Rightarrow> u64 \<Rightarrow> InvalidateTlb
    \<Rightarrow> (('t, 'z) machine_scheme, unit) comp" where
  "id_map_range C addr_start addr_end flags invplg =
     for_each (range_incl (addr_start div 4096) (addr_end div 4096)) (\<lambda>frame_no.
       bind (mul_ck (overflow_checks C) frame_no 4096) (\<lambda>addr.
       bind (phys_addr C addr) (\<lambda>pa.
       map_to_expect ''Out of physical memory for page tables'' C (containing_address addr) pa
         flags invplg)))"

definition higher_half_map_range :: "'t crates \<Rightarrow> u64 \<Rightarrow> u64 \<Rightarrow> u64 \<Rightarrow> InvalidateTlb
    \<Rightarrow> (('t, 'z) machine_scheme, unit) comp" where
  "higher_half_map_range C addr_start addr_end flags invplg =
     bind (round_up_divide (overflow_checks C) addr_end 4096) (\<lambda>frame_end.
     for_each (range_incl (addr_start div 4096) frame_end) (\<lambda>frame_no.
       bind (mul_ck (overflow_checks C) frame_no 4096) (\<lambda>address.
       bind (sub_ck (overflow_checks C) address KERNEL_MAPPING_BEGIN) (\<lambda>a.
       bind (phys_addr C a) (\<lambda>pa.
       map_to_expect ''Out of physical memory for page tables'' C (containing_address address) pa
         flags invplg)))))"

section \<open>Ranges of pages mapped to ranges of frames\<close>

record page_range_mapping =
  pages_start :: u64
  pages_end :: u64
  start_frame :: u64

definition page_range_mapping_new :: "bool \<Rightarrow> page \<Rightarrow> u64 \<Rightarrow> u64 \<Rightarrow> ('s, page_range_mapping) comp" where
  "page_range_mapping_new chk start_page frame pages =
     bind (panic_unless (page_size start_page = Some Kib4) ''Start page needs to be 4kib!'') (\<lambda>_.
     bind (start_address chk start_page) (\<lambda>a.
     bind (expect a ''called Option::unwrap() on a None value'') (\<lambda>a.
     bind (add_ck chk (a div 4096) pages) (\<lambda>last.
     ret \<lparr>pages_start = a div 4096, pages_end = last, start_frame = frame\<rparr>))))"

text \<open>\<open>size_hint().1\<close> of an inclusive range: its length, if that fits.\<close>

definition size_hint :: "u64 \<Rightarrow> u64 \<Rightarrow> u64 option" where
  "size_hint a b = (if b < a then Some 0 else checked_add (b - a) 1)"

definition map_page_range :: "'t crates \<Rightarrow> page_range_mapping \<Rightarrow> InvalidateTlb \<Rightarrow> u64
    \<Rightarrow> (('t, 'z) machine_scheme, OutOfMemory + unit) comp" where
  "map_page_range C mapping invplg flags =
     bind (expect (size_hint (pages_start mapping) (pages_end mapping))
            ''called Option::unwrap() on a None value'') (\<lambda>n.
     bind (add_ck (overflow_checks C) (start_frame mapping) n) (\<lambda>frames_end.
     for_each_res (zip (range_incl (start_frame mapping) frames_end)
                       (range_incl (pages_start mapping) (pages_end mapping))) (\<lambda>(frame_no, page_no).
       bind (mul_ck (overflow_checks C) frame_no 4096) (\<lambda>phys_address.
       bind (mul_ck (overflow_checks C) page_no 4096) (\<lambda>virtual_address.
       bind (phys_addr C phys_address) (\<lambda>pa.
       map_to C (containing_address virtual_address) pa flags invplg))))))"

section \<open>Address spaces\<close>

record inactive_page_map =
  p4_frame :: u64
  p4_flags :: u64

definition switch :: "inactive_page_map \<Rightarrow> (('t, 'z) machine_scheme, inactive_page_map) comp" where
  "switch new_table =
     bind (gets (\<lambda>m. \<lparr>p4_frame = cr3 m, p4_flags = cr3_flags m\<rparr>)) (\<lambda>old_table.
     bind (modify (\<lambda>m. m\<lparr>cr3 := p4_frame new_table, cr3_flags := p4_flags new_table\<rparr>)) (\<lambda>_.
     ret old_table))"

definition with_inactive :: "inactive_page_map \<Rightarrow> (('t, 'z) machine_scheme, 'e + unit) comp
    \<Rightarrow> (('t, 'z) machine_scheme, 'e + inactive_page_map) comp" where
  "with_inactive new_table f =
     bind (switch new_table) (\<lambda>old.
     bind f (\<lambda>res.
     bind (switch old) (\<lambda>new.
     ret (case res of Inl e \<Rightarrow> Inl e | Inr _ \<Rightarrow> Inr new))))"

end
