(* ===== verification/Recursive_Mapping.thy ===== *)
theory Recursive_Mapping
  imports Page_Map
begin

text \<open>
  Entry 510 of every P4 table points back to the table itself, so that the tables appear at
  fixed virtual addresses.  This theory proves that the addresses the code computes reach
  the tables it means: if \<open>recursive m r\<close>, reading or writing an entry of the table at
  \<open>vtab path\<close> through the MMU is reading or writing the physical frame found by following
  \<open>path\<close> from the P4 table \<open>r\<close>.  It holds both for the active table (\<open>r = CR3\<close>) and while
  entry 510 of the active table is overwritten to edit another one.
\<close>

section \<open>Addresses under the recursive entry\<close>

text \<open>The canonical upper-half address with indices \<open>a\<close>, \<open>b\<close>, \<open>c\<close>, \<open>d\<close> and word \<open>i\<close>.\<close>

definition mk_va :: "u64 \<Rightarrow> u64 \<Rightarrow> u64 \<Rightarrow> u64 \<Rightarrow> u64 \<Rightarrow> u64" where
  "mk_va a b c d i = push_bit 48 0xFFFF OR push_bit 39 a OR push_bit 30 b OR push_bit 21 c
     OR push_bit 12 d OR push_bit 3 i"

text \<open>Bits of concrete masks are computed by the lemmas below instead.\<close>

declare bit_numeral_word_iff [simp del]

lemma index_bit: 
  assumes "a < 512" and "bit (a :: u64) n" shows "n < 9"
proof -
  have "take_bit 9 a = a" using assms(1) by (simp add: take_bit_eq_mod mod_word_less)
  with assms(2) have "bit (take_bit 9 a) n" by simp
  then show "n < 9" by (simp only: bit_take_bit_iff)
qed

lemma bit_511: "bit (511 :: u64) n \<longleftrightarrow> n < 9"
proof -
  have "(511 :: u64) = mask 9" by (simp add: mask_eq_exp_minus_1)
  then have "bit (511 :: u64) n \<longleftrightarrow> n < 64 \<and> n < 9" by (simp only: bit_mask_iff) simp
  then show ?thesis by auto
qed
lemma bit_high16: "bit (0xFFFF000000000000 :: u64) n \<longleftrightarrow> 48 \<le> n \<and> n < 64"
proof -
  have "(0xFFFF000000000000 :: u64) = push_bit 48 (mask 16)" by (simp add: mask_eq_exp_minus_1)
  then show ?thesis by (simp only: bit_mask_iff bit_push_bit_iff) auto
qed

lemma bit_mk_va:
  assumes "a < 512" "b < 512" "c < 512" "d < 512" "i < 512"
  shows "bit (mk_va a b c d i) n \<longleftrightarrow>
     (if n < 3 then False else if n < 12 then bit i (n - 3) else if n < 21 then bit d (n - 12)
      else if n < 30 then bit c (n - 21) else if n < 39 then bit b (n - 30)
      else if n < 48 then bit a (n - 39) else n < 64)"
  using index_bit[OF assms(1), of "n - 39"] index_bit[OF assms(2), of "n - 30"] 
    index_bit[OF assms(3), of "n - 21"] index_bit[OF assms(4), of "n - 12"] index_bit[OF assms(5), of "n - 3"]
  by (auto simp: mk_va_def bit_simps bit_high16)

lemma mk_va_fields:
  assumes "a < 512" "b < 512" "c < 512" "d < 512" "i < 512"
  shows "drop_bit 39 (mk_va a b c d i) AND 511 = a"
  "drop_bit 30 (mk_va a b c d i) AND 511 = b"
  "drop_bit 21 (mk_va a b c d i) AND 511 = c"
  "drop_bit 12 (mk_va a b c d i) AND 511 = d"
  "drop_bit 3 (mk_va a b c d i) AND 511 = i"
proof -
  note bits = bit_eq_iff bit_and_iff bit_drop_bit_eq bit_mk_va[OF assms] bit_511 comp_def
  show "drop_bit 39 (mk_va a b c d i) AND 511 = a" using index_bit[OF assms(1)] by (auto simp: bits)
  show "drop_bit 30 (mk_va a b c d i) AND 511 = b" using index_bit[OF assms(2)] by (auto simp: bits)
  show "drop_bit 21 (mk_va a b c d i) AND 511 = c" using index_bit[OF assms(3)] by (auto simp: bits)
  show "drop_bit 12 (mk_va a b c d i) AND 511 = d" using index_bit[OF assms(4)] by (auto simp: bits)
  show "drop_bit 3 (mk_va a b c d i) AND 511 = i" using index_bit[OF assms(5)] by (auto simp: bits)
qed

lemma mk_va_next:
  assumes "a < 512" "b < 512" "c < 512" "d < 512" "i < 512"
  shows "push_bit 48 0xFFFF OR push_bit 9 (mk_va a b c d 0) OR push_bit 12 i = mk_va b c d i 0"
proof (rule bit_eqI)
  fix n assume "possible_bit TYPE(u64) n"
  then have n: "n < 64" by simp
  show "bit (push_bit 48 0xFFFF OR push_bit 9 (mk_va a b c d 0) OR push_bit 12 i) n = bit (mk_va b c d i 0) n"
    using n index_bit[OF assms(5), of "n - 12"] bit_mk_va[OF assms(1-4), of 0 "n - 9"] bit_mk_va[OF assms(2-5), of 0 n]
    by (auto simp: bit_simps bit_high16)
qed

lemma mk_va_canonical:
  assumes "a < 512" "b < 512" "c < 512" "d < 512" "i < 512" "bit a 8"
  shows "drop_bit 47 (mk_va a b c d i) = 0x1FFFF"
proof -
  have "(0x1FFFF :: u64) = mask 17" by (simp add: mask_eq_exp_minus_1)
  moreover have "bit (drop_bit 47 (mk_va a b c d i)) n = bit (mask 17 :: u64) n" for n
    unfolding bit_drop_bit_eq comp_def bit_mk_va[OF assms(1-5)] bit_mask_iff
    using assms(6) by (cases "n = 0") auto
  ultimately show ?thesis by (simp only: bit_eq_iff) simp
qed

lemma mk_va_word:
  assumes "a < 512" "b < 512" "c < 512" "d < 512" "i < 512"
  shows "mk_va a b c d 0 + 8 * i = mk_va a b c d i"
proof -
  have "8 * i = push_bit 3 i" by (simp add: push_bit_eq_mult)
  have "\<not> (bit (mk_va a b c d 0) n \<and> bit (push_bit 3 i) n)" for n
    using index_bit[OF assms(5), of "n - 3"] bit_mk_va[OF assms(1-4), of 0 n]
    by (auto simp: bit_push_bit_iff)
  then have "mk_va a b c d 0 AND push_bit 3 i = 0"
    by (auto simp: bit_eq_iff bit_and_iff)
  then have "mk_va a b c d 0 + push_bit 3 i = mk_va a b c d 0 OR push_bit 3 i"
   by (simp add: disjunctive_add_eq_or)
  then show ?thesis by (simp add: mk_va_def push_bit_eq_mult or.assoc mult.commute[of 8])
qed

section \<open>Flags as the MMU reads them\<close>

lemma and_single_bit:
  assumes "n < 64"
  shows "(e :: u64) AND push_bit n 1 = push_bit n 1 \<longleftrightarrow> bit e n"
proof
  assume "e AND push_bit n 1 = push_bit n 1"
  then have "bit (e AND push_bit n 1) n" using assms by (simp add: bit_exp_iff)
  then show "bit e n" by (simp add: bit_and_iff)
next
  assume "bit e n"
  then show "e AND push_bit n 1 = push_bit n 1" by (intro bit_eqI) (auto simp: bit_simps)
qed

lemma contains_bit:
  assumes "n < 64" and "all_flags AND push_bit n 1 = push_bit n 1"
  shows "contains (entry_flags e) (push_bit n 1) \<longleftrightarrow> bit e n"
proof -
  have "(e AND all_flags) AND push_bit n 1 = e AND push_bit n 1"
    by (simp only: and.assoc assms(2))
  then have "contains (entry_flags e) (push_bit n 1) \<longleftrightarrow> e AND push_bit n 1 = push_bit n 1"
    by (simp only: contains_def entry_flags_def from_bits_truncate_def)
  then show ?thesis by (simp only: and_single_bit[OF assms(1)])
qed

lemma contains_flag:
  "contains (entry_flags e) PRESENT \<longleftrightarrow> pte_present e"
  "contains (entry_flags e) WRITABLE \<longleftrightarrow> pte_writable e"
  "contains (entry_flags e) USER_ACCESSIBLE \<longleftrightarrow> pte_user e"
  "contains (entry_flags e) HUGE_PAGE \<longleftrightarrow> pte_huge e"
  using contains_bit[of 0 e] contains_bit[of 1 e] contains_bit[of 2 e] contains_bit[of 7 e]
  by (simp_all add: flag_defs all_flags_def pte_present_def pte_writable_def pte_user_def pte_huge_def)

lemma contains_or: "contains x (f OR g) \<longleftrightarrow> contains x f \<and> contains x g"
  by (auto simp: contains_def bit_eq_iff bit_simps)

section \<open>Tables in physical memory\<close>

definition phys_next :: "('t, 'z) machine_scheme \<Rightarrow> u64 \<Rightarrow> u64 \<Rightarrow> u64 option" where
  "phys_next m f i =
     (let e = pmem m f i in if pte_present e \<and> \<not> pte_huge e then Some (pte_frame e) else None)"

text \<open>The frame of the table reached from \<open>f\<close> by the indices of a path.\<close>

primrec phys_table :: "('t, 'z) machine_scheme \<Rightarrow> u64 \<Rightarrow> u64 list \<Rightarrow> u64 option" where
  "phys_table m f [] = Some f"
| "phys_table m f (i # is) = (case phys_next m f i of None \<Rightarrow> None | Some g \<Rightarrow> phys_table m g is)"

text \<open>Whether every entry along a path allows writes.\<close>

primrec path_writable :: "('t, 'z) machine_scheme \<Rightarrow> u64 \<Rightarrow> u64 list \<Rightarrow> bool" where
  "path_writable m f [] = True"
| "path_writable m f (i # is) =
     (pte_writable (pmem m f i) \<and> path_writable m (pte_frame (pmem m f i)) is)"

text \<open>The virtual address of the table at a path.\<close>

definition vtab :: "u64 list \<Rightarrow> u64" where
  "vtab path = (case path of
       [] \<Rightarrow> mk_va 510 510 510 510 0
     | [a] \<Rightarrow> mk_va 510 510 510 a 0
     | [a, b] \<Rightarrow> mk_va 510 510 a b 0
     | [a, b, c] \<Rightarrow> mk_va 510 a b c 0
     | _ \<Rightarrow> 0)"

definition recursive :: "('t, 'z) machine_scheme \<Rightarrow> u64 \<Rightarrow> bool" where
  "recursive m r \<longleftrightarrow>
     phys_next m (cr3 m) 510 = Some r \<and> pte_writable (pmem m (cr3 m) 510) \<and>
     phys_next m r 510 = Some r \<and> pte_writable (pmem m r 510)"

definition path_ok :: "u64 list \<Rightarrow> bool" where
  "path_ok path \<longleftrightarrow> length path \<le> 3 \<and> (\<forall>i \<in> set path. i < 512)"

lemma phys_next_Some:
  "phys_next m f i = Some g \<longleftrightarrow>
    pte_present (pmem m f i) \<and> \<not> pte_huge (pmem m f i) \<and> g = pte_frame (pmem m f i)"
  by (auto simp: phys_next_def Let_def)

lemma phys_table_append:
  "phys_table m f (p @ q) = (case phys_table m f p of None \<Rightarrow> None | Some g \<Rightarrow> phys_table m g q)"
  by (induction p arbitrary: f) (auto split: option.split)

lemma phys_table_snoc:
  "phys_table m f (p @ [i]) = (case phys_table m f p of None \<Rightarrow> None | Some g \<Rightarrow> phys_next m g i)"
  by (auto simp: phys_table_append split: option.split)

lemma P4_vtab: "P4 = vtab []"
  by (simp add: P4_def vtab_def mk_va_def)

lemma vtab_snoc:
  assumes "path_ok path" and "length path < 3" and "i < 512"
  shows "push_bit 48 0xFFFF OR push_bit 9 (vtab path) OR push_bit 12 i = vtab (path @ [i])"
proof -
  consider "path = []" | a where "path = [a]" | a b where "path = [a, b]"
    using assms(2) by (cases path; cases "tl path"; cases "tl (tl path)") auto
  then show ?thesis
  proof cases
    case 1
    with assms mk_va_next[of 510 510 510 510 i] show ?thesis by (simp add: vtab_def)
  next
    case 2
    with assms mk_va_next[of 510 510 510 a i] show ?thesis by (simp add: vtab_def path_ok_def)
  next
    case 3
    with assms mk_va_next[of 510 510 a b i] show ?thesis by (simp add: vtab_def path_ok_def)
  qed
qed

text \<open>The recursive mapping reaches the physical table.\<close>

lemma va_fields_mk_va:
  assumes "a < 512" "b < 512" "c < 512" "d < 512" "i < 512"
  shows "va_p4 (mk_va a b c d i) = a" and "va_p3 (mk_va a b c d i) = b"
    and "va_p2 (mk_va a b c d i) = c" and "va_p1 (mk_va a b c d i) = d"
    and "va_word (mk_va a b c d i) = i"
    and "bit a 8 \<Longrightarrow> canonical (mk_va a b c d i)"
  unfolding va_p4_def va_p3_def va_p2_def va_p1_def va_word_def canonical_def
  using mk_va_fields[OF assms] mk_va_canonical[OF assms] by blast+

lemma mmu_mk_va:
  assumes "a < 512" "b < 512" "c < 512" "d < 512" "i < 512" and "bit a 8"
    and "phys_next m (cr3 m) a = Some f3" and "phys_next m f3 b = Some f2"
    and "phys_next m f2 c = Some f1" and "phys_next m f1 d = Some f"
  shows "\<exists>u. mmu_translate m (mk_va a b c d i) =
     Some (f, pte_writable (pmem m (cr3 m) a) \<and> pte_writable (pmem m f3 b)
              \<and> pte_writable (pmem m f2 c) \<and> pte_writable (pmem m f1 d), u)"
  using assms(7-10)
  by (simp add: mmu_translate_def Let_def va_fields_mk_va[OF assms(1-5)] assms(6) phys_next_Some)

lemma index_510: "(510 :: u64) < 512" "bit (510 :: u64) 8"
  by (simp_all add: bit_numeral_word_iff)

lemma mmu_vtab:
  assumes rec: "recursive m r" and ok: "path_ok path" and i: "i < 512"
    and tab: "phys_table m r path = Some f"
  shows "\<exists>w u. mmu_translate m (vtab path + 8 * i) = Some (f, w, u)
           \<and> (path_writable m r path \<longrightarrow> w)"
    and "va_word (vtab path + 8 * i) = i"
proof -
  note rec = rec[unfolded recursive_def]
  consider "path = []" | a where "path = [a]" | a b where "path = [a, b]"
    | a b c where "path = [a, b, c]"
    using ok by (cases path; cases "tl path"; cases "tl (tl path)"; cases "tl (tl (tl path))")
      (auto simp: path_ok_def)
  then have "(\<exists>w u. mmu_translate m (vtab path + 8 * i) = Some (f, w, u)
           \<and> (path_writable m r path \<longrightarrow> w)) \<and> va_word (vtab path + 8 * i) = i"
  proof cases
    case 1
    with tab have "f = r" by simp
    with 1 rec mmu_mk_va[of 510 510 510 510 i m r r r r, OF index_510(1) index_510(1) index_510(1)
        index_510(1) i index_510(2)] show ?thesis
      by (auto simp: vtab_def mk_va_word va_fields_mk_va i)
  next
    case 2
    then have a: "a < 512" and f: "phys_next m r a = Some f"
      using ok tab by (auto simp: path_ok_def split: option.splits)
    with 2 rec mmu_mk_va[of 510 510 510 a i m r r r f, OF index_510(1) index_510(1) index_510(1)
        a i index_510(2)] show ?thesis
      by (auto simp: vtab_def mk_va_word va_fields_mk_va i)
  next
    case 3
    then obtain g where ab: "a < 512" "b < 512" and f: "phys_next m r a = Some g" "phys_next m g b = Some f"
      using ok tab by (auto simp: path_ok_def split: option.splits)
    with 3 rec mmu_mk_va[of 510 510 a b i m r r g f, OF index_510(1) index_510(1) ab i index_510(2)]
    show ?thesis
      by (auto simp: vtab_def mk_va_word va_fields_mk_va i phys_next_Some)
  next
    case 4
    then obtain g h where abc: "a < 512" "b < 512" "c < 512" and f: "phys_next m r a = Some g"
      "phys_next m g b = Some h" "phys_next m h c = Some f"
      using ok tab by (auto simp: path_ok_def split: option.splits)
    with 4 rec mmu_mk_va[of 510 a b c i m r g h f, OF index_510(1) abc i index_510(2)]
    show ?thesis
      by (auto simp: vtab_def mk_va_word va_fields_mk_va i phys_next_Some)
  qed
  then show "\<exists>w u. mmu_translate m (vtab path + 8 * i) = Some (f, w, u)
           \<and> (path_writable m r path \<longrightarrow> w)" and "va_word (vtab path + 8 * i) = i" by blast+
qed

lemma read_entry_vtab:
  assumes "recursive m r" and "path_ok path" and "i < 512" and "phys_table m r path = Some f"
  shows "read_entry (vtab path) i m = Inr (pmem m f i, m)"
  using mmu_vtab[OF assms] assms(3)
  by (auto simp: read_entry_def vread_def PAGE_TABLE_ENTRIES_def)

lemma write_entry_vtab:
  assumes "recursive m r" and "path_ok path" and "i < 512" and "phys_table m r path = Some f"
    and "path_writable m r path"
  shows "write_entry (vtab path) i v m = Inr ((), write_word f i v m)"
  using mmu_vtab[OF assms(1-4)] assms(3,5)
  by (auto simp: write_entry_def vwrite_def PAGE_TABLE_ENTRIES_def)

lemma next_page_table_vtab:
  assumes "recursive m r" and "path_ok path" and "length path < 3" and "i < 512"
    and "phys_table m r path = Some f"
  shows "next_page_table (vtab path) i m =
    Inr (if phys_next m f i = None then None else Some (vtab (path @ [i])), m)"
  unfolding next_page_table_def next_table_addr_def Let_def contains_flag vtab_snoc[OF assms(2-4)]
  by (simp add: run_simps read_entry_vtab[OF assms(1,2,4,5)] phys_next_def Let_def)

end
