(* ===== verification/Page_Walk.thy ===== *)
theory Page_Walk
  imports Recursive_Mapping
begin

text \<open>
  What \<open>walk_page_table\<close> computes.  \<open>phys_walk\<close> is the walk over physical memory from a P4
  frame; the code's walk, which reads every table through the recursive mapping, returns the
  same entry, and for the active table this is the translation of the MMU.
\<close>

section \<open>The walk over physical memory\<close>

definition page_path :: "page \<Rightarrow> u64 list" where
  "page_path page = [p4_index page, p3_index page, p2_index page]"

definition phys_walk :: "('t, 'z) machine_scheme \<Rightarrow> u64 \<Rightarrow> page \<Rightarrow> (u64 \<times> page_size) option" where
  "phys_walk m r page = (case phys_table m r [p4_index page, p3_index page] of
       None \<Rightarrow> None
     | Some p2 \<Rightarrow>
         let e2 = pmem m p2 (p2_index page) in
         if \<not> pte_present e2 then None
         else if pte_huge e2 then Some (e2, Mib2)
         else let e1 = pmem m (pte_frame e2) (p1_index page) in
              if pte_present e1 then Some (e1, Kib4) else None)"

text \<open>The kernel does not use 1 GiB pages and expects 2 MiB pages to be aligned.\<close>

definition walk_supported :: "('t, 'z) machine_scheme \<Rightarrow> u64 \<Rightarrow> page \<Rightarrow> bool" where
  "walk_supported m r page \<longleftrightarrow>
     (\<forall>p3. phys_next m r (p4_index page) = Some p3 \<longrightarrow>
        \<not> (pte_present (pmem m p3 (p3_index page)) \<and> pte_huge (pmem m p3 (p3_index page)))) \<and>
     (\<forall>p2. phys_table m r [p4_index page, p3_index page] = Some p2 \<longrightarrow>
        pte_present (pmem m p2 (p2_index page)) \<and> pte_huge (pmem m p2 (p2_index page)) \<longrightarrow>
        drop_bit 12 (pte_frame (pmem m p2 (p2_index page))) mod 512 = 0)"

lemma and_511_less: "(w :: u64) AND 511 < 512"
proof -
  have "w AND 511 \<le> 511" by (rule word_and_le1)
  then show ?thesis by (rule order_le_less_trans) simp
qed

lemma page_index_less [simp]:
  "p4_index page < 512" "p3_index page < 512" "p2_index page < 512" "p1_index page < 512"
  by (simp_all add: p4_index_def p3_index_def p2_index_def p1_index_def and_511_less)

lemma page_path_ok [simp]:
  "path_ok []" "path_ok [p4_index page]" "path_ok [p4_index page, p3_index page]"
  "path_ok [p4_index page, p3_index page, p2_index page]" "path_ok (page_path page)"
  by (simp_all add: path_ok_def page_path_def)

lemma physical_address_run:
  "x86_64_contract C \<Longrightarrow>
    physical_address C e m = Inr (if pte_present e then Some (pte_frame e) else None, m)"
  using pte_frame_bound[of e]
  by (simp add: physical_address_def contains_flag run_simps pte_frame_def)

section \<open>The code's walk is the physical walk\<close>

text \<open>Looking up the next table, for the three levels of a page's path.\<close>

lemma next_tables:
  assumes "recursive m r"
  shows "next_page_table P4 (p4_index page) m =
      Inr (if phys_next m r (p4_index page) = None then None else Some (vtab [p4_index page]), m)"
    and "phys_next m r (p4_index page) = Some p3 \<Longrightarrow>
      next_page_table (vtab [p4_index page]) (p3_index page) m =
      Inr (if phys_next m p3 (p3_index page) = None then None
           else Some (vtab [p4_index page, p3_index page]), m)"
    and "phys_table m r [p4_index page, p3_index page] = Some p2 \<Longrightarrow>
      next_page_table (vtab [p4_index page, p3_index page]) (p2_index page) m =
      Inr (if phys_next m p2 (p2_index page) = None then None else Some (vtab (page_path page)), m)"
  using next_page_table_vtab[OF assms, of "[]" "p4_index page" r]
    next_page_table_vtab[OF assms, of "[p4_index page]" "p3_index page" p3]
    next_page_table_vtab[OF assms, of "[p4_index page, p3_index page]" "p2_index page" p2]
  by (simp_all add: P4_vtab page_path_def)

lemma walk_huge_page_phys:
  assumes rec: "recursive m r" and C: "x86_64_contract C" and sup: "walk_supported m r page"
    and p3: "phys_next m r (p4_index page) = Some p3"
  shows "walk_huge_page C (Some (vtab [p4_index page])) page m =
    Inr (case phys_next m p3 (p3_index page) of
           None \<Rightarrow> None
         | Some p2 \<Rightarrow> (let e2 = pmem m p2 (p2_index page) in
             if pte_present e2 \<and> pte_huge e2 then Some (e2, Mib2) else None), m)"
proof -
  let ?e3 = "pmem m p3 (p3_index page)"
  have r3: "read_entry (vtab [p4_index page]) (p3_index page) m = Inr (?e3, m)"
    by (rule read_entry_vtab[OF rec]) (simp_all add: p3)
  have ok3: "\<not> (pte_present ?e3 \<and> pte_huge ?e3)"
    using sup p3 by (auto simp: walk_supported_def)
  show ?thesis
  proof (cases "phys_next m p3 (p3_index page)")
    case None
    with ok3 show ?thesis
      by (simp add: walk_huge_page_def and_then_def run_simps r3 physical_address_run[OF C]
          contains_flag next_tables(2)[OF rec p3])
  next
    case (Some p2)
    have tab: "phys_table m r [p4_index page, p3_index page] = Some p2" using p3 Some by simp
    let ?e2 = "pmem m p2 (p2_index page)"
    have r2: "read_entry (vtab [p4_index page, p3_index page]) (p2_index page) m = Inr (?e2, m)"
      by (rule read_entry_vtab[OF rec]) (simp_all add: tab del: phys_table.simps)
    have "pte_present ?e2 \<and> pte_huge ?e2 \<longrightarrow> drop_bit 12 (pte_frame ?e2) mod 512 = 0"
      using sup tab unfolding walk_supported_def by blast
    with Some ok3 show ?thesis
      by (simp add: walk_huge_page_def and_then_def run_simps r3 r2 physical_address_run[OF C]
          contains_flag contains_or next_tables(2)[OF rec p3] PAGE_TABLE_ENTRIES_def)
  qed
qed

lemma walk_page_table_phys:
  assumes rec: "recursive m r" and C: "x86_64_contract C" and sup: "walk_supported m r page"
  shows "walk_page_table C page m = Inr (phys_walk m r page, m)"
proof (cases "phys_next m r (p4_index page)")
  case None
  then show ?thesis
    by (simp add: walk_page_table_def walk_huge_page_def run_simps next_tables(1)[OF rec]
        and_then_def phys_walk_def)
next
  case (Some p3)
  note p3 = this and huge = walk_huge_page_phys[OF rec C sup Some]
  show ?thesis
  proof (cases "phys_next m p3 (p3_index page)")
    case None
    with p3 show ?thesis
      by (simp add: walk_page_table_def run_simps next_tables(1)[OF rec] next_tables(2)[OF rec p3]
          and_then_def phys_walk_def huge)
  next
    case (Some p2)
    note p2 = this
    have tab: "phys_table m r [p4_index page, p3_index page] = Some p2" using p3 p2 by simp
    show ?thesis
    proof (cases "phys_next m p2 (p2_index page)")
      case None
      with p3 p2 show ?thesis
        by (auto simp: walk_page_table_def run_simps next_tables(1)[OF rec]
            next_tables(2)[OF rec p3] next_tables(3)[OF rec tab] and_then_def phys_walk_def
            huge Let_def phys_next_def split: if_splits)
    next
      case (Some p1)
      have r1: "read_entry (vtab (page_path page)) (p1_index page) m
          = Inr (pmem m p1 (p1_index page), m)"
        by (rule read_entry_vtab[OF rec]) (simp_all add: page_path_def p3 p2 Some)
      have e2: "pte_present (pmem m p2 (p2_index page))" "\<not> pte_huge (pmem m p2 (p2_index page))"
        "pte_frame (pmem m p2 (p2_index page)) = p1"
        using Some by (simp_all add: phys_next_Some)
      from p3 p2 Some show ?thesis
        by (simp add: walk_page_table_def run_simps next_tables(1)[OF rec]
            next_tables(2)[OF rec p3] next_tables(3)[OF rec tab] and_then_def phys_walk_def
            huge r1 contains_flag Let_def e2)
    qed
  qed
qed

section \<open>The walk is the hardware's\<close>

lemma va_indices:
  "va_p4 va = p4_index (containing_address va)" "va_p3 va = p3_index (containing_address va)"
  "va_p2 va = p2_index (containing_address va)" "va_p1 va = p1_index (containing_address va)"
proof -
  have "va div 4096 = drop_bit 12 va" by (simp add: drop_bit_eq_div)
  then have n: "number (containing_address va) = drop_bit 12 va" by (simp add: containing_address_def)
  show "va_p4 va = p4_index (containing_address va)" "va_p3 va = p3_index (containing_address va)"
    "va_p2 va = p2_index (containing_address va)" "va_p1 va = p1_index (containing_address va)"
    by (simp_all add: va_p4_def va_p3_def va_p2_def va_p1_def p4_index_def p3_index_def p2_index_def
        p1_index_def n drop_bit_drop_bit)
qed

text \<open>The frame the MMU reaches for an address of a page that the walk finds.\<close>

definition walk_target :: "u64 \<Rightarrow> u64 \<times> page_size \<Rightarrow> u64" where
  "walk_target va w = (case w of
       (e, Kib4) \<Rightarrow> pte_frame e
     | (e, Mib2) \<Rightarrow> (pte_frame e AND NOT 0x1FFFFF) OR (va AND 0x1FF000))"

lemma mmu_phys_walk:
  assumes "canonical va" and sup: "walk_supported m (cr3 m) (containing_address va)"
  shows "map_option fst (mmu_translate m va) =
    map_option (walk_target va) (phys_walk m (cr3 m) (containing_address va))"
  using assms
  by (auto simp: mmu_translate_def phys_walk_def walk_supported_def walk_target_def va_indices
      Let_def phys_next_def split: option.splits if_splits)

end
