(* ===== verification/Page_Tables.thy ===== *)
theory Page_Tables
  imports Page_Walk "HOL-Library.Sublist"
begin

text \<open>
  Well-formed page tables and what one step of the mapper does to them.  \<open>pt_inv\<close> is the
  invariant: the recursive entry is in place, no frame holds two tables, no table lies in a
  free frame, and the tables can be written.  Under it a write to one entry changes the
  tables below that entry only, which gives the behaviour of \<open>next_table_create\<close>: it
  extends the tables by one zeroed table and leaves every translation as it was.
\<close>

section \<open>The invariant\<close>

text \<open>Paths outside the recursive entry.\<close>

definition tree_path :: "u64 list \<Rightarrow> bool" where
  "tree_path p \<longleftrightarrow> path_ok p \<and> (p \<noteq> [] \<longrightarrow> hd p \<noteq> 510)"

definition tables :: "('t, 'z) machine_scheme \<Rightarrow> u64 \<Rightarrow> u64 set" where
  "tables m r = {f. \<exists>p. tree_path p \<and> phys_table m r p = Some f}"

definition tables_inj :: "('t, 'z) machine_scheme \<Rightarrow> u64 \<Rightarrow> bool" where
  "tables_inj m r \<longleftrightarrow> (\<forall>p q f. tree_path p \<and> tree_path q \<and>
     phys_table m r p = Some f \<and> phys_table m r q = Some f \<longrightarrow> p = q)"

definition tables_writable :: "('t, 'z) machine_scheme \<Rightarrow> u64 \<Rightarrow> bool" where
  "tables_writable m r \<longleftrightarrow>
     (\<forall>p f. tree_path p \<and> phys_table m r p = Some f \<longrightarrow> path_writable m r p)"

text \<open>The huge bit stands in P2 entries (and, with another meaning, in P1 entries) only.\<close>

definition huge_ok :: "nat \<Rightarrow> u64 \<Rightarrow> bool" where
  "huge_ok d e \<longleftrightarrow> (pte_huge e \<longrightarrow>
     2 \<le> d \<and> (d = 2 \<longrightarrow> pte_present e \<and> drop_bit 12 (pte_frame e) mod 512 = 0))"

definition tables_huge_ok :: "('t, 'z) machine_scheme \<Rightarrow> u64 \<Rightarrow> bool" where
  "tables_huge_ok m r \<longleftrightarrow> (\<forall>p f i. tree_path p \<and> phys_table m r p = Some f \<and> i < 512 \<and>
     (p = [] \<longrightarrow> i \<noteq> 510) \<longrightarrow> huge_ok (length p) (pmem m f i))"

definition pt_inv :: "('t \<Rightarrow> bool) \<Rightarrow> ('t \<Rightarrow> u64 set) \<Rightarrow> ('t, 'z) machine_scheme \<Rightarrow> u64 \<Rightarrow> bool" where
  "pt_inv ok free m r \<longleftrightarrow>
     recursive m r \<and> phys_ok ok m \<and> tables_inj m r \<and> tables_writable m r \<and> tables_huge_ok m r \<and>
     tables m r \<inter> phys_free free m = {} \<and> cr3 m \<notin> phys_free free m \<and>
     (cr3 m = r \<or> cr3 m \<notin> tables m r)"

lemma tree_path_Nil [simp]: "tree_path []"
  by (simp add: tree_path_def)

lemma tree_path_snoc:
  "tree_path (p @ [i]) \<longleftrightarrow> tree_path p \<and> length p < 3 \<and> i < 512 \<and> (p = [] \<longrightarrow> i \<noteq> 510)"
  by (auto simp: tree_path_def path_ok_def hd_append)

lemma tree_path_snocD:
  assumes "tree_path (p @ [i])"
  shows "path_ok p" "length p < 3" "i < 512" "path_ok (p @ [i])"
  using assms by (auto simp: tree_path_def path_ok_def)

lemma tree_path_take: "tree_path (p @ q) \<Longrightarrow> tree_path p"
  by (auto simp: tree_path_def path_ok_def)

lemma tree_path_page:
  assumes "p4_index page \<noteq> 510"
  shows "tree_path [p4_index page]" "tree_path [p4_index page, p3_index page]"
    "tree_path (page_path page)"
  using assms by (simp_all add: tree_path_def page_path_def)

lemma tables_root: "r \<in> tables m r"
  unfolding tables_def by (auto intro: exI[of _ "[]"])

lemma tablesI: "tree_path p \<Longrightarrow> phys_table m r p = Some f \<Longrightarrow> f \<in> tables m r"
  by (auto simp: tables_def)

lemma tables_injD:
  "tables_inj m r \<Longrightarrow> tree_path p \<Longrightarrow> tree_path q \<Longrightarrow> phys_table m r p = Some f \<Longrightarrow>
    phys_table m r q = Some f \<Longrightarrow> p = q"
  unfolding tables_inj_def by blast

lemma tables_injI:
  "(\<And>p q f. tree_path p \<Longrightarrow> tree_path q \<Longrightarrow> phys_table m r p = Some f \<Longrightarrow>
      phys_table m r q = Some f \<Longrightarrow> p = q) \<Longrightarrow> tables_inj m r"
  unfolding tables_inj_def by blast

lemma pt_invD:
  assumes "pt_inv ok free m r"
  shows "recursive m r" "phys_ok ok m" "tables_inj m r" "tables_writable m r" "tables_huge_ok m r"
    "tables m r \<inter> phys_free free m = {}" "cr3 m \<notin> phys_free free m" "cr3 m = r \<or> cr3 m \<notin> tables m r"
  using assms unfolding pt_inv_def by blast+

lemma path_writable_snoc:
  "phys_table m r p = Some f \<Longrightarrow>
    path_writable m r (p @ [i]) \<longleftrightarrow> path_writable m r p \<and> pte_writable (pmem m f i)"
  by (induction p arbitrary: r) (auto split: option.splits simp: phys_next_Some)

lemma pt_inv_walk_supported:
  assumes inv: "pt_inv ok free m r" and page: "p4_index page \<noteq> 510"
  shows "walk_supported m r page"
proof -
  note h = pt_invD(5)[OF inv, unfolded tables_huge_ok_def, rule_format]
  have "\<not> pte_huge (pmem m p3 (p3_index page))" if "phys_next m r (p4_index page) = Some p3" for p3
    using h[of "[p4_index page]" p3 "p3_index page"] tree_path_page(1)[OF page] that
    by (auto simp: huge_ok_def)
  moreover have "drop_bit 12 (pte_frame (pmem m p2 (p2_index page))) mod 512 = 0"
    if "phys_table m r [p4_index page, p3_index page] = Some p2"
      "pte_huge (pmem m p2 (p2_index page))" for p2
    using h[of "[p4_index page, p3_index page]" p2 "p2_index page"] tree_path_page(2)[OF page] that
    by (simp add: huge_ok_def del: phys_table.simps)
  ultimately show ?thesis unfolding walk_supported_def by blast
qed

lemma phys_walk_alt:
  "phys_walk m r page = (case phys_table m r (page_path page) of
       Some p1 \<Rightarrow> (let e1 = pmem m p1 (p1_index page) in
                   if pte_present e1 then Some (e1, Kib4) else None)
     | None \<Rightarrow> (case phys_table m r [p4_index page, p3_index page] of
         None \<Rightarrow> None
       | Some p2 \<Rightarrow> (let e2 = pmem m p2 (p2_index page) in
           if pte_present e2 \<and> pte_huge e2 then Some (e2, Mib2) else None)))"
proof -
  have P: "page_path page = [p4_index page, p3_index page] @ [p2_index page]"
    by (simp add: page_path_def)
  show ?thesis
    unfolding P phys_table_snoc phys_walk_def
    by (auto simp: phys_next_def Let_def simp del: phys_table.simps split: option.splits)
qed

section \<open>Memory outside the tables\<close>

lemma phys_table_cong:
  "pmem m' = pmem m \<Longrightarrow> phys_table m' r p = phys_table m r p"
  by (induction p arbitrary: r) (simp_all add: phys_next_def split: option.splits)

lemma path_writable_cong:
  "pmem m' = pmem m \<Longrightarrow> path_writable m' r p = path_writable m r p"
  by (induction p arbitrary: r) simp_all

lemma phys_walk_cong: "pmem m' = pmem m \<Longrightarrow> phys_walk m' r page = phys_walk m r page"
  by (simp only: phys_walk_def phys_table_cong[of m' m])

lemma recursive_cong:
  "pmem m' = pmem m \<Longrightarrow> cr3 m' = cr3 m \<Longrightarrow> recursive m' r = recursive m r"
  by (simp add: recursive_def phys_next_def)

lemma pt_inv_cong:
  assumes inv: "pt_inv ok free m r" and same: "pmem m' = pmem m" "cr3 m' = cr3 m"
    and ok: "phys_ok ok m'" and sub: "phys_free free m' \<subseteq> phys_free free m"
  shows "pt_inv ok free m' r"
proof -
  have t: "tables m' r = tables m r" by (simp only: tables_def phys_table_cong[OF same(1)])
  have "tables_inj m' r" "tables_writable m' r" "tables_huge_ok m' r"
    using pt_invD(3-5)[OF inv]
    by (simp_all only: tables_inj_def tables_writable_def tables_huge_ok_def same(1)
        phys_table_cong[OF same(1)] path_writable_cong[OF same(1)])
  then show ?thesis
    using pt_invD[OF inv] same sub ok
    unfolding pt_inv_def t by (auto simp: recursive_cong[OF same])
qed

lemma pt_inv_tlb: "pt_inv ok free (m\<lparr>tlb_log := l\<rparr>) r \<longleftrightarrow> pt_inv ok free m r"
proof
  show "pt_inv ok free (m\<lparr>tlb_log := l\<rparr>) r" if "pt_inv ok free m r"
    by (rule pt_inv_cong[OF that]) (use pt_invD(2)[OF that] in \<open>simp_all add: phys_ok_def phys_free_def\<close>)
next
  show "pt_inv ok free m r" if "pt_inv ok free (m\<lparr>tlb_log := l\<rparr>) r"
    by (rule pt_inv_cong[OF that]) (use pt_invD(2)[OF that] in \<open>simp_all add: phys_ok_def phys_free_def\<close>)
qed

section \<open>Changing one entry\<close>

text \<open>\<open>m'\<close> has the table entries of \<open>m\<close> except entry \<open>i\<close> of the table \<open>f\<close>.\<close>

definition agree_but :: "('t, 'z) machine_scheme \<Rightarrow> ('t, 'z) machine_scheme \<Rightarrow> u64 \<Rightarrow> u64 \<Rightarrow> u64 \<Rightarrow> bool" where
  "agree_but m m' r f i \<longleftrightarrow>
     (\<forall>g\<in>tables m r. \<forall>j<512. g = f \<and> j = i \<or> pmem m' g j = pmem m g j)"

lemma agree_butD:
  "agree_but m m' r f i \<Longrightarrow> g \<in> tables m r \<Longrightarrow> j < 512 \<Longrightarrow> \<not> (g = f \<and> j = i) \<Longrightarrow>
    pmem m' g j = pmem m g j"
  by (auto simp: agree_but_def)

lemma phys_table_agree:
  assumes inj: "tables_inj m r" and p: "tree_path p" "phys_table m r p = Some f"
    and ag: "agree_but m m' r f i"
    and q: "tree_path q" "\<not> prefix (p @ [i]) q"
  shows "phys_table m' r q = phys_table m r q"
  using q
proof (induction q rule: rev_induct)
  case Nil
  then show ?case by simp
next
  case (snoc j q)
  then have j: "j < 512" and q: "tree_path q" and np: "\<not> prefix (p @ [i]) q"
    by (auto simp: tree_path_snoc)
  show ?case
  proof (cases "phys_table m r q")
    case None
    with snoc.IH[OF q np] show ?thesis by (simp add: phys_table_snoc)
  next
    case (Some g)
    have "\<not> (g = f \<and> j = i)"
      using tables_injD[OF inj p(1) q p(2)] Some snoc.prems(2) by auto
    then have "pmem m' g j = pmem m g j"
      using agree_butD[OF ag] tablesI[OF q Some] j by blast
    with snoc.IH[OF q np] Some show ?thesis by (simp add: phys_table_snoc phys_next_def)
  qed
qed

lemma path_writable_agree:
  assumes inj: "tables_inj m r" and p: "tree_path p" "phys_table m r p = Some f"
    and ag: "agree_but m m' r f i"
    and q: "tree_path q" "\<not> prefix (p @ [i]) q" "phys_table m r q = Some h"
  shows "path_writable m' r q = path_writable m r q"
  using q
proof (induction q arbitrary: h rule: rev_induct)
  case Nil
  then show ?case by simp
next
  case (snoc j q)
  then have j: "j < 512" and q: "tree_path q" and np: "\<not> prefix (p @ [i]) q"
    by (auto simp: tree_path_snoc)
  obtain g where g: "phys_table m r q = Some g"
    using snoc.prems(3) by (auto simp: phys_table_snoc split: option.splits)
  have "\<not> (g = f \<and> j = i)"
    using tables_injD[OF inj p(1) q p(2)] g snoc.prems(2) by auto
  then have "pmem m' g j = pmem m g j"
    using agree_butD[OF ag] tablesI[OF q g] j by blast
  moreover have "phys_table m' r q = Some g"
    using phys_table_agree[OF inj p ag q np] g by simp
  ultimately show ?case
    using snoc.IH[OF q np g] g by (simp add: path_writable_snoc)
qed

text \<open>A write that neither removes nor adds a table: to a P1 entry, or between entries that
  do not point to a table.\<close>

definition leaf_entry :: "nat \<Rightarrow> u64 \<Rightarrow> bool" where
  "leaf_entry d e \<longleftrightarrow> d = 3 \<or> \<not> pte_present e \<or> pte_huge e"

lemma phys_table_leaf_write:
  assumes inj: "tables_inj m r" and p: "tree_path p" "phys_table m r p = Some f"
    and leaf: "leaf_entry (length p) (pmem m f i)" "leaf_entry (length p) v"
    and q: "tree_path q"
  shows "phys_table (write_word f i v m) r q = phys_table m r q"
    and "phys_table m r q = Some h \<Longrightarrow> \<not> prefix (p @ [i]) q"
proof -
  have ag: "agree_but m (write_word f i v m) r f i" by (auto simp: agree_but_def)
  have none: "phys_table m r q = None \<and> phys_table (write_word f i v m) r q = None"
    if pre: "prefix (p @ [i]) q"
  proof -
    obtain q' where q': "q = (p @ [i]) @ q'" using pre by (auto elim: prefixE)
    have "length p \<noteq> 3" using q q' by (auto simp: tree_path_def path_ok_def)
    with leaf have "phys_next m f i = None" "phys_next (write_word f i v m) f i = None"
      by (auto simp: leaf_entry_def phys_next_def)
    moreover have "phys_table (write_word f i v m) r p = Some f"
      using phys_table_agree[OF inj p ag p(1)] p(2) by simp
    ultimately have "phys_table m r (p @ [i]) = None"
      "phys_table (write_word f i v m) r (p @ [i]) = None"
      using p(2) by (simp_all add: phys_table_snoc)
    then show ?thesis unfolding q' by (simp only: phys_table_append[of _ _ "p @ [i]"] option.case simp_thms)
  qed
  show "phys_table m r q = Some h \<Longrightarrow> \<not> prefix (p @ [i]) q" using none by auto
  show "phys_table (write_word f i v m) r q = phys_table m r q"
    using none phys_table_agree[OF inj p ag q] by (cases "prefix (p @ [i]) q") auto
qed

lemma recursive_write:
  assumes rec: "recursive m r" and cr3: "cr3 m = r \<or> cr3 m \<notin> tables m r"
    and f: "f \<in> tables m r" and i: "f = r \<longrightarrow> i \<noteq> 510"
  shows "recursive (write_word f i v m) r"
  using assms by (auto simp: recursive_def phys_next_def)

lemma pt_inv_leaf_write:
  assumes inv: "pt_inv ok free m r" and p: "tree_path p" "phys_table m r p = Some f"
    and i: "i < 512" "p = [] \<longrightarrow> i \<noteq> 510"
    and leaf: "leaf_entry (length p) (pmem m f i)" "leaf_entry (length p) v"
    and huge: "huge_ok (length p) v"
  shows "pt_inv ok free (write_word f i v m) r"
proof -
  let ?m = "write_word f i v m"
  note I = pt_invD[OF inv]
  note same = phys_table_leaf_write[OF I(3) p leaf]
  have ag: "agree_but m ?m r f i" by (auto simp: agree_but_def)
  have fr: "f = r \<longrightarrow> i \<noteq> 510"
    using tables_injD[OF I(3) p(1), of "[]"] p i(2) by auto
  have t: "tables ?m r = tables m r"
    unfolding tables_def by (auto simp: same(1))
  have "tables_inj ?m r"
    by (rule tables_injI) (simp add: same(1) tables_injD[OF I(3)])
  moreover have "tables_writable ?m r"
    unfolding tables_writable_def
  proof (intro allI impI, elim conjE)
    fix q g assume q: "tree_path q" and "phys_table ?m r q = Some g"
    then have g: "phys_table m r q = Some g" by (simp add: same(1))
    then have "path_writable m r q" using I(4) q unfolding tables_writable_def by blast
    then show "path_writable ?m r q"
      by (simp only: path_writable_agree[OF I(3) p ag q same(2)[OF q g] g])
  qed
  moreover have "tables_huge_ok ?m r"
    unfolding tables_huge_ok_def
  proof (intro allI impI, elim conjE)
    fix q g and j :: u64 assume q: "tree_path q" "phys_table ?m r q = Some g" "j < 512" "q = [] \<longrightarrow> j \<noteq> 510"
    then have g: "phys_table m r q = Some g" by (simp add: same(1))
    then have "huge_ok (length q) (pmem m g j)"
      using I(5)[unfolded tables_huge_ok_def] q by blast
    moreover have "q = p" if "g = f" using tables_injD[OF I(3) q(1) p(1) g] p(2) that by simp
    ultimately show "huge_ok (length q) (pmem ?m g j)" using huge by auto
  qed
  moreover have "recursive ?m r"
    by (rule recursive_write[OF I(1,8) tablesI[OF p] fr])
  moreover have "phys_free free ?m = phys_free free m" "phys_ok ok ?m"
    using I(2) by (simp_all add: phys_free_def phys_ok_def)
  ultimately show ?thesis using I(6-8) unfolding pt_inv_def t by simp
qed

section \<open>Clearing a table\<close>

lemma phys_table_along:
  assumes "\<And>p f. strict_prefix p q \<Longrightarrow> phys_table m r p = Some f \<Longrightarrow> pmem m' f = pmem m f"
  shows "phys_table m' r q = phys_table m r q"
    and "phys_table m r q = Some h \<Longrightarrow> path_writable m' r q = path_writable m r q"
proof -
  have "phys_table m' r q = phys_table m r q \<and>
      (\<forall>h. phys_table m r q = Some h \<longrightarrow> path_writable m' r q = path_writable m r q)"
    using assms
  proof (induction q rule: rev_induct)
    case Nil
    then show ?case by simp
  next
    case (snoc j q)
    have "strict_prefix p (q @ [j])" if "strict_prefix p q" for p
      by (rule prefix_order.less_le_trans[OF that]) simp
    then have IH: "phys_table m' r q = phys_table m r q"
      "\<And>h. phys_table m r q = Some h \<Longrightarrow> path_writable m' r q = path_writable m r q"
      using snoc.IH snoc.prems by blast+
    show ?case
    proof (cases "phys_table m r q")
      case None
      with IH show ?thesis by (simp add: phys_table_snoc)
    next
      case (Some g)
      then have "pmem m' g = pmem m g" by (intro snoc.prems) (simp_all add: strict_prefix_def)
      with IH Some show ?thesis by (simp add: phys_table_snoc path_writable_snoc phys_next_def)
    qed
  qed
  then show "phys_table m' r q = phys_table m r q"
    and "phys_table m r q = Some h \<Longrightarrow> path_writable m' r q = path_writable m r q" by blast+
qed

definition clear_words :: "u64 \<Rightarrow> u64 set \<Rightarrow> ('t, 'z) machine_scheme \<Rightarrow> ('t, 'z) machine_scheme" where
  "clear_words g X m = m\<lparr>pmem := (pmem m)(g := (\<lambda>i. if i \<in> X then 0 else pmem m g i))\<rparr>"

lemma clear_words_write: "clear_words g X (write_word g x 0 m) = clear_words g (insert x X) m"
  by (auto simp: clear_words_def write_word_def fun_eq_iff)

lemma table_zero_vtab:
  assumes "recursive m r" and q: "path_ok q" and "phys_table m r q = Some g"
    and "path_writable m r q" and "g \<noteq> r" "g \<noteq> cr3 m"
    and "\<And>p. strict_prefix p q \<Longrightarrow> phys_table m r p \<noteq> Some g"
  shows "table_zero (vtab q) m = Inr ((), clear_words g {..<512} m)"
proof -
  have "for_each xs (\<lambda>i. write_entry (vtab q) i 0) m = Inr ((), clear_words g (set xs) m)"
    if "\<forall>x \<in> set xs. x < 512" for xs
    using that assms(1,3-7)
  proof (induction xs arbitrary: m)
    case Nil
    then show ?case by (simp add: ret_def clear_words_def)
  next
    case (Cons x xs)
    let ?m = "write_word g x 0 m"
    have same: "phys_table ?m r p = phys_table m r p" if "prefix p q" for p
    proof (rule phys_table_along(1))
      fix p' f assume "strict_prefix p' p" "phys_table m r p' = Some f"
      with Cons.prems(7)[OF prefix_order.less_le_trans[OF _ that]] have "f \<noteq> g" by auto
      then show "pmem ?m f = pmem m f" by (simp add: write_word_def)
    qed
    have wr: "path_writable ?m r q = path_writable m r q"
    proof (rule phys_table_along(2)[OF _ Cons.prems(3)])
      fix p' f assume "strict_prefix p' q" "phys_table m r p' = Some f"
      with Cons.prems(7)[of p'] have "f \<noteq> g" by auto
      then show "pmem ?m f = pmem m f" by (simp add: write_word_def)
    qed
    have "recursive ?m r" using Cons.prems(2,5,6) by (auto simp: recursive_def phys_next_def)
    moreover have "phys_table ?m r p \<noteq> Some g" if "strict_prefix p q" for p
      using same[of p] Cons.prems(7)[OF that] that by (simp add: strict_prefix_def)
    ultimately have "for_each xs (\<lambda>i. write_entry (vtab q) i 0) ?m
        = Inr ((), clear_words g (set xs) ?m)"
      using Cons.prems same[of q] wr by (intro Cons.IH) simp_all
    moreover have "write_entry (vtab q) x 0 m = Inr ((), ?m)"
      by (rule write_entry_vtab[OF Cons.prems(2) q _ Cons.prems(3,4)]) (use Cons.prems(1) in simp)
    ultimately show ?case by (simp add: run_simps clear_words_write)
  qed
  from this[of "map of_nat [0..<512]"]
  have "table_zero (vtab q) m = Inr ((), clear_words g (of_nat ` {..<512}) m)"
    by (simp add: table_zero_def word_less_nat_alt unat_of_nat take_bit_nat_eq_self atLeast0LessThan
        del: upt_Suc)
  moreover have "of_nat ` {..<512} = {..<512 :: u64}"
    by (auto simp: word_less_nat_alt unat_of_nat take_bit_nat_eq_self
        intro!: image_eqI[where f = of_nat and x = "unat x" for x])
  ultimately show ?thesis by simp
qed

section \<open>Adding a table\<close>

lemma phys_free_bound:
  assumes "friendly_contract C ok free" and "phys_ok ok m" and "g \<in> phys_free free m"
  shows "g < 2 ^ 38" and "g AND 0xFFF = 0"
proof -
  from assms(2,3) obtain trees i t a where tr: "trees_ok ok trees" "i < 256" "trees ! i = Some t"
    and a: "a \<in> free t" and g: "g = tree_base i + a"
    by (auto simp: phys_free_def phys_ok_def trees_free_def slot_free_def trees_ok_def
        split: option.splits)
  have "ok t" using tr unfolding trees_ok_def by blast
  note b = friendly_free_bound[OF assms(1) this a]
  have "unat a < 2 ^ 30" using b(1) by (simp add: word_less_nat_alt)
  with tr(2) show "g < 2 ^ 38" by (simp add: word_less_nat_alt unat_tree_addr[OF tr(2) b(1)] g)
  have "unat a mod 4096 = 0" using b(2) by (simp add: page_aligned_iff)
  then show "g AND 0xFFF = 0"
    by (simp add: g page_aligned_iff unat_tree_addr[OF tr(2) b(1)] mod_add_eq[symmetric]
        mod_mult_eq[symmetric])
qed

text \<open>The entry built from an aligned address and flags.\<close>

lemma bit_frame_mask: "bit (0x000FFFFFFFFFF000 :: u64) n \<longleftrightarrow> 12 \<le> n \<and> n < 52"
proof -
  have "(0x000FFFFFFFFFF000 :: u64) = push_bit 12 (mask 40)"
    by (simp add: mask_eq_exp_minus_1)
  then show ?thesis by (simp only: bit_push_bit_iff bit_mask_iff) auto
qed

lemma bit_low_mask: "bit (0xFFF :: u64) n \<longleftrightarrow> n < 12"
proof -
  have "(0xFFF :: u64) = mask 12" by (simp add: mask_eq_exp_minus_1)
  then show ?thesis by (simp only: bit_mask_iff) auto
qed

lemma aligned_bit: "a AND 0xFFF = 0 \<Longrightarrow> n < 12 \<Longrightarrow> \<not> bit (a :: u64) n"
  by (metis bit_0_eq bit_and_iff bit_low_mask bot_apply bot_bool_def)

lemma less_bit:
  assumes "a < (2 ^ 52 :: u64)" and "52 \<le> n"
  shows "\<not> bit a n"
proof -
  have "unat a < 2 ^ 52" using assms(1) by (simp add: word_less_nat_alt)
  then have "a = take_bit 52 a" by (simp add: word_unat_eq_iff unsigned_take_bit_eq take_bit_nat_eq_self)
  then show ?thesis using assms(2) by (metis bit_take_bit_iff not_le)
qed

lemma entry_fields:
  assumes "a AND 0xFFF = 0" and "a < 2 ^ 52" and fl: "fl AND 0x000FFFFFFFFFF000 = 0"
  shows "pte_frame (a OR fl) = a"
    and "n < 12 \<Longrightarrow> bit (a OR fl) n = bit fl n"
proof -
  have nfl: "\<not> (12 \<le> n \<and> n < 52 \<and> bit fl n)" for n
    using fl by (metis bit_0_eq bit_and_iff bit_frame_mask bot_apply bot_bool_def)
  have "bit (pte_frame (a OR fl)) n = bit a n" for n
    using nfl[of n] aligned_bit[OF assms(1), of n] less_bit[OF assms(2), of n]
    by (cases "n < 12"; cases "n < 52")
      (auto simp: pte_frame_def bit_and_iff bit_or_iff bit_frame_mask not_le not_less)
  then show "pte_frame (a OR fl) = a" by (intro bit_eqI) simp
  show "n < 12 \<Longrightarrow> bit (a OR fl) n = bit fl n"
    using aligned_bit[OF assms(1)] by (simp add: bit_or_iff)
qed

lemma entry_set_run:
  assumes "a AND 0xFFF = 0" and "a < 2 ^ 48"
  shows "entry_set a fl s = Inr (a OR fl, s)"
proof -
  have "unat a < 2 ^ 48" using assms(2) by (simp add: word_less_nat_alt)
  then have "drop_bit 48 a = 0" by (simp add: word_unat_eq_iff unsigned_drop_bit_eq drop_bit_eq_div
        unat_div)
  with assms(1) show ?thesis by (simp add: entry_set_def run_simps)
qed

definition TABLE_FLAGS :: u64 where "TABLE_FLAGS = PRESENT OR WRITABLE OR USER_ACCESSIBLE"

lemma TABLE_FLAGS_bits:
  "TABLE_FLAGS AND 0x000FFFFFFFFFF000 = 0" "bit TABLE_FLAGS 0" "bit TABLE_FLAGS 1" "\<not> bit TABLE_FLAGS 7"
  by (simp_all add: TABLE_FLAGS_def flag_defs bit_numeral_word_iff)

text \<open>\<open>g\<close> becomes the table at entry \<open>i\<close> of the table \<open>f\<close>, which is at \<open>p\<close>.\<close>

definition add_table :: "u64 \<Rightarrow> u64 \<Rightarrow> u64 \<Rightarrow> ('t, 'z) machine_scheme \<Rightarrow> ('t, 'z) machine_scheme" where
  "add_table f i g m = clear_words g {..<512} (write_word f i (g OR TABLE_FLAGS) m)"

definition addable :: "('t, 'z) machine_scheme \<Rightarrow> u64 \<Rightarrow> u64 list \<Rightarrow> u64 \<Rightarrow> u64 \<Rightarrow> u64 \<Rightarrow> bool" where
  "addable m r p f i g \<longleftrightarrow> tree_path (p @ [i]) \<and> phys_table m r p = Some f \<and>
     \<not> pte_present (pmem m f i) \<and> g \<notin> tables m r \<and> g AND 0xFFF = 0 \<and> g < 2 ^ 52"

lemma table_entry:
  assumes "g AND 0xFFF = 0" "g < 2 ^ 52"
  shows "pte_frame (g OR TABLE_FLAGS) = g" "pte_present (g OR TABLE_FLAGS)"
    "pte_writable (g OR TABLE_FLAGS)" "\<not> pte_huge (g OR TABLE_FLAGS)"
  using entry_fields[OF assms TABLE_FLAGS_bits(1)] TABLE_FLAGS_bits(2-4)
  by (simp_all add: pte_present_def pte_writable_def pte_huge_def)

lemma addableD:
  assumes "addable m r p f i g"
  shows "tree_path p" "tree_path (p @ [i])" "i < 512" "phys_table m r p = Some f"
    "\<not> pte_present (pmem m f i)" "g \<notin> tables m r" "f \<noteq> g"
    "g AND 0xFFF = 0" "g < 2 ^ 52"
  using assms tablesI[of p m r f] by (auto simp: addable_def tree_path_snoc)

lemma pmem_add_table:
  assumes "f \<noteq> g"
  shows "pmem (add_table f i g m) f j = (if j = i then g OR TABLE_FLAGS else pmem m f j)"
    and "j < 512 \<Longrightarrow> pmem (add_table f i g m) g j = 0"
    and "h \<noteq> f \<Longrightarrow> h \<noteq> g \<Longrightarrow> pmem (add_table f i g m) h = pmem m h"
  using assms by (simp_all add: add_table_def clear_words_def write_word_def)

lemma add_table_same [simp]:
  "cr3 (add_table f i g m) = cr3 m" "phys_trees (add_table f i g m) = phys_trees m"
  "tlb_log (add_table f i g m) = tlb_log m" "heap_tree (add_table f i g m) = heap_tree m"
  "bootstrap_heap (add_table f i g m) = bootstrap_heap m" "cr3_flags (add_table f i g m) = cr3_flags m"
  "cr0_wp (add_table f i g m) = cr0_wp m"
  by (simp_all add: add_table_def clear_words_def)

lemma agree_add_table:
  assumes "addable m r p f i g"
  shows "agree_but m (add_table f i g m) r f i"
  unfolding agree_but_def
proof (intro ballI allI impI)
  fix h j assume "h \<in> tables m r"
  then have "h \<noteq> g" using addableD(6)[OF assms] by blast
  then show "h = f \<and> j = i \<or> pmem (add_table f i g m) h j = pmem m h j"
    by (cases "h = f") (auto simp: pmem_add_table[OF addableD(7)[OF assms]])
qed

lemma phys_table_add:
  assumes inj: "tables_inj m r" and add: "addable m r p f i g" and q: "tree_path q"
  shows "phys_table (add_table f i g m) r q =
    (if prefix (p @ [i]) q then if q = p @ [i] then Some g else None else phys_table m r q)"
proof -
  let ?m = "add_table f i g m"
  note D = addableD[OF add] and A = pmem_add_table[OF addableD(7)[OF add]]
    and ag = phys_table_agree[OF inj addableD(1,4)[OF add] agree_add_table[OF add]]
  show ?thesis
  proof (cases "prefix (p @ [i]) q")
    case False
    with ag[OF q] show ?thesis by simp
  next
    case True
    then obtain q' where q': "q = (p @ [i]) @ q'" by (auto elim: prefixE)
    have "phys_table ?m r p = Some f" using ag[OF D(1)] D(4) by simp
    then have pi: "phys_table ?m r (p @ [i]) = Some g"
      by (simp add: phys_table_snoc phys_next_def A(1) table_entry[OF D(8,9)])
    show ?thesis
    proof (cases q')
      case Nil
      with pi q' show ?thesis by simp
    next
      case (Cons j js)
      then have "j < 512" using q q' by (auto simp: tree_path_def path_ok_def)
      then have "phys_next ?m g j = None" by (simp add: phys_next_def A(2) pte_present_def)
      then have "phys_table ?m r q = None"
        unfolding q' Cons by (simp only: phys_table_append[of _ _ "p @ [i]"] pi) simp
      with True q' Cons show ?thesis by simp
    qed
  qed
qed

lemma phys_table_below:
  assumes add: "addable m r p f i g" and pre: "prefix (p @ [i]) q"
  shows "phys_table m r q = None"
proof -
  obtain q' where q': "q = (p @ [i]) @ q'" using pre by (auto elim: prefixE)
  show ?thesis
    unfolding q' phys_table_append[of _ _ "p @ [i]"] phys_table_snoc
    using addableD(4,5)[OF add] by (simp add: phys_next_def)
qed

lemma tables_add:
  assumes inj: "tables_inj m r" and add: "addable m r p f i g"
  shows "tables (add_table f i g m) r = insert g (tables m r)"
proof -
  note T = phys_table_add[OF inj add] and D = addableD[OF add]
  have "h \<in> tables (add_table f i g m) r" if "h \<in> tables m r" for h
    using that phys_table_below[OF add] unfolding tables_def by (force simp: T)
  moreover have "g \<in> tables (add_table f i g m) r"
    using D(2) by (intro tablesI[OF D(2)]) (simp add: T)
  moreover have "h = g \<or> h \<in> tables m r" if "h \<in> tables (add_table f i g m) r" for h
    using that unfolding tables_def by (auto simp: T split: if_splits)
  ultimately show ?thesis by blast
qed

lemma tables_inj_add:
  assumes inj: "tables_inj m r" and add: "addable m r p f i g"
  shows "tables_inj (add_table f i g m) r"
proof (rule tables_injI)
  note T = phys_table_add[OF inj add] and D = addableD[OF add]
  fix a b h
  assume a: "tree_path a" and b: "tree_path b" and ta: "phys_table (add_table f i g m) r a = Some h"
    and tb: "phys_table (add_table f i g m) r b = Some h"
  have ng: "phys_table m r c \<noteq> Some g" if "tree_path c" for c
    using D(6) tablesI[OF that] by blast
  show "a = b"
    using ta tb tables_injD[OF inj a b] ng[OF a] ng[OF b]
    unfolding T[OF a] T[OF b] by (auto split: if_splits)
qed

lemma tables_writable_add:
  assumes inj: "tables_inj m r" and add: "addable m r p f i g" and w: "tables_writable m r"
  shows "tables_writable (add_table f i g m) r"
  unfolding tables_writable_def
proof (intro allI impI, elim conjE)
  let ?m = "add_table f i g m"
  note T = phys_table_add[OF inj add] and D = addableD[OF add]
    and A = pmem_add_table[OF addableD(7)[OF add]]
  note W = path_writable_agree[OF inj D(1,4) agree_add_table[OF add]]
  fix q h assume q: "tree_path q" and h: "phys_table ?m r q = Some h"
  show "path_writable ?m r q"
  proof (cases "prefix (p @ [i]) q")
    case False
    then have "phys_table m r q = Some h" using h T[OF q] by simp
    then show ?thesis using W[OF q False] w q unfolding tables_writable_def by blast
  next
    case True
    then have q': "q = p @ [i]" using h T[OF q] by (simp split: if_splits)
    have np: "\<not> prefix (p @ [i]) p" by (auto dest: prefix_length_le)
    then have "phys_table ?m r p = Some f" using T[OF D(1)] D(4) by simp
    moreover have "path_writable m r p" using w D(1,4) unfolding tables_writable_def by blast
    then have "path_writable ?m r p" using W[OF D(1) np D(4)] by simp
    ultimately show ?thesis
      unfolding q' by (simp add: path_writable_snoc A(1) table_entry[OF D(8,9)])
  qed
qed

lemma tables_huge_ok_add:
  assumes inj: "tables_inj m r" and add: "addable m r p f i g" and hk: "tables_huge_ok m r"
  shows "tables_huge_ok (add_table f i g m) r"
  unfolding tables_huge_ok_def
proof (intro allI impI, elim conjE)
  let ?m = "add_table f i g m"
  note T = phys_table_add[OF inj add] and D = addableD[OF add]
    and A = pmem_add_table[OF addableD(7)[OF add]]
  fix q h and j :: u64
  assume q: "tree_path q" and h: "phys_table ?m r q = Some h" and j: "j < 512" "q = [] \<longrightarrow> j \<noteq> 510"
  show "huge_ok (length q) (pmem ?m h j)"
  proof (cases "h = g")
    case True
    with j show ?thesis by (simp add: A(2) huge_ok_def pte_huge_def)
  next
    case False
    then have "phys_table m r q = Some h" using h T[OF q] by (simp split: if_splits)
    then have "huge_ok (length q) (pmem m h j)"
      using hk q j unfolding tables_huge_ok_def by blast
    with False show ?thesis
      using table_entry[OF D(8,9)]
      by (cases "h = f") (auto simp: A(1,3) huge_ok_def)
  qed
qed

lemma phys_walk_add:
  assumes inj: "tables_inj m r" and add: "addable m r p f i g" and page: "p4_index page \<noteq> 510"
  shows "phys_walk (add_table f i g m) r page = phys_walk m r page"
proof -
  let ?m = "add_table f i g m" and ?P = "page_path page" and ?Q = "[p4_index page, p3_index page]"
  note T = phys_table_add[OF inj add] and D = addableD[OF add]
    and A = pmem_add_table[OF addableD(7)[OF add]] and B = phys_table_below[OF add]
    and tp = tree_path_page(2,3)[OF page]
  have PQ: "?P = ?Q @ [p2_index page]" by (simp add: page_path_def)
  have P: "phys_table m r ?P = (case phys_table m r ?Q of None \<Rightarrow> None
      | Some h \<Rightarrow> phys_next m h (p2_index page))"
    unfolding PQ phys_table_snoc ..
  have len: "length p < 3" using D(2) by (simp add: tree_path_snoc)
  have ng: "h \<noteq> g" if "tree_path c" "phys_table m r c = Some h" for c h
    using D(6) tablesI[OF that] by blast
  have f: "c = p" if "tree_path c" "phys_table m r c = Some f" for c
    by (rule tables_injD[OF inj that(1) D(1) that(2) D(4)])
  show ?thesis
  proof (cases "prefix (p @ [i]) ?P")
    case True
    have "phys_walk m r page = None"
    proof (cases "phys_table m r ?Q")
      case None
      with B[OF True] show ?thesis by (simp add: phys_walk_alt del: phys_table.simps)
    next
      case (Some h)
      then have "\<not> prefix (p @ [i]) ?Q" using B[of ?Q] by (auto simp del: phys_table.simps)
      with True have "?Q = p" "p2_index page = i" unfolding PQ prefix_snoc by auto
      with Some D(4,5) B[OF True] show ?thesis by (simp add: phys_walk_alt del: phys_table.simps)
    qed
    moreover have "phys_walk ?m r page = None"
    proof (cases "?P = p @ [i]")
      case True
      then have "phys_table ?m r ?P = Some g" using T[OF tp(2)] by simp
      then show ?thesis by (simp add: phys_walk_alt A(2) pte_present_def)
    next
      case False
      with True have "prefix (p @ [i]) ?Q" unfolding PQ prefix_snoc by auto
      with True False show ?thesis
        by (simp add: phys_walk_alt T[OF tp(2)] T[OF tp(1)] A(2) pte_present_def del: phys_table.simps)
    qed
    ultimately show ?thesis by simp
  next
    case False
    then have FQ: "\<not> prefix (p @ [i]) ?Q" unfolding PQ prefix_snoc by blast
    have "pmem ?m h (p1_index page) = pmem m h (p1_index page)" if "phys_table m r ?P = Some h" for h
    proof -
      have "h \<noteq> f" using f[OF tp(2)] that len by (auto simp: page_path_def)
      with ng[OF tp(2) that] show ?thesis by (simp add: A(3))
    qed
    moreover have "pmem ?m h (p2_index page) = pmem m h (p2_index page)" if "phys_table m r ?Q = Some h" for h
      using ng[OF tp(1) that] f[OF tp(1)] that False PQ
      by (cases "h = f") (auto simp: A(1,3) simp del: phys_table.simps)
    ultimately show ?thesis
      using False FQ
      by (simp add: phys_walk_alt T[OF tp(2)] T[OF tp(1)] del: phys_table.simps split: option.split)
  qed
qed

lemma pt_inv_add:
  assumes inv: "pt_inv ok free m r" and add: "addable m r p f i g"
    and ok: "phys_ok ok m'" and eq: "m' = (add_table f i g m)\<lparr>phys_trees := ts\<rparr>"
    and g: "g \<in> phys_free free m" and fr: "phys_free free m' = phys_free free m - {g}"
  shows "pt_inv ok free m' r"
proof -
  let ?m = "add_table f i g m"
  note I = pt_invD[OF inv] and D = addableD[OF add] and A = pmem_add_table[OF addableD(7)[OF add]]
  have mem: "pmem m' = pmem ?m" and c3: "cr3 m' = cr3 m" by (simp_all add: eq)
  have t: "tables m' r = insert g (tables m r)"
    unfolding tables_add[OF I(3) add, symmetric] by (simp only: tables_def phys_table_cong[OF mem])
  have "r \<noteq> g" "cr3 m \<noteq> g" using I(7) g D(6) tables_root by auto
  moreover have "i \<noteq> 510" if "f = r"
    using tables_injD[OF I(3) D(1) tree_path_Nil D(4)] that D(2) by (auto simp: tree_path_def)
  moreover have "f \<noteq> cr3 m" if "cr3 m \<noteq> r" using I(8) that tablesI[OF D(1,4)] by auto
  ultimately have "pmem ?m r 510 = pmem m r 510" "pmem ?m (cr3 m) 510 = pmem m (cr3 m) 510"
    using A(1)[of i m 510] A(3)[of r i m] A(3)[of "cr3 m" i m] by metis+
  then have "recursive ?m r"
    using I(1) by (simp add: recursive_def phys_next_def)
  then have "recursive m' r" by (simp add: recursive_cong[OF mem] c3)
  moreover have "tables_inj m' r" "tables_writable m' r" "tables_huge_ok m' r"
    using tables_inj_add[OF I(3) add] tables_writable_add[OF I(3) add I(4)]
      tables_huge_ok_add[OF I(3) add I(5)]
    by (simp_all only: tables_inj_def tables_writable_def tables_huge_ok_def mem
        phys_table_cong[OF mem] path_writable_cong[OF mem])
  ultimately show ?thesis
    using I(6-8) ok g fr c3 \<open>cr3 m \<noteq> g\<close> unfolding pt_inv_def t by auto
qed

section \<open>Creating the next table\<close>

text \<open>What an operation that only takes memory keeps: registers and the other statics, the
  tables that exist, and every frame that is neither a table nor free.\<close>

definition same_statics :: "('t, 'z) machine_scheme \<Rightarrow> ('t, 'z) machine_scheme \<Rightarrow> bool" where
  "same_statics m m' \<longleftrightarrow> cr3 m' = cr3 m \<and> cr3_flags m' = cr3_flags m \<and> cr0_wp m' = cr0_wp m \<and>
     heap_tree m' = heap_tree m \<and> bootstrap_heap m' = bootstrap_heap m \<and>
     machine.more m' = machine.more m"

definition keeps :: "('t \<Rightarrow> u64 set) \<Rightarrow> u64 \<Rightarrow> ('t, 'z) machine_scheme \<Rightarrow> ('t, 'z) machine_scheme \<Rightarrow> bool" where
  "keeps free r m m' \<longleftrightarrow>
     same_statics m m' \<and>
     (\<forall>q g. tree_path q \<and> phys_table m r q = Some g \<longrightarrow> phys_table m' r q = Some g) \<and>
     (\<forall>g. g \<notin> tables m r \<and> g \<notin> phys_free free m \<longrightarrow> pmem m' g = pmem m g) \<and>
     tables m' r \<subseteq> tables m r \<union> phys_free free m \<and> phys_free free m' \<subseteq> phys_free free m"

definition grows :: "('t \<Rightarrow> u64 set) \<Rightarrow> u64 \<Rightarrow> ('t, 'z) machine_scheme \<Rightarrow> ('t, 'z) machine_scheme \<Rightarrow> bool" where
  "grows free r m m' \<longleftrightarrow> keeps free r m m' \<and> tlb_log m' = tlb_log m \<and>
     (\<forall>page. p4_index page \<noteq> 510 \<longrightarrow> phys_walk m' r page = phys_walk m r page)"

lemma keepsD:
  assumes "keeps free r m m'"
  shows "same_statics m m'"
    and "tree_path q \<Longrightarrow> phys_table m r q = Some g \<Longrightarrow> phys_table m' r q = Some g"
    and "h \<notin> tables m r \<Longrightarrow> h \<notin> phys_free free m \<Longrightarrow> pmem m' h = pmem m h"
    and "tables m' r \<subseteq> tables m r \<union> phys_free free m" and "phys_free free m' \<subseteq> phys_free free m"
  using assms unfolding keeps_def by simp_all

lemma keeps_refl: "keeps free r m m"
  by (simp add: keeps_def same_statics_def)

lemma keeps_trans:
  assumes a: "keeps free r m m1" and b: "keeps free r m1 m2"
  shows "keeps free r m m2"
  unfolding keeps_def
proof (intro conjI allI impI)
  note A = keepsD[OF a] and B = keepsD[OF b]
  from A(1) B(1) show "same_statics m m2" by (simp add: same_statics_def)
  show "phys_table m2 r q = Some g" if "tree_path q \<and> phys_table m r q = Some g" for q g
    using A(2) B(2) that by blast
  show "pmem m2 g = pmem m g" if "g \<notin> tables m r \<and> g \<notin> phys_free free m" for g
  proof -
    have "g \<notin> tables m1 r" "g \<notin> phys_free free m1" using A(4,5) that by auto
    with A(3) B(3) that show ?thesis by simp
  qed
  show "tables m2 r \<subseteq> tables m r \<union> phys_free free m" "phys_free free m2 \<subseteq> phys_free free m"
    using A(4,5) B(4,5) by auto
qed

lemma grows_refl: "grows free r m m"
  by (simp add: grows_def keeps_refl)

lemma grows_trans: "grows free r m m1 \<Longrightarrow> grows free r m1 m2 \<Longrightarrow> grows free r m m2"
  unfolding grows_def using keeps_trans by auto

lemma keeps_tlb: "keeps free r m m' \<Longrightarrow> keeps free r m (m'\<lparr>tlb_log := l\<rparr>)"
proof -
  assume k: "keeps free r m m'"
  have t: "phys_table (m'\<lparr>tlb_log := l\<rparr>) r q = phys_table m' r q" for q
    by (rule phys_table_cong) simp
  have "tables (m'\<lparr>tlb_log := l\<rparr>) r = tables m' r" by (simp add: tables_def t)
  moreover have "phys_free free (m'\<lparr>tlb_log := l\<rparr>) = phys_free free m'" by (simp add: phys_free_def)
  ultimately show ?thesis using k by (simp add: keeps_def same_statics_def t)
qed

text \<open>An allocation that fails changes nothing that matters here.\<close>

lemma alloc_failed:
  assumes inv: "pt_inv ok free m r" and ok: "phys_ok ok (m\<lparr>phys_trees := ts\<rparr>)"
    and fr: "phys_free free (m\<lparr>phys_trees := ts\<rparr>) = phys_free free m"
  shows "pt_inv ok free (m\<lparr>phys_trees := ts\<rparr>) r" and "grows free r m (m\<lparr>phys_trees := ts\<rparr>)"
proof -
  let ?m = "m\<lparr>phys_trees := ts\<rparr>"
  show "pt_inv ok free ?m r" by (rule pt_inv_cong[OF inv _ _ ok]) (simp_all add: fr)
  have mem: "pmem ?m = pmem m" by simp
  have "tables ?m r = tables m r" by (simp only: tables_def phys_table_cong[OF mem])
  then show "grows free r m ?m"
    unfolding grows_def keeps_def same_statics_def by (simp add: phys_table_cong[OF mem] phys_walk_cong[OF mem] fr)
qed

lemma grows_add:
  assumes inv: "pt_inv ok free m r" and add: "addable m r p f i g"
    and eq: "m' = (add_table f i g m)\<lparr>phys_trees := ts\<rparr>"
    and g: "g \<in> phys_free free m" and fr: "phys_free free m' = phys_free free m - {g}"
  shows "grows free r m m'"
  unfolding grows_def keeps_def
proof (intro conjI allI impI)
  note I = pt_invD[OF inv] and D = addableD[OF add] and A = pmem_add_table[OF addableD(7)[OF add]]
  have mem: "pmem m' = pmem (add_table f i g m)" by (simp add: eq)
  show "same_statics m m'"
    by (simp add: same_statics_def eq add_table_def clear_words_def write_word_def)
  show "phys_table m' r q = Some h" if "tree_path q \<and> phys_table m r q = Some h" for q h
    using that phys_table_below[OF add, of q]
    by (auto simp: phys_table_cong[OF mem] phys_table_add[OF I(3) add])
  show "pmem m' h = pmem m h" if "h \<notin> tables m r \<and> h \<notin> phys_free free m" for h
    using that g tablesI[OF D(1,4)] unfolding mem by (intro A(3)) auto
  have "tables m' r = insert g (tables m r)"
    unfolding tables_add[OF I(3) add, symmetric] by (simp only: tables_def phys_table_cong[OF mem])
  then show "tables m' r \<subseteq> tables m r \<union> phys_free free m" using g by auto
  show "phys_free free m' \<subseteq> phys_free free m" by (auto simp: fr)
  show "tlb_log m' = tlb_log m" by (simp add: eq)
  show "phys_walk m' r page = phys_walk m r page" if "p4_index page \<noteq> 510" for page
    by (simp only: phys_walk_cong[OF mem] phys_walk_add[OF I(3) add that])
qed

text \<open>Taking a frame \<open>g\<close> from the allocator and making it the table at \<open>p @ [i]\<close>.\<close>

lemma create_table_run:
  assumes fc: "friendly_contract C ok free" and inv: "pt_inv ok free m r"
    and path: "tree_path (p @ [i])" and tab: "phys_table m r p = Some f"
    and none: "\<not> pte_present (pmem m f i)" "\<not> pte_huge (pmem m f i)"
    and alloc: "phys_allocate C 0 m = Inr (Some g, m\<lparr>phys_trees := ts\<rparr>)"
    and g: "g \<in> phys_free free m"
  shows "addable m r p f i g"
    and "create_table C l (vtab p) i m = Inr (Inr (), (add_table f i g m)\<lparr>phys_trees := ts\<rparr>)"
proof -
  note I = pt_invD[OF inv]
  have "g \<notin> tables m r" using I(6) g by auto
  moreover note b = phys_free_bound[OF fc I(2) g]
  have lt: "g < 2 ^ 48" "g < 2 ^ 52" by (rule order_less_trans[OF b(1)], simp)+
  ultimately show add: "addable m r p f i g"
    using path tab none(1) b by (simp add: addable_def)
  note D = addableD[OF add] and A = pmem_add_table[OF addableD(7)[OF add]]
  note ok = tree_path_snocD[OF path]
  have fr: "f = r \<longrightarrow> i \<noteq> 510"
    using tables_injD[OF I(3) D(1), of "[]"] D(4) path by (auto simp: tree_path_def)
  let ?m1 = "m\<lparr>phys_trees := ts\<rparr>" and ?e = "g OR TABLE_FLAGS"
  let ?m2 = "write_word f i ?e ?m1"
  have mem1: "pmem ?m1 = pmem m" by simp
  have rec1: "recursive ?m1 r" using I(1) by (simp add: recursive_def phys_next_def)
  have tab1: "phys_table ?m1 r p = Some f" using tab by (simp only: phys_table_cong[OF mem1])
  have wr1: "path_writable ?m1 r p"
    using I(4) D(1) tab unfolding tables_writable_def path_writable_cong[OF mem1] by blast
  have t1: "tables ?m1 r = tables m r" by (simp only: tables_def phys_table_cong[OF mem1])
  have inj1: "tables_inj ?m1 r" using I(3) by (simp only: tables_inj_def phys_table_cong[OF mem1])
  have ag: "agree_but ?m1 ?m2 r f i" by (auto simp: agree_but_def)
  have below: "\<not> prefix (p @ [i]) q" if "prefix q p" for q
    using that prefix_length_le[of q p] prefix_length_le[of "p @ [i]" q] by auto
  have tab2: "phys_table ?m2 r q = phys_table ?m1 r q" if "prefix q p" for q
  proof (rule phys_table_agree[OF inj1 D(1) tab1 ag _ below[OF that]])
    show "tree_path q" using D(1) that by (auto elim!: prefixE intro: tree_path_take)
  qed
  have next2: "phys_next ?m2 f i = Some g"
    by (simp add: phys_next_def table_entry[OF D(8,9)])
  have g2: "phys_table ?m2 r (p @ [i]) = Some g"
    using tab2[of p] tab1 next2 by (simp add: phys_table_snoc)
  have wr2: "path_writable ?m2 r (p @ [i])"
    using tab2[of p] tab1 path_writable_agree[OF inj1 D(1) tab1 ag D(1) below tab1] wr1
    by (simp add: path_writable_snoc table_entry[OF D(8,9)])
  have rec2: "recursive ?m2 r"
    by (rule recursive_write[OF rec1 _ _ fr]) (use I(8) tablesI[OF D(1,4)] in \<open>simp_all add: t1\<close>)
  have up: "phys_table ?m2 r q \<noteq> Some g" if "strict_prefix q (p @ [i])" for q
  proof -
    have q: "prefix q p" using that by (auto simp: strict_prefix_def)
    then have "tree_path q" using D(1) by (auto elim!: prefixE intro: tree_path_take)
    then show ?thesis
      using tab2[OF q] D(6) tablesI[of q m r] by (auto simp: phys_table_cong[OF mem1])
  qed
  have "r \<noteq> g" "cr3 m \<noteq> g" using D(6) tables_root I(7) g by auto
  then have zero: "table_zero (vtab (p @ [i])) ?m2 = Inr ((), clear_words g {..<512} ?m2)"
    by (intro table_zero_vtab[OF rec2 ok(4) g2 wr2]) (use up in simp_all)
  have "clear_words g {..<512} ?m2 = (add_table f i g m)\<lparr>phys_trees := ts\<rparr>"
    by (cases m) (simp add: add_table_def clear_words_def write_word_def cong: if_cong)
  moreover have "entry_set g (PRESENT OR WRITABLE OR USER_ACCESSIBLE) ?m1 = Inr (?e, ?m1)"
    using entry_set_run[OF b(2) lt(1)] by (simp add: TABLE_FLAGS_def)
  moreover have "next_page_table (vtab p) i ?m2 = Inr (Some (vtab (p @ [i])), ?m2)"
    using next_page_table_vtab[OF rec2 ok(1-3)] tab2[of p] tab1 next2 by simp
  ultimately show "create_table C l (vtab p) i m = Inr (Inr (), (add_table f i g m)\<lparr>phys_trees := ts\<rparr>)"
    using none(2)
    by (simp add: create_table_def run_simps read_entry_vtab[OF I(1) ok(1,3) tab] contains_flag alloc
        write_entry_vtab[OF rec1 ok(1,3) tab1 wr1] zero)
qed

lemma next_table_create_cases:
  assumes fc: "friendly_contract C ok free" and x: "x86_64_contract C"
    and inv: "pt_inv ok free m r" and path: "tree_path (p @ [i])"
    and tab: "phys_table m r p = Some f" and nohuge: "\<not> pte_huge (pmem m f i)"
  obtains (ok) m' g where
      "next_table_create C l (vtab p) i m = Inr (Some (Inr (vtab (p @ [i]))), m')"
      "pt_inv ok free m' r" "grows free r m m'" "phys_table m' r (p @ [i]) = Some g"
    | (oom) m' where
      "next_table_create C l (vtab p) i m = Inr (Some (Inl OutOfMemory), m')"
      "pt_inv ok free m' r" "grows free r m m'" "phys_allocate C 0 m = Inr (None, m')"
proof -
  note I = pt_invD[OF inv]
  note pok = tree_path_snocD(1-3)[OF path]
  note nx = next_page_table_vtab[OF I(1) pok tab]
  show thesis
  proof (cases "pte_present (pmem m f i)")
    case True
    with nohuge have n: "phys_next m f i = Some (pte_frame (pmem m f i))" by (simp add: phys_next_def)
    show thesis
    proof (rule ok[OF _ inv grows_refl])
      show "next_table_create C l (vtab p) i m = Inr (Some (Inr (vtab (p @ [i]))), m)"
        using nx n by (simp add: next_table_create_def run_simps)
      show "phys_table m r (p @ [i]) = Some (pte_frame (pmem m f i))"
        using n tab by (simp add: phys_table_snoc)
    qed
  next
    case False
    then have n: "next_page_table (vtab p) i m = Inr (None, m)" using nx by (simp add: phys_next_def)
    from fc x I(2) show thesis
    proof (cases rule: phys_allocate_cases[where order = 0])
      case (got g ts)
      let ?m = "(add_table f i g m)\<lparr>phys_trees := Some ts\<rparr>"
      have g: "g \<in> phys_free free m" using got(3) by simp
      note c = create_table_run[OF fc inv path tab False nohuge got(1) g]
      have fr: "phys_free free ?m = phys_free free m - {g}" and okm: "phys_ok ok ?m"
        using got(2,4) by (simp_all add: phys_free_def phys_ok_def)
      note inv' = pt_inv_add[OF inv c(1) okm refl g fr]
      have mem: "pmem ?m = pmem (add_table f i g m)" by simp
      have t: "phys_table ?m r (p @ [i]) = Some g"
        unfolding phys_table_cong[OF mem] phys_table_add[OF I(3) c(1) path] by simp
      then obtain h where h: "phys_table ?m r p = Some h" "phys_next ?m h i = Some g"
        by (auto simp: phys_table_snoc split: option.splits)
      have "next_page_table (vtab p) i ?m = Inr (Some (vtab (p @ [i])), ?m)"
        using next_page_table_vtab[OF pt_invD(1)[OF inv'] pok h(1)] h(2) by simp
      then have "next_table_create C l (vtab p) i m = Inr (Some (Inr (vtab (p @ [i]))), ?m)"
        by (simp add: next_table_create_def run_simps n c(2))
      then show thesis
        by (rule ok[OF _ inv' grows_add[OF inv c(1) refl g fr] t])
    next
      case (out ts)
      note a = alloc_failed[OF inv out(2,3)]
      have "next_table_create C l (vtab p) i m = Inr (Some (Inl OutOfMemory), m\<lparr>phys_trees := Some ts\<rparr>)"
        using nohuge
        by (simp add: next_table_create_def create_table_def run_simps n out(1) contains_flag
            read_entry_vtab[OF I(1) pok(1,3) tab])
      then show thesis by (rule oom[OF _ a out(1)])
    qed
  qed
qed

lemma next_table_create_huge:
  assumes inv: "pt_inv ok free m r" and path: "tree_path (p @ [i])"
    and tab: "phys_table m r p = Some f" and huge: "pte_huge (pmem m f i)" and l: "CAN_BE_HUGE l"
  shows "next_table_create C l (vtab p) i m = Inr (None, m)"
proof -
  note pok = tree_path_snocD(1-3)[OF path]
  have "next_page_table (vtab p) i m = Inr (None, m)"
    using next_page_table_vtab[OF pt_invD(1)[OF inv] pok tab] huge by (simp add: phys_next_def)
  then show ?thesis
    using huge l
    by (simp add: next_table_create_def create_table_def run_simps contains_flag
        read_entry_vtab[OF pt_invD(1)[OF inv] pok(1,3) tab])
qed

end
