(* ===== verification/Page_Mapping.thy ===== *)
theory Page_Mapping
  imports Page_Tables
begin

text \<open>
  What the methods of \<open>Mapper\<close> do to the translation of pages.  Under the invariant of the
  page tables, \<open>map_to\<close> and \<open>unmap\<close> return, change the translation of the one page they are
  asked to change and of no other page, leave memory outside the page tables alone, and
  keep the invariant; the methods over ranges of pages follow from them.
\<close>

section \<open>Writing the entry of a page\<close>

text \<open>The four table indices of a page: what the hardware sees of its number.\<close>

definition page_indices :: "page \<Rightarrow> u64 list" where
  "page_indices page = page_path page @ [p1_index page]"

lemma keeps_leaf_write:
  assumes inv: "pt_inv ok free m r" and p: "tree_path p" "phys_table m r p = Some f"
    and leaf: "leaf_entry (length p) (pmem m f i)" "leaf_entry (length p) v"
  shows "keeps free r m (write_word f i v m)"
proof -
  note T = phys_table_leaf_write(1)[OF pt_invD(3)[OF inv] p leaf]
  have "tables (write_word f i v m) r = tables m r" unfolding tables_def by (auto simp: T)
  moreover have "pmem (write_word f i v m) g = pmem m g" if "g \<notin> tables m r" for g
    using that tablesI[OF p] by (auto simp: write_word_def)
  moreover have "machine.more (write_word f i v m) = machine.more m" by (simp add: write_word_def)
  ultimately show ?thesis by (simp add: keeps_def T same_statics_def phys_free_def)
qed

lemma walk_leaf_write:
  assumes inv: "pt_inv ok free m r" and page: "p4_index page \<noteq> 510"
    and tab: "phys_table m r (page_path page) = Some f" and page': "p4_index page' \<noteq> 510"
  shows "phys_walk (write_word f (p1_index page) v m) r page' =
    (if page_indices page' = page_indices page
     then if pte_present v then Some (v, Kib4) else None
     else phys_walk m r page')"
proof -
  let ?m = "write_word f (p1_index page) v m"
  note tp = tree_path_page[OF page] and tp' = tree_path_page[OF page'] and I = pt_invD[OF inv]
  have len: "length (page_path page) = 3" "length (page_path page') = 3" by (simp_all add: page_path_def)
  have leaf: "leaf_entry (length (page_path page)) e" for e by (simp add: leaf_entry_def len)
  note T = phys_table_leaf_write(1)[OF I(3) tp(3) tab leaf leaf]
  have same: "q = page_path page" if "tree_path q" "phys_table m r q = Some f" for q
    by (rule tables_injD[OF I(3) that(1) tp(3) that(2) tab])
  have Q: "g \<noteq> f" if "phys_table m r [p4_index page', p3_index page'] = Some g" for g
    using same[OF tp'(2)] that by (auto simp: page_path_def simp del: phys_table.simps)
  show ?thesis
  proof (cases "phys_table m r (page_path page') = Some f")
    case True
    with same[OF tp'(3)] tab show ?thesis
      by (simp add: phys_walk_alt T[OF tp'(3)] T[OF tp(3)] page_indices_def)
  next
    case False
    then have "page_indices page' \<noteq> page_indices page" using tab by (auto simp: page_indices_def)
    with False Q show ?thesis
      by (auto simp: phys_walk_alt T[OF tp'(3)] T[OF tp'(2)] simp del: phys_table.simps
          split: option.split)
  qed
qed

section \<open>Mapping a page to a frame\<close>

lemma start_address_run:
  assumes "page_size page = Some Kib4" and "number page < 2 ^ 52"
  shows "start_address chk page m = Inr (Some (number page * 4096), m)"
proof -
  have "unat (number page) * 4096 < 2 ^ 64" using assms(2) by (simp add: word_less_nat_alt)
  with assms(1) show ?thesis by (simp add: start_address_def run_simps)
qed

lemma flush_page_run:
  assumes "x86_64_contract C" and "page_size page = Some Kib4" and "number page < 2 ^ 52"
    and "canonical (number page * 4096)"
  shows "flush_page C page invplg m = Inr ((), m\<lparr>tlb_log := tlb_log m @
    (if invplg = Invalidate then [Flush (number page * 4096)] else [])\<rparr>)"
  using assms by (simp add: flush_page_def run_simps start_address_run)

text \<open>Pages the mapper is used on: 4 KiB pages at canonical addresses outside the region of
  the recursive entry; and what may be mapped there.\<close>

definition mappable :: "page \<Rightarrow> bool" where
  "mappable page \<longleftrightarrow> page_size page = Some Kib4 \<and> number page < 2 ^ 52 \<and>
     canonical (number page * 4096) \<and> p4_index page \<noteq> 510"

definition entry_args :: "u64 \<Rightarrow> u64 \<Rightarrow> bool" where
  "entry_args pa flags \<longleftrightarrow> pa AND 0xFFF = 0 \<and> pa < 2 ^ 48 \<and> flags AND 0x000FFFFFFFFFF000 = 0"

lemma mappableD:
  assumes "mappable page"
  shows "page_size page = Some Kib4" "number page < 2 ^ 52" "canonical (number page * 4096)"
    "p4_index page \<noteq> 510"
  using assms by (auto simp: mappable_def)

lemma entry_args_present:
  assumes "entry_args pa flags"
  shows "pte_present (pa OR (flags OR PRESENT))" "pte_frame (pa OR (flags OR PRESENT)) = pa"
    "entry_set pa (flags OR PRESENT) s = Inr (pa OR (flags OR PRESENT), s)"
proof -
  have a: "pa AND 0xFFF = 0" "pa < 2 ^ 48" and f: "(flags OR PRESENT) AND 0x000FFFFFFFFFF000 = 0"
    using assms by (simp_all add: entry_args_def PRESENT_def bit.conj_disj_distrib2)
  have lt: "pa < 2 ^ 52" by (rule order_less_trans[OF a(2)]) simp
  show "pte_frame (pa OR (flags OR PRESENT)) = pa" by (rule entry_fields(1)[OF a(1) lt f])
  have "bit (pa OR (flags OR PRESENT)) 0 = bit (flags OR PRESENT) 0"
    by (rule entry_fields(2)[OF a(1) lt f]) simp
  then show "pte_present (pa OR (flags OR PRESENT))"
    by (simp add: pte_present_def PRESENT_def bit_or_iff)
  show "entry_set pa (flags OR PRESENT) s = Inr (pa OR (flags OR PRESENT), s)"
    by (rule entry_set_run[OF a])
qed

lemma not_huge_above:
  assumes inv: "pt_inv ok free m r" and page: "p4_index page \<noteq> 510"
  shows "\<not> pte_huge (pmem m r (p4_index page))"
    and "phys_table m r [p4_index page] = Some p3 \<Longrightarrow> \<not> pte_huge (pmem m p3 (p3_index page))"
    and "phys_table m r [p4_index page, p3_index page] = Some p2 \<Longrightarrow> pte_huge (pmem m p2 (p2_index page)) \<Longrightarrow>
      phys_walk m r page = Some (pmem m p2 (p2_index page), Mib2)"
proof -
  note h = pt_invD(5)[OF inv, unfolded tables_huge_ok_def, rule_format] and tp = tree_path_page[OF page]
  show "\<not> pte_huge (pmem m r (p4_index page))"
    using h[of "[]" r "p4_index page"] page by (simp add: huge_ok_def)
  show "phys_table m r [p4_index page] = Some p3 \<Longrightarrow> \<not> pte_huge (pmem m p3 (p3_index page))"
    using h[of "[p4_index page]" p3 "p3_index page"] tp(1) by (auto simp: huge_ok_def)
  show "phys_walk m r page = Some (pmem m p2 (p2_index page), Mib2)"
    if "phys_table m r [p4_index page, p3_index page] = Some p2" "pte_huge (pmem m p2 (p2_index page))"
    using h[of "[p4_index page, p3_index page]" p2 "p2_index page"] tp(2) that
    by (simp add: huge_ok_def phys_walk_def del: phys_table.simps)
qed

lemma panic_unless_True: "bind (panic_unless True msg) g = g ()"
  by (rule ext) (simp add: run_simps)

text \<open>The three tables on the way to a page.\<close>

lemma map_to_tables:
  assumes fc: "friendly_contract C ok free" and x: "x86_64_contract C" and inv: "pt_inv ok free m r"
    and page: "p4_index page \<noteq> 510" and nohuge: "\<forall>e. phys_walk m r page \<noteq> Some (e, Mib2)"
  obtains (ok) m' p1 where "pt_inv ok free m' r" "grows free r m m'"
      "phys_table m' r (page_path page) = Some p1"
      "\<And>k :: u64 \<Rightarrow> _ \<Rightarrow> (_, OutOfMemory + unit) comp. bind_res (expect_table ''No next p3 table!'' C Level4 P4 (p4_index page)) (\<lambda>p3.
         bind_res (expect_table ''No next p2 table!'' C Level3 p3 (p3_index page)) (\<lambda>p2.
         bind (next_table_create C Level2 p2 (p2_index page)) (k p2))) m
       = k (vtab [p4_index page, p3_index page]) (Some (Inr (vtab (page_path page)))) m'"
    | (oom) m0 m' where "pt_inv ok free m' r" "grows free r m m0" "grows free r m m'"
      "phys_allocate C 0 m0 = Inr (None, m')"
      "\<And>k :: u64 \<Rightarrow> _ \<Rightarrow> (_, OutOfMemory + unit) comp. (\<And>p2 m. k p2 (Some (Inl OutOfMemory)) m = Inr (Inl OutOfMemory, m)) \<Longrightarrow>
       bind_res (expect_table ''No next p3 table!'' C Level4 P4 (p4_index page)) (\<lambda>p3.
         bind_res (expect_table ''No next p2 table!'' C Level3 p3 (p3_index page)) (\<lambda>p2.
         bind (next_table_create C Level2 p2 (p2_index page)) (k p2))) m
       = Inr (Inl OutOfMemory, m')"
proof -
  let ?i4 = "p4_index page" and ?i3 = "p3_index page" and ?i2 = "p2_index page"
  note tp = tree_path_page[OF page]
  have tp': "tree_path ([] @ [?i4])" "tree_path ([?i4] @ [?i3])" "tree_path ([?i4, ?i3] @ [?i2])"
    using tp by (simp_all add: page_path_def)
  have app: "[] @ [?i4] = [?i4]" "[?i4] @ [?i3] = [?i4, ?i3]" "[?i4, ?i3] @ [?i2] = page_path page"
    by (simp_all add: page_path_def)
  from fc x inv tp'(1) phys_table.simps(1) not_huge_above(1)[OF inv page] show thesis
  proof (cases rule: next_table_create_cases[where l = Level4])
    case (oom m1)
    show thesis
      by (rule that(2)[OF oom(2) grows_refl oom(3,4)])
        (simp add: expect_table_def P4_vtab oom(1) run_simps)
  next
    case (ok m1 p3)
    note s1 = ok[unfolded app]
    have h3: "\<not> pte_huge (pmem m1 p3 ?i3)" using not_huge_above(2)[OF s1(2) page s1(4)] .
    from fc x s1(2) tp'(2) s1(4) h3 show thesis
    proof (cases rule: next_table_create_cases[where l = Level3])
      case (oom m2)
      show thesis
        by (rule that(2)[OF oom(2) s1(3) grows_trans[OF s1(3) oom(3)] oom(4)])
          (simp add: expect_table_def P4_vtab s1(1) oom(1) run_simps)
    next
      case (ok m2 p2)
      note s2 = ok[unfolded app] and g2 = grows_trans[OF s1(3) ok(3)]
      have "phys_walk m2 r page = phys_walk m r page" using g2 page by (simp add: grows_def)
      then have h2: "\<not> pte_huge (pmem m2 p2 ?i2)"
        using not_huge_above(3)[OF s2(2) page s2(4)] nohuge by auto
      from fc x s2(2) tp'(3) s2(4) h2 show thesis
      proof (cases rule: next_table_create_cases[where l = Level2])
        case (oom m3)
        show thesis
          by (rule that(2)[OF oom(2) g2 grows_trans[OF g2 oom(3)] oom(4)])
            (simp add: expect_table_def P4_vtab s1(1) s2(1) oom(1) run_simps)
      next
        case (ok m3 p1)
        note s3 = ok[unfolded app]
        show thesis
          by (rule that(1)[OF s3(2) grows_trans[OF g2 s3(3)] s3(4)])
            (simp add: expect_table_def P4_vtab s1(1) s2(1) s3(1) run_simps)
      qed
    qed
  qed
qed

text \<open>\<open>map_to\<close> either sets the entry of the page and nothing else, or runs out of memory for
  page tables and changes no translation.\<close>

lemma map_to_cases:
  assumes fc: "friendly_contract C ok free" and x: "x86_64_contract C" and inv: "pt_inv ok free m r"
    and page: "mappable page" and args: "entry_args pa flags"
    and nohuge: "\<forall>e. phys_walk m r page \<noteq> Some (e, Mib2)"
  obtains (ok) m' where "map_to C page pa flags invplg m = Inr (Inr (), m')"
      "pt_inv ok free m' r" "keeps free r m m'"
      "\<And>page'. p4_index page' \<noteq> 510 \<Longrightarrow> phys_walk m' r page' =
         (if page_indices page' = page_indices page then Some (pa OR (flags OR PRESENT), Kib4)
          else phys_walk m r page')"
      "tlb_log m' = tlb_log m @ (if invplg = Invalidate then [Flush (number page * 4096)] else [])"
    | (oom) m0 m' where "map_to C page pa flags invplg m = Inr (Inl OutOfMemory, m')"
      "pt_inv ok free m' r" "grows free r m m'"
      "grows free r m m0" "phys_allocate C 0 m0 = Inr (None, m')"
proof -
  note P = mappableD[OF page] and E = entry_args_present[OF args]
  let ?e = "pa OR (flags OR PRESENT)"
  from fc x inv P(4) nohuge show thesis
  proof (cases rule: map_to_tables)
    case (oom m0 m')
    show thesis
      by (rule that(2)[OF _ oom(1,3,2,4)])
        (simp add: map_to_def P(1) panic_unless_True, rule oom(5), simp add: bind_res_run ret_def)
  next
    case (ok m1 p1)
    let ?m2 = "write_word p1 (p1_index page) ?e m1"
    let ?m3 = "?m2\<lparr>tlb_log := tlb_log ?m2 @
      (if invplg = Invalidate then [Flush (number page * 4096)] else [])\<rparr>"
    have leaf: "leaf_entry (length (page_path page)) e" "huge_ok (length (page_path page)) e" for e
      by (simp_all add: leaf_entry_def huge_ok_def page_path_def)
    note tp = tree_path_page(3)[OF P(4)] and I = pt_invD[OF ok(1)]
    have wr: "path_writable m1 r (page_path page)"
      using I(4) tp ok(3) unfolding tables_writable_def by blast
    have inv2: "pt_inv ok free ?m2 r"
      by (rule pt_inv_leaf_write[OF ok(1) tp ok(3) _ _ leaf(1,1,2)]) (simp_all add: page_path_def)
    have w: "write_entry (vtab (page_path page)) (p1_index page) ?e m1 = Inr ((), ?m2)"
      by (rule write_entry_vtab[OF I(1) _ _ ok(3) wr]) simp_all
    show thesis
    proof (rule that(1))
      show "map_to C page pa flags invplg m = Inr (Inr (), ?m3)"
        unfolding map_to_def
        by (simp add: P(1) ok(4) panic_unless_True run_simps E(3) w flush_page_run[OF x P(1-3)])
      show "pt_inv ok free ?m3 r" using inv2 by (simp only: pt_inv_tlb)
      have "keeps free r m m1" using ok(2) by (simp add: grows_def)
      then show "keeps free r m ?m3"
        by (rule keeps_tlb[OF keeps_trans[OF _ keeps_leaf_write[OF ok(1) tp ok(3) leaf(1,1)]]])
      show "phys_walk ?m3 r page' = (if page_indices page' = page_indices page
          then Some (?e, Kib4) else phys_walk m r page')" if "p4_index page' \<noteq> 510" for page'
      proof -
        have "phys_walk ?m3 r page' = phys_walk ?m2 r page'" by (rule phys_walk_cong) simp
        also have "\<dots> = (if page_indices page' = page_indices page
            then Some (?e, Kib4) else phys_walk m1 r page')"
          using walk_leaf_write[OF ok(1) P(4) ok(3) that] E(1) by simp
        finally show ?thesis using ok(2) that by (simp add: grows_def)
      qed
      show "tlb_log ?m3 = tlb_log m @ (if invplg = Invalidate then [Flush (number page * 4096)] else [])"
        using ok(2) by (simp add: grows_def)
    qed
  qed
qed

text \<open>With the tables in place \<open>map_to\<close> succeeds.\<close>

lemma map_to_existing:
  assumes x: "x86_64_contract C" and inv: "pt_inv ok free m r" and page: "mappable page"
    and args: "entry_args pa flags" and tab: "phys_table m r (page_path page) = Some p1"
  shows "\<exists>m'. map_to C page pa flags invplg m = Inr (Inr (), m')"
proof -
  note P = mappableD[OF page] and rec = pt_invD(1)[OF inv]
  from tab obtain p3 p2 where t: "phys_next m r (p4_index page) = Some p3"
    "phys_next m p3 (p3_index page) = Some p2" "phys_next m p2 (p2_index page) = Some p1"
    by (auto simp: page_path_def split: option.splits)
  have t2: "phys_table m r [p4_index page, p3_index page] = Some p2" using t by simp
  have nx: "next_page_table P4 (p4_index page) m = Inr (Some (vtab [p4_index page]), m)"
    "next_page_table (vtab [p4_index page]) (p3_index page) m
      = Inr (Some (vtab [p4_index page, p3_index page]), m)"
    "next_page_table (vtab [p4_index page, p3_index page]) (p2_index page) m
      = Inr (Some (vtab (page_path page)), m)"
    using next_tables(1)[OF rec, of page] next_tables(2)[OF rec t(1)] next_tables(3)[OF rec t2] t
    by simp_all
  have "path_writable m r (page_path page)"
    using pt_invD(4)[OF inv] tree_path_page(3)[OF P(4)] tab unfolding tables_writable_def by blast
  then have "write_entry (vtab (page_path page)) (p1_index page) e m
      = Inr ((), write_word p1 (p1_index page) e m)" for e
    by (intro write_entry_vtab[OF rec _ _ tab]) simp_all
  then show ?thesis
    by (simp add: map_to_def expect_table_def next_table_create_def run_simps nx P(1)
        entry_args_present(3)[OF args] flush_page_run[OF x P(1-3)])
qed

section \<open>Accessing a mapped page\<close>

lemma bit_7: "bit (7 :: u64) n \<longleftrightarrow> n < 3"
proof -
  have "(7 :: u64) = mask 3" by (simp add: mask_eq_exp_minus_1)
  then show ?thesis by (simp only: bit_mask_iff) auto
qed

lemma bit_page_word:
  assumes "i < 512"
  shows "number page * 4096 + 8 * i = push_bit 12 (number page) OR push_bit 3 i"
proof -
  have "bit (push_bit 12 (number page) AND push_bit 3 i) n = False" for n
    using index_bit[OF assms, of "n - 3"] by (auto simp: bit_and_iff bit_push_bit_iff)
  then have "push_bit 12 (number page) AND push_bit 3 i = 0" by (intro bit_eqI) simp
  then have "push_bit 12 (number page) + push_bit 3 i = push_bit 12 (number page) OR push_bit 3 i"
    by (simp add: disjunctive_add_eq_or)
  then show ?thesis by (simp add: push_bit_eq_mult ac_simps)
qed

lemma va_page_word:
  fixes page :: page
  assumes "i < 512"
  defines "va \<equiv> number page * 4096 + 8 * i"
  shows "va_p4 va = p4_index page" "va_p3 va = p3_index page" "va_p2 va = p2_index page"
    "va_p1 va = p1_index page" "va_word va = i" "canonical va = canonical (number page * 4096)"
proof -
  have b: "bit va n \<longleftrightarrow> n < 64 \<and> (12 \<le> n \<and> bit (number page) (n - 12) \<or> 3 \<le> n \<and> bit i (n - 3))" for n
    unfolding va_def bit_page_word[OF assms(1)] by (auto simp: bit_or_iff bit_push_bit_iff)
  have i: "bit i n \<Longrightarrow> n < 9" for n using index_bit[OF assms(1)] by blast
  have b12: "12 \<le> n \<Longrightarrow> bit va n \<longleftrightarrow> n < 64 \<and> bit (number page) (n - 12)" for n
    using i[of "n - 3"] by (auto simp: b)
  show "va_p4 va = p4_index page" "va_p3 va = p3_index page" "va_p2 va = p2_index page"
    "va_p1 va = p1_index page"
    unfolding va_p4_def va_p3_def va_p2_def va_p1_def p4_index_def p3_index_def p2_index_def p1_index_def
    by (intro bit_eqI, auto simp: bit_and_iff bit_drop_bit_eq b12 bit_511)+
  show "va_word va = i"
    unfolding va_word_def
    by (intro bit_eqI) (auto simp: bit_and_iff bit_drop_bit_eq b bit_511 dest: i)
  have "bit (number page * 4096) n \<longleftrightarrow> n < 64 \<and> 12 \<le> n \<and> bit (number page) (n - 12)" for n
    using bit_page_word[of 0 page] by (auto simp: bit_push_bit_iff)
  then have "drop_bit 47 va = drop_bit 47 (number page * 4096)"
    by (intro bit_eqI) (auto simp: bit_drop_bit_eq b12)
  then show "canonical va = canonical (number page * 4096)" by (simp add: canonical_def)
qed

lemma mmu_page:
  assumes "mappable page" and "cr3 m = r" and "i < 512"
    and tab: "phys_table m r (page_path page) = Some p1"
    and e: "pmem m p1 (p1_index page) = e" "pte_present e"
  shows "\<exists>u. mmu_translate m (number page * 4096 + 8 * i) =
    Some (pte_frame e, path_writable m r (page_path page) \<and> pte_writable e, u)"
  using tab e(2) assms(2) va_page_word[OF assms(3), of page] mappableD(3)[OF assms(1)]
  by (auto simp: mmu_translate_def page_path_def phys_next_Some Let_def e(1)[symmetric]
      split: option.splits)

text \<open>Writes to a frame that holds no table leave the tables alone.\<close>

lemma phys_table_data:
  assumes data: "\<forall>f \<in> tables m r. pmem m' f = pmem m f" and q: "tree_path q"
  shows "phys_table m' r q = phys_table m r q"
    and "phys_table m r q = Some h \<Longrightarrow> path_writable m' r q = path_writable m r q"
proof -
  have a: "pmem m' f = pmem m f" if "strict_prefix p q" "phys_table m r p = Some f" for p f
  proof (rule data[rule_format], rule tablesI[OF _ that(2)])
    show "tree_path p" using that(1) q by (auto simp: strict_prefix_def elim!: prefixE intro: tree_path_take)
  qed
  show "phys_table m' r q = phys_table m r q" by (rule phys_table_along(1)) (rule a)
  show "path_writable m' r q = path_writable m r q" if "phys_table m r q = Some h"
    by (rule phys_table_along(2)[OF _ that]) (rule a)
qed

text \<open>Clearing a mapped page clears its frame.\<close>

lemma memset_page:
  assumes page: "mappable page" and "cr3 m = r"
    and "phys_table m r (page_path page) = Some p1" and "pmem m p1 (p1_index page) = e"
    and e: "pte_present e" and "pte_frame e \<notin> tables m r"
    and "path_writable m r (page_path page)" and w: "pte_writable e \<or> \<not> cr0_wp m"
  shows "memset_volatile_64bit (number page * 4096) 0 4096 m
    = Inr (number page * 4096, clear_words (pte_frame e) {..<512} m)"
proof -
  let ?f = "pte_frame e" and ?a = "number page * 4096"
  note tp = tree_path_page(3)[OF mappableD(4)[OF page]]
  have loop: "for_each xs (\<lambda>i. vwrite (?a + 8 * i) 0) m = Inr ((), clear_words ?f (set xs) m)"
    if "\<forall>x \<in> set xs. x < 512" for xs
    using that assms(2-4,6-8)
  proof (induction xs arbitrary: m)
    case Nil
    then show ?case by (simp add: ret_def clear_words_def)
  next
    case (Cons x xs)
    let ?m = "write_word ?f x 0 m"
    have x: "x < 512" using Cons.prems(1) by simp
    have data: "\<forall>f \<in> tables m r. pmem ?m f = pmem m f"
      using Cons.prems(5) by (auto simp: write_word_def)
    note T = phys_table_data[OF data]
    have t: "tables ?m r = tables m r" unfolding tables_def by (auto simp: T(1))
    have "vwrite (?a + 8 * x) 0 m = Inr ((), ?m)"
      using mmu_page[OF page Cons.prems(2) x Cons.prems(3,4) e] Cons.prems(6,7) va_page_word(5)[OF x]
      by (auto simp: vwrite_def)
    moreover have "for_each xs (\<lambda>i. vwrite (?a + 8 * i) 0) ?m = Inr ((), clear_words ?f (set xs) ?m)"
      using Cons.prems bspec[OF data tablesI[OF tp Cons.prems(3)]]
      by (intro Cons.IH) (simp_all add: T(1)[OF tp] T(2)[OF tp Cons.prems(3)] t)
    ultimately show ?case by (simp add: run_simps clear_words_write)
  qed
  have set: "set (range_excl 0 512) = {..<512 :: u64}" by (auto simp: set_range_excl)
  have "for_each (range_excl 0 512) (\<lambda>i. vwrite (?a + 8 * i) 0) m
      = Inr ((), clear_words ?f {..<512} m)"
    using loop[of "range_excl 0 512"] unfolding set by simp
  moreover have "?a AND 7 = 0"
    using bit_page_word[of 0 page] by (auto intro!: bit_eqI simp: bit_and_iff bit_push_bit_iff bit_7)
  ultimately show ?thesis by (simp add: memset_volatile_64bit_def run_simps)
qed

section \<open>Unmapping a page\<close>

lemma walk_tables:
  assumes "phys_walk m r page = Some (e, Kib4)"
  obtains p3 p2 p1 where "phys_next m r (p4_index page) = Some p3"
    "phys_table m r [p4_index page, p3_index page] = Some p2"
    "phys_next m p2 (p2_index page) = Some p1" "phys_table m r (page_path page) = Some p1"
    "pmem m p1 (p1_index page) = e" "pte_present e"
proof -
  obtain p1 where t: "phys_table m r (page_path page) = Some p1" and e: "pmem m p1 (p1_index page) = e"
    "pte_present e"
    using assms by (auto simp: phys_walk_alt Let_def simp del: phys_table.simps
        split: option.splits if_splits)
  from t obtain p3 p2 where "phys_next m r (p4_index page) = Some p3"
    "phys_next m p3 (p3_index page) = Some p2" "phys_next m p2 (p2_index page) = Some p1"
    by (auto simp: page_path_def split: option.splits)
  with that[of p3 p2 p1] t e show thesis by simp
qed

lemma unmap_run:
  assumes x: "x86_64_contract C" and inv: "pt_inv ok free m r" and page: "mappable page"
    and walk: "phys_walk m r page = Some (e, Kib4)"
  obtains p1 where "phys_table m r (page_path page) = Some p1" "pmem m p1 (p1_index page) = e"
    "unmap C page fr invplg m =
       bind (if fr = Free then phys_deallocate C (pte_frame e) 0 else ret ())
         (\<lambda>_. flush_page C page invplg) (write_word p1 (p1_index page) 0 m)"
proof -
  note P = mappableD[OF page] and rec = pt_invD(1)[OF inv]
  from walk obtain p3 p2 p1 where t: "phys_next m r (p4_index page) = Some p3"
    "phys_table m r [p4_index page, p3_index page] = Some p2"
    "phys_next m p2 (p2_index page) = Some p1" "phys_table m r (page_path page) = Some p1"
    and e: "pmem m p1 (p1_index page) = e" "pte_present e"
    by (rule walk_tables)
  have t3: "phys_next m p3 (p3_index page) = Some p2" using t(1,2) by (simp split: option.splits)
  note nx = next_tables(1)[OF rec, of page] next_tables(2)[OF rec t(1)] next_tables(3)[OF rec t(2)]
  have rd: "read_entry (vtab (page_path page)) (p1_index page) m = Inr (e, m)"
    using read_entry_vtab[OF rec _ _ t(4), of "p1_index page"] e by simp
  have "path_writable m r (page_path page)"
    using pt_invD(4)[OF inv] tree_path_page(3)[OF P(4)] t(4) unfolding tables_writable_def by blast
  then have wr: "write_entry (vtab (page_path page)) (p1_index page) 0 m
      = Inr ((), write_word p1 (p1_index page) 0 m)"
    by (intro write_entry_vtab[OF rec _ _ t(4)]) simp_all
  have wk: "walk_page_table C page m = Inr (Some (e, Kib4), m)"
    using walk_page_table_phys[OF rec x pt_inv_walk_supported[OF inv P(4)]] walk by simp
  have "unmap C page fr invplg m =
       bind (if fr = Free then phys_deallocate C (pte_frame e) 0 else ret ())
         (\<lambda>_. flush_page C page invplg) (write_word p1 (p1_index page) 0 m)"
    using e(2) t(1,3) t3
    by (simp add: unmap_def run_simps start_address_run[OF P(1,2)] wk nx rd wr bind_assoc
        physical_address_run[OF x])
  with t(4) e(1) show thesis by (rule that)
qed

lemma pt_inv_dealloc:
  assumes inv: "pt_inv ok free m r" and ok: "phys_ok ok (m\<lparr>phys_trees := ts\<rparr>)"
    and fr: "phys_free free (m\<lparr>phys_trees := ts\<rparr>) = phys_free free m \<union> {f}"
    and f: "f \<notin> tables m r" "f \<noteq> cr3 m"
  shows "pt_inv ok free (m\<lparr>phys_trees := ts\<rparr>) r"
proof -
  let ?m = "m\<lparr>phys_trees := ts\<rparr>"
  note I = pt_invD[OF inv]
  have mem: "pmem ?m = pmem m" and c: "cr3 ?m = cr3 m" by simp_all
  have t: "tables ?m r = tables m r" by (simp only: tables_def phys_table_cong[OF mem])
  have "tables_inj ?m r" "tables_writable ?m r" "tables_huge_ok ?m r"
    using I(3-5) by (simp_all only: tables_inj_def tables_writable_def tables_huge_ok_def mem
        phys_table_cong[OF mem] path_writable_cong[OF mem])
  moreover have "recursive ?m r" using I(1) by (simp only: recursive_cong[OF mem c])
  ultimately show ?thesis using I(6-8) ok fr f unfolding pt_inv_def t by auto
qed

text \<open>\<open>unmap\<close> of a 4 KiB page removes the translation of that page only.\<close>

lemma unmap_keep:
  assumes x: "x86_64_contract C" and inv: "pt_inv ok free m r" and page: "mappable page"
    and walk: "phys_walk m r page = Some (e, Kib4)"
  obtains m' where "unmap C page NoFree invplg m = Inr ((), m')" "pt_inv ok free m' r" "keeps free r m m'"
    "\<And>page'. p4_index page' \<noteq> 510 \<Longrightarrow> phys_walk m' r page' =
       (if page_indices page' = page_indices page then None else phys_walk m r page')"
    "tlb_log m' = tlb_log m @ (if invplg = Invalidate then [Flush (number page * 4096)] else [])"
    "phys_free free m' = phys_free free m"
proof -
  note P = mappableD[OF page] and tp = tree_path_page(3)[OF mappableD(4)[OF page]]
  from x inv page walk obtain p1 where p1: "phys_table m r (page_path page) = Some p1"
    "pmem m p1 (p1_index page) = e" "unmap C page NoFree invplg m =
       bind (if NoFree = Free then phys_deallocate C (pte_frame e) 0 else ret ())
         (\<lambda>_. flush_page C page invplg) (write_word p1 (p1_index page) 0 m)"
    by (rule unmap_run)
  let ?m2 = "write_word p1 (p1_index page) 0 m"
  let ?m3 = "?m2\<lparr>tlb_log := tlb_log ?m2 @
      (if invplg = Invalidate then [Flush (number page * 4096)] else [])\<rparr>"
  have leaf: "leaf_entry (length (page_path page)) e" "huge_ok (length (page_path page)) e" for e
    by (simp_all add: leaf_entry_def huge_ok_def page_path_def)
  show thesis
  proof (rule that)
    show "unmap C page NoFree invplg m = Inr ((), ?m3)"
      by (simp add: p1(3) run_simps flush_page_run[OF x P(1-3)])
    have "pt_inv ok free ?m2 r"
      by (rule pt_inv_leaf_write[OF inv tp p1(1) _ _ leaf(1,1,2)]) (simp_all add: page_path_def)
    then show "pt_inv ok free ?m3 r" by (simp only: pt_inv_tlb)
    show "keeps free r m ?m3"
      by (rule keeps_tlb[OF keeps_leaf_write[OF inv tp p1(1) leaf(1,1)]])
    show "phys_walk ?m3 r page' = (if page_indices page' = page_indices page then None
        else phys_walk m r page')" if "p4_index page' \<noteq> 510" for page'
    proof -
      have "phys_walk ?m3 r page' = phys_walk ?m2 r page'" by (rule phys_walk_cong) simp
      then show ?thesis
        using walk_leaf_write[OF inv P(4) p1(1) that, of 0] by (simp add: pte_present_def)
    qed
    show "tlb_log ?m3 = tlb_log m @ (if invplg = Invalidate then [Flush (number page * 4096)] else [])"
      by simp
    show "phys_free free ?m3 = phys_free free m" by (simp add: phys_free_def)
  qed
qed

lemma dealloc_trees:
  assumes "phys_deallocate C f order m = Inr ((), m')" and "phys_trees m1 = phys_trees m"
  shows "phys_deallocate C f order m1 = Inr ((), m1\<lparr>phys_trees := phys_trees m'\<rparr>)"
  using assms
  by (auto simp: phys_deallocate_def Let_def bind_def gets_def expect_def modify_def ret_def stop_with_def
      split: sum.splits option.splits if_splits)

lemma unmap_free:
  assumes fc: "friendly_contract C ok free" and x: "x86_64_contract C" and inv: "pt_inv ok free m r"
    and page: "mappable page" and walk: "phys_walk m r page = Some (e, Kib4)"
    and f: "pte_frame e \<notin> tables m r" "pte_frame e \<noteq> cr3 m"
    and de: "phys_deallocate C (pte_frame e) 0 m = Inr ((), md)"
  obtains m' where "unmap C page Free invplg m = Inr ((), m')" "pt_inv ok free m' r"
    "phys_free free m' = phys_free free m \<union> {pte_frame e}"
    "\<And>page'. p4_index page' \<noteq> 510 \<Longrightarrow> phys_walk m' r page' =
       (if page_indices page' = page_indices page then None else phys_walk m r page')"
proof -
  note P = mappableD[OF page] and tp = tree_path_page(3)[OF mappableD(4)[OF page]]
  from x inv page walk obtain p1 where p1: "phys_table m r (page_path page) = Some p1"
    "pmem m p1 (p1_index page) = e" "unmap C page Free invplg m =
       bind (if Free = Free then phys_deallocate C (pte_frame e) 0 else ret ())
         (\<lambda>_. flush_page C page invplg) (write_word p1 (p1_index page) 0 m)"
    by (rule unmap_run)
  let ?m2 = "write_word p1 (p1_index page) 0 m"
  let ?m3 = "?m2\<lparr>phys_trees := phys_trees md\<rparr>"
  let ?m4 = "?m3\<lparr>tlb_log := tlb_log ?m3 @
      (if invplg = Invalidate then [Flush (number page * 4096)] else [])\<rparr>"
  have leaf: "leaf_entry (length (page_path page)) e" "huge_ok (length (page_path page)) e" for e
    by (simp_all add: leaf_entry_def huge_ok_def page_path_def)
  have inv2: "pt_inv ok free ?m2 r"
    by (rule pt_inv_leaf_write[OF inv tp p1(1) _ _ leaf(1,1,2)]) (simp_all add: page_path_def)
  have d: "phys_deallocate C (pte_frame e) 0 ?m2 = Inr ((), ?m3)"
    by (rule dealloc_trees[OF de]) simp
  note D = phys_deallocate_free(1,2)[OF fc pt_invD(2)[OF inv2] d]
  have "tables ?m2 r \<subseteq> tables m r \<union> phys_free free m"
    using keepsD(4)[OF keeps_leaf_write[OF inv tp p1(1) leaf(1,1)]] .
  moreover have "tables ?m2 r = tables m r"
    unfolding tables_def using phys_table_leaf_write(1)[OF pt_invD(3)[OF inv] tp p1(1) leaf(1,1)] by auto
  ultimately have inv3: "pt_inv ok free ?m3 r"
    using f D by (intro pt_inv_dealloc[OF inv2]) simp_all
  show thesis
  proof (rule that)
    show "unmap C page Free invplg m = Inr ((), ?m4)"
      by (simp add: p1(3) run_simps d flush_page_run[OF x P(1-3)])
    show "pt_inv ok free ?m4 r" using inv3 by (simp only: pt_inv_tlb)
    show "phys_free free ?m4 = phys_free free m \<union> {pte_frame e}"
      using D(2) by (simp add: phys_free_def)
    show "phys_walk ?m4 r page' = (if page_indices page' = page_indices page then None
        else phys_walk m r page')" if "p4_index page' \<noteq> 510" for page'
    proof -
      have "phys_walk ?m4 r page' = phys_walk ?m2 r page'" by (rule phys_walk_cong) simp
      then show ?thesis
        using walk_leaf_write[OF inv P(4) p1(1) that, of 0] by (simp add: pte_present_def)
    qed
  qed
qed

section \<open>Mapping a page to a fresh frame\<close>

text \<open>Changes to frames without tables keep the tables and the translations.\<close>

lemma data_write:
  assumes inv: "pt_inv ok free m r" and data: "\<forall>f \<in> insert (cr3 m) (tables m r). pmem m' f = pmem m f"
    and same: "cr3 m' = cr3 m" "phys_trees m' = phys_trees m"
  shows "pt_inv ok free m' r" and "tables m' r = tables m r"
    and "p4_index page \<noteq> 510 \<Longrightarrow> phys_walk m' r page = phys_walk m r page"
proof -
  note I = pt_invD[OF inv]
  have data': "\<forall>f \<in> tables m r. pmem m' f = pmem m f" using data by simp
  note T = phys_table_data[OF data']
  show t: "tables m' r = tables m r" unfolding tables_def by (auto simp: T(1))
  have "tables_inj m' r"
    by (rule tables_injI) (simp add: T(1) tables_injD[OF I(3)])
  moreover have "tables_writable m' r"
    unfolding tables_writable_def
  proof (intro allI impI, elim conjE)
    fix q g assume q: "tree_path q" and "phys_table m' r q = Some g"
    then have g: "phys_table m r q = Some g" by (simp add: T(1))
    then show "path_writable m' r q"
      using I(4) q T(2)[OF q g] unfolding tables_writable_def by blast
  qed
  moreover have "tables_huge_ok m' r"
    unfolding tables_huge_ok_def
  proof (intro allI impI, elim conjE)
    fix q g and j :: u64
    assume q: "tree_path q" and "phys_table m' r q = Some g" and j: "j < 512" "q = [] \<longrightarrow> j \<noteq> 510"
    then have g: "phys_table m r q = Some g" by (simp add: T(1))
    with bspec[OF data' tablesI[OF q g]] show "huge_ok (length q) (pmem m' g j)"
      using I(5) q j unfolding tables_huge_ok_def by metis
  qed
  moreover have "recursive m' r"
    using I(1) data tables_root[of r m] by (simp add: recursive_def phys_next_def same)
  moreover have "phys_free free m' = phys_free free m" "phys_ok ok m'"
    using I(2) by (simp_all add: phys_free_def phys_ok_def same)
  ultimately show "pt_inv ok free m' r" using I(6-8) same unfolding pt_inv_def t by simp
  show "phys_walk m' r page = phys_walk m r page" if "p4_index page \<noteq> 510"
  proof -
    note tp = tree_path_page(2,3)[OF that]
    show ?thesis
      using bspec[OF data' tablesI[OF tp(1)]] bspec[OF data' tablesI[OF tp(2)]]
      by (auto simp: phys_walk_alt T(1)[OF tp(1)] T(1)[OF tp(2)] simp del: phys_table.simps
          split: option.split)
  qed
qed

text \<open>The frame taken by \<open>map\<close>: free before, not free and no table after.\<close>

lemma alloc_took:
  assumes inv: "pt_inv ok free m r" and ok: "phys_ok ok (m\<lparr>phys_trees := ts\<rparr>)"
    and f: "f \<in> phys_free free m" and fr: "phys_free free (m\<lparr>phys_trees := ts\<rparr>) = phys_free free m - {f}"
  shows "pt_inv ok free (m\<lparr>phys_trees := ts\<rparr>) r" and "grows free r m (m\<lparr>phys_trees := ts\<rparr>)"
    and "f \<notin> tables (m\<lparr>phys_trees := ts\<rparr>) r"
proof -
  let ?m = "m\<lparr>phys_trees := ts\<rparr>"
  have mem: "pmem ?m = pmem m" by simp
  show "pt_inv ok free ?m r" by (rule pt_inv_cong[OF inv _ _ ok]) (auto simp: fr)
  have t: "tables ?m r = tables m r" by (simp only: tables_def phys_table_cong[OF mem])
  then show "f \<notin> tables ?m r" using pt_invD(6)[OF inv] f by auto
  show "grows free r m ?m"
    unfolding grows_def keeps_def same_statics_def
    by (simp add: phys_table_cong[OF mem] phys_walk_cong[OF mem] fr t)
qed

lemma keeps_clear:
  assumes k: "keeps free r m m'" and inv: "pt_inv ok free m' r"
    and f: "f \<in> phys_free free m" "f \<notin> tables m' r"
  shows "keeps free r m (clear_words f X m')"
proof -
  let ?m = "clear_words f X m'"
  note K = keepsD[OF k]
  have data: "\<forall>g \<in> tables m' r. pmem ?m g = pmem m' g" using f(2) by (auto simp: clear_words_def)
  note T = phys_table_data(1)[OF data]
  have t: "tables ?m r = tables m' r" unfolding tables_def by (auto simp: T)
  have fr: "phys_free free ?m = phys_free free m'" by (simp add: phys_free_def clear_words_def)
  show ?thesis
    unfolding keeps_def
  proof (intro conjI allI impI)
    show "same_statics m ?m" using K(1) by (simp add: same_statics_def clear_words_def)
    show "phys_table ?m r q = Some g" if "tree_path q \<and> phys_table m r q = Some g" for q g
      using that K(2) by (simp add: T)
    show "pmem ?m g = pmem m g" if "g \<notin> tables m r \<and> g \<notin> phys_free free m" for g
      using that K(3) f(1) by (auto simp: clear_words_def)
    show "tables ?m r \<subseteq> tables m r \<union> phys_free free m" using K(4) by (simp add: t)
    show "phys_free free ?m \<subseteq> phys_free free m" using K(5) by (simp add: fr)
  qed
qed

text \<open>Clearing a page through its mapping, when it is mapped to a frame without tables.\<close>

lemma clear_mapped:
  assumes inv: "pt_inv ok free m r" and active: "cr3 m = r" and page: "mappable page"
    and walk: "phys_walk m r page = Some (e, Kib4)"
    and f: "pte_frame e \<notin> tables m r" "pte_frame e \<noteq> cr3 m" and wr: "pte_writable e \<or> \<not> cr0_wp m"
  defines "m' \<equiv> clear_words (pte_frame e) {..<512} m"
  shows "memset_volatile_64bit (number page * 4096) 0 4096 m = Inr (number page * 4096, m')"
    and "pt_inv ok free m' r" and "tables m' r = tables m r"
    and "p4_index page' \<noteq> 510 \<Longrightarrow> phys_walk m' r page' = phys_walk m r page'"
proof -
  from walk obtain p1 where t: "phys_table m r (page_path page) = Some p1" "pmem m p1 (p1_index page) = e"
    "pte_present e" by (rule walk_tables)
  have "path_writable m r (page_path page)"
    using pt_invD(4)[OF inv] tree_path_page(3)[OF mappableD(4)[OF page]] t(1)
    unfolding tables_writable_def by blast
  then show "memset_volatile_64bit (number page * 4096) 0 4096 m = Inr (number page * 4096, m')"
    unfolding m'_def by (intro memset_page[OF page active t f(1) _ wr])
  have "\<forall>g \<in> insert (cr3 m) (tables m r). pmem m' g = pmem m g"
    using f by (auto simp: m'_def clear_words_def)
  then show "pt_inv ok free m' r" and "tables m' r = tables m r"
    and "p4_index page' \<noteq> 510 \<Longrightarrow> phys_walk m' r page' = phys_walk m r page'"
    by (rule data_write[OF inv]; simp add: m'_def clear_words_def)+
qed

definition flags_ok :: "u64 \<Rightarrow> bool" where
  "flags_ok flags \<longleftrightarrow> flags AND 0x000FFFFFFFFFF000 = 0"

lemma map_page_run:
  assumes "mappable page"
  shows "map_page C page flags invplg zero m = bind (phys_allocate C 0) (\<lambda>frame. case frame of
       None \<Rightarrow> ret (Inl OutOfMemory)
     | Some frame \<Rightarrow>
         bind_res (map_to C page frame flags invplg) (\<lambda>_.
         bind (if zero = Zero then
                 bind (memset_volatile_64bit (number page * 4096) 0 4096) (\<lambda>_. ret ())
               else ret ()) (\<lambda>_. ret (Inr ())))) m"
  using mappableD[OF assms]
  by (auto simp: map_page_def panic_unless_True bind_def start_address_run bind_res_def
      expect_def ret_def fun_eq_iff split: option.splits sum.splits)

text \<open>Clearing a page that has just been mapped to \<open>f\<close>.\<close>

lemma clear_fresh:
  assumes inv: "pt_inv ok free m r" and active: "cr3 m = r" and page: "mappable page" and args: "entry_args f flags"
    and walk: "phys_walk m r page = Some (f OR (flags OR PRESENT), Kib4)"
    and f: "f \<notin> tables m r" "f \<noteq> cr3 m" and wr: "pte_writable flags \<or> \<not> cr0_wp m"
  defines "m' \<equiv> clear_words f {..<512} m"
  shows "memset_volatile_64bit (number page * 4096) 0 4096 m = Inr (number page * 4096, m')"
    and "pt_inv ok free m' r" and "tables m' r = tables m r"
    and "p4_index page' \<noteq> 510 \<Longrightarrow> phys_walk m' r page' = phys_walk m r page'"
proof -
  let ?e = "f OR (flags OR PRESENT)"
  have e: "pte_frame ?e = f" by (rule entry_args_present(2)[OF args])
  have "pte_writable ?e \<or> \<not> cr0_wp m" using wr by (auto simp: pte_writable_def bit_or_iff)
  note W = clear_mapped[OF inv active page walk, unfolded e, OF f this]
  show "memset_volatile_64bit (number page * 4096) 0 4096 m = Inr (number page * 4096, m')"
    "pt_inv ok free m' r" "tables m' r = tables m r"
    "p4_index page' \<noteq> 510 \<Longrightarrow> phys_walk m' r page' = phys_walk m r page'"
    unfolding m'_def by (fact W)+
qed

lemma map_page_cases:
  assumes fc: "friendly_contract C ok free" and x: "x86_64_contract C" and inv: "pt_inv ok free m r"
    and active: "cr3 m = r" and page: "mappable page" and flags: "flags_ok flags"
    and nohuge: "\<forall>e. phys_walk m r page \<noteq> Some (e, Mib2)"
    and wr: "zero = Zero \<longrightarrow> pte_writable flags \<or> \<not> cr0_wp m"
  obtains (ok) f m' where "map_page C page flags invplg zero m = Inr (Inr (), m')"
      "pt_inv ok free m' r" "keeps free r m m'"
      "f \<in> phys_free free m" "f \<notin> phys_free free m'" "f \<notin> tables m' r"
      "\<And>page'. p4_index page' \<noteq> 510 \<Longrightarrow> phys_walk m' r page' =
         (if page_indices page' = page_indices page then Some (f OR (flags OR PRESENT), Kib4)
          else phys_walk m r page')"
      "zero = Zero \<longrightarrow> (\<forall>i < 512. pmem m' f i = 0)"
    | (oom) m' where "map_page C page flags invplg zero m = Inr (Inl OutOfMemory, m')"
      "pt_inv ok free m' r" "grows free r m m'"
proof -
  note P = mappableD[OF page] and I = pt_invD[OF inv]
  note run = map_page_run[OF page]
  from fc x I(2) show thesis
  proof (cases rule: phys_allocate_cases[where order = 0])
    case (out ts)
    note a = alloc_failed[OF inv out(2,3)]
    show thesis by (rule oom[OF _ a]) (simp add: run run_simps out(1))
  next
    case (got f ts)
    let ?m1 = "m\<lparr>phys_trees := Some ts\<rparr>"
    have f: "f \<in> phys_free free m" and fr: "phys_free free ?m1 = phys_free free m - {f}"
      using got(3,4) by simp_all
    note A = alloc_took[OF inv got(2) f fr] and b = phys_free_bound[OF fc I(2) f]
    have "f < 2 ^ 48" by (rule order_less_trans[OF b(1)]) simp
    then have args: "entry_args f flags" using b(2) flags by (simp add: entry_args_def flags_ok_def)
    have nohuge1: "\<forall>e. phys_walk ?m1 r page \<noteq> Some (e, Mib2)"
      using nohuge A(2) P(4) by (simp add: grows_def)
    from fc x A(1) page args nohuge1 show thesis
    proof (cases rule: map_to_cases[where invplg = invplg])
      case (oom m0 m')
      show thesis
        by (rule that(2)[OF _ oom(2) grows_trans[OF A(2) oom(3)]]) (simp add: run run_simps got(1) oom(1))
    next
      case (ok m2)
      let ?e = "f OR (flags OR PRESENT)"
      note K = keepsD[OF ok(3)]
      have k: "keeps free r m m2" using A(2) ok(3) by (auto simp: grows_def intro: keeps_trans)
      have ft: "f \<notin> tables m2 r" and ff: "f \<notin> phys_free free m2" using K(4,5) A(3) fr by auto
      have walk: "phys_walk m2 r page' = (if page_indices page' = page_indices page
          then Some (?e, Kib4) else phys_walk m r page')" if "p4_index page' \<noteq> 510" for page'
        using ok(4)[OF that] A(2) that by (simp add: grows_def)
      show thesis
      proof (cases "zero = Zero")
        case False
        show thesis
          by (rule that(1)[OF _ ok(2) k f ff ft walk])
            (use False in \<open>simp_all add: run run_simps got(1) ok(1)\<close>)
      next
        case True
        let ?m3 = "clear_words f {..<512} m2"
        have c3: "cr3 m2 = r" "cr0_wp m2 = cr0_wp m" using keepsD(1)[OF k] active
          by (simp_all add: same_statics_def)
        have "phys_walk m2 r page = Some (?e, Kib4)" "f \<noteq> cr3 m2" using walk[OF P(4)] c3(1) active I(7) f by auto
        then have W: "memset_volatile_64bit (number page * 4096) 0 4096 m2 = Inr (number page * 4096, ?m3)"
          "pt_inv ok free ?m3 r" "tables ?m3 r = tables m2 r"
          "\<And>page. p4_index page \<noteq> 510 \<Longrightarrow> phys_walk ?m3 r page = phys_walk m2 r page"
          using clear_fresh[OF ok(2) c3(1) page args _ ft] wr True c3(2) by simp_all
        show thesis
        proof (rule that(1)[OF _ W(2) keeps_clear[OF k ok(2) f ft] f])
          show "map_page C page flags invplg zero m = Inr (Inr (), ?m3)"
            unfolding run by (simp add: True run_simps got(1) ok(1) W(1))
          show "f \<notin> phys_free free ?m3" using ff by (simp add: phys_free_def clear_words_def)
          show "f \<notin> tables ?m3 r" using ft W(3) by simp
          show "phys_walk ?m3 r page' = (if page_indices page' = page_indices page
              then Some (?e, Kib4) else phys_walk m r page')" if "p4_index page' \<noteq> 510" for page'
            using W(4)[OF that] walk[OF that] by simp
          show "zero = Zero \<longrightarrow> (\<forall>i < 512. pmem ?m3 f i = 0)" by (simp add: clear_words_def)
        qed
      qed
    qed
  qed
qed

end
