(* ===== verification/Sample_Crates.thy ===== *)
theory Sample_Crates
  imports Physical_Allocator
begin

text \<open>
  A concrete instance of the code outside the repository, at which the theorems with
  hypotheses about that code are applied.  The tree is the list of its free base blocks; it
  serves blocks of order 0 only and refuses the others, which the contract allows.  The
  address types behave as documented.
\<close>

definition list_allocate :: "u64 list \<Rightarrow> u8 \<Rightarrow> u64 option \<times> u64 list" where
  "list_allocate t order = (if order = 0 then (case t of [] \<Rightarrow> (None, []) | a # as \<Rightarrow> (Some a, as))
     else (None, t))"

definition list_deallocate :: "u64 list \<Rightarrow> u64 \<Rightarrow> u8 \<Rightarrow> u64 list option" where
  "list_deallocate t a order =
     (if order = 0 \<and> a \<notin> set t \<and> a < 2 ^ 30 \<and> a AND 0xFFF = 0 then Some (a # t) else None)"

definition list_ok :: "u64 list \<Rightarrow> bool" where
  "list_ok t \<longleftrightarrow> distinct t \<and> (\<forall>a \<in> set t. a < 2 ^ 30 \<and> a AND 0xFFF = 0)"

definition sample_crates :: "bool \<Rightarrow> u64 list crates" where
  "sample_crates chk = \<lparr>
     overflow_checks = chk,
     phys_addr_new = (\<lambda>a. if a < 2 ^ 52 then Some a else None),
     virt_addr_try_new = (\<lambda>a. if canonical a then Some a else None),
     frame_containing_address = (\<lambda>a. a AND NOT 0xFFF),
     tree_new = (\<lambda>levels base ranges b. []),
     tree_allocate = list_allocate,
     tree_deallocate = list_deallocate,
     tree_block_order_free = (\<lambda>t a. 0),
     tree_max_order = (\<lambda>levels. of_nat (levels - 1)),
     blocks_in_tree = (\<lambda>levels. 2 ^ levels - 1),
     bit_field = word_bit_ops,
     atomic_bitfield = word_bit_ops\<rparr>"

lemma sample_crates_run [simp]:
  "tree_allocate (sample_crates chk) = list_allocate"
  "tree_deallocate (sample_crates chk) = list_deallocate"
  "overflow_checks (sample_crates chk) = chk"
  by (simp_all add: sample_crates_def)

lemma sample_x86_64: "x86_64_contract (sample_crates chk)"
  by (simp add: x86_64_contract_def sample_crates_def)

lemma sample_friendly: "friendly_contract (sample_crates chk) list_ok set"
  unfolding friendly_contract_def
proof (intro conjI allI impI; (elim conjE)?)
  show "tree_max_order (sample_crates chk) LEVEL_COUNT = of_nat (LEVEL_COUNT - 1)"
    by (simp add: sample_crates_def)
next
  fix t t' :: "u64 list" and order a
  assume "list_ok t" "tree_allocate (sample_crates chk) t order = (Some a, t')"
  then have "t = a # t'" "order = 0" "distinct t" "\<forall>a \<in> set t. a < 2 ^ 30 \<and> a AND 0xFFF = 0"
    by (auto simp: list_allocate_def list_ok_def split: if_splits list.splits)
  then show "list_ok t'" "block a order \<subseteq> set t" "set t' = set t - block a order"
    by (auto simp: list_ok_def)
next
  fix t t' :: "u64 list" and order
  assume "list_ok t" "tree_allocate (sample_crates chk) t order = (None, t')"
  then show "list_ok t'" "set t' = set t"
    by (auto simp: list_allocate_def split: if_splits list.splits)
next
  fix t t' :: "u64 list" and order a
  assume "list_ok t" "tree_deallocate (sample_crates chk) t a order = Some t'"
  then show "list_ok t'" "set t' = set t \<union> block a order"
    by (auto simp: list_deallocate_def list_ok_def split: if_splits)
next
  fix t :: "u64 list" and a
  assume "list_ok t" "a \<in> set t"
  then show "a < 2 ^ 30" "a AND 0xFFF = 0" by (auto simp: list_ok_def)
qed

text \<open>The first GiB holds one tree with the given free blocks.\<close>

definition sample_trees :: "u64 list \<Rightarrow> u64 list option list" where
  "sample_trees t = Some t # replicate 255 None"

lemma sample_trees_ok: "list_ok t \<Longrightarrow> trees_ok list_ok (sample_trees t)"
  by (auto simp: trees_ok_def sample_trees_def nth_Cons split: nat.splits)

lemma sample_trees_free: "trees_free set (sample_trees t) = set t"
proof -
  have "slot_free set (sample_trees t) i = (if i = 0 then set t else {})" if "i < 256" for i
    using that by (cases i) (auto simp: slot_free_def sample_trees_def tree_base_def)
  then show ?thesis by (auto simp: trees_free_def sample_trees_def split: if_splits)
qed

text \<open>Allocating from it takes the first block.\<close>

lemma sample_allocate_loop:
  assumes "list_ok (a # t)"
  shows "allocate_loop (sample_crates chk) (\<lambda>_ _. False) 0 0 (replicate 256 Untried) (sample_trees (a # t))
    = Some (Inr (Some a, sample_trees t))"
proof -
  have r: "replicate 256 Untried = Untried # replicate 255 Untried"
    by (simp add: numeral_eq_Suc)
  have "a < 2 ^ 30" "a AND 0xFFF = 0" using assms by (auto simp: list_ok_def)
  then have "global_address (sample_crates chk) 0 a () = Inr (a, ())"
    using global_address_run[OF sample_friendly sample_x86_64, of 0 a chk] by (simp add: tree_base_def)
  then show ?thesis
    by (subst allocate_loop.simps)
      (simp add: allocate_attempt_def next_index_def r sample_trees_def list_allocate_def)
qed

end
