(* ===== verification/Frame_Allocation.thy ===== *)
theory Frame_Allocation
  imports Sample_Crates
begin

text \<open>
  The properties of the frame allocator, from the lemmas of \<open>Physical_Allocator\<close> and the
  facts of the interpretation \<open>phys\<close> of its interface, each applied at the concrete crates
  of \<open>Sample_Crates\<close>.
\<close>

definition sample_frames :: "u64 list \<Rightarrow> u64 list machine" where
  "sample_frames t = \<lparr>pmem = (\<lambda>_ _. 0), cr3 = 0x1000, cr3_flags = 0, cr0_wp = True, tlb_log = [],
     phys_trees = Some (sample_trees t), heap_tree = None, bootstrap_heap = None\<rparr>"

lemma sample_frames_ok: "list_ok t \<Longrightarrow> phys_ok list_ok (sample_frames t)"
  by (simp add: phys_ok_def sample_frames_def sample_trees_ok)

lemma sample_frames_free: "phys_free set (sample_frames t) = set t"
  by (simp add: phys_free_def sample_frames_def sample_trees_free)

lemma sample_frames_alloc:
  "list_ok (a # t) \<Longrightarrow>
    phys_allocate (sample_crates chk) 0 (sample_frames (a # t)) = Inr (Some a, sample_frames t)"
  by (simp add: phys_allocate_def sample_frames_def sample_allocate_loop)

lemma sample_list_ok: "list_ok [0x3000, 0x4000]" "list_ok [0x4000]" "list_ok []"
  by (simp_all add: list_ok_def)

text \<open>C11: whatever locks other cores hold on the trees at each attempt, if they are all
  released from some attempt on, the loop of \<open>allocate\<close> ends without a panic and its result is
  correct: it returns a block of free frames, which it removes from the free frames, or nothing,
  and then no frame has changed hands.\<close>

theorem allocate_under_contention:
  assumes "friendly_contract C ok free" and "x86_64_contract C" and "trees_ok ok trees"
    and "\<forall>t\<ge>N. \<forall>i. \<not> busy t i"
  shows "\<exists>r trees'. allocate_loop C busy order 0 (replicate 256 Untried) trees = Some (Inr (r, trees')) \<and>
    trees_ok ok trees' \<and>
    (case r of
       None \<Rightarrow> trees_free free trees' = trees_free free trees
     | Some f \<Rightarrow> block f order \<subseteq> trees_free free trees \<and>
         trees_free free trees' = trees_free free trees - block f order)"
proof -
  obtain r where r: "allocate_loop C busy order 0 (replicate 256 Untried) trees = Some r"
    using allocate_loop_returns[OF assms(4)] by blast
  have post: "alloc_post ok free order trees r"
    by (rule allocate_loop_post[OF assms(1,2) r assms(3)]) simp
  then obtain q trees' where "r = Inr (q, trees')" by (cases r) (auto simp: alloc_post_def)
  with r post show ?thesis by (cases q) (simp_all add: alloc_post_def)
qed

theorem allocate_under_contention_witness:
  "\<exists>r trees'. allocate_loop (sample_crates True) (\<lambda>t i. t < 3) 0 0 (replicate 256 Untried)
      (sample_trees [0x3000, 0x4000]) = Some (Inr (r, trees')) \<and> trees_ok list_ok trees'"
proof -
  have "\<forall>t\<ge>3. \<forall>i :: nat. \<not> t < (3 :: nat)" by simp
  from allocate_under_contention[OF sample_friendly sample_x86_64
      sample_trees_ok[OF sample_list_ok(1)] this, of True 0]
  show ?thesis by blast
qed

text \<open>C12: frames handed out by successive calls of \<open>allocate\<close> never overlap, were all free
  before, and are exactly what the calls took out of the free frames.\<close>

theorem allocated_frames_disjoint:
  assumes "friendly_contract C ok free" and "x86_64_contract C" and "phys_ok ok m"
    and "allocs (phys_allocate C order) m fs m'"
  shows "sorted_wrt (\<lambda>f g. block f order \<inter> block g order = {}) fs \<and>
    (\<forall>f \<in> set fs. block f order \<subseteq> phys_free free m) \<and>
    phys_free free m' = phys_free free m - (\<Union>f \<in> set fs. block f order)"
proof -
  let ?s = "(C, ok, free, m)" and ?s' = "(C, ok, free, m')"
  have inv: "env_ok ?s" using assms(1-3) by (simp add: env_ok_def)
  note a = allocs_in_env[OF assms(4), of ok free]
  from phys.allocs_disjoint[OF inv a] phys.allocs_free(2,3)[OF inv a] show ?thesis
    by (simp add: env_free_def)
qed

theorem allocated_frames_disjoint_witness:
  "allocs (phys_allocate (sample_crates True) 0) (sample_frames [0x3000, 0x4000]) [0x3000, 0x4000]
     (sample_frames []) \<and>
   block 0x3000 0 \<inter> block 0x4000 0 = {} \<and> phys_free set (sample_frames []) = {}"
proof -
  have a: "allocs (phys_allocate (sample_crates True) 0) (sample_frames [0x3000, 0x4000]) [0x3000, 0x4000]
     (sample_frames [])"
    by (simp add: sample_frames_alloc sample_list_ok)
  from allocated_frames_disjoint[OF sample_friendly sample_x86_64 sample_frames_ok[OF sample_list_ok(1)] a]
  show ?thesis using a by (simp add: sample_frames_free)
qed

text \<open>C24: \<open>allocate\<close> gives nothing only when every tree refuses a block of the order.\<close>

theorem allocate_none_exhausted:
  assumes "phys_ok ok m" and "phys_allocate C order m = Inr (None, m')"
  shows "\<forall>i < 256. refused C order (the (phys_trees m) ! i)"
proof -
  from assms(1) obtain trees where t: "phys_trees m = Some trees" and ok: "trees_ok ok trees"
    by (auto simp: phys_ok_def)
  obtain u where "allocate_loop C (\<lambda>_ _. False) order 0 (replicate 256 Untried) trees = Some (Inr (None, u))"
    using assms(2) t by (auto simp: phys_allocate_def split: option.splits sum.splits)
  moreover have "tried_inv C order trees (replicate 256 Untried) trees"
    using ok by (simp add: tried_inv_def trees_ok_def)
  ultimately have "\<forall>i < length trees. refused C order (trees ! i)" by (rule allocate_loop_None)
  with ok t show ?thesis by (simp add: trees_ok_def)
qed

theorem allocate_none_exhausted_witness:
  "\<exists>m'. phys_allocate (sample_crates True) 1 (sample_frames []) = Inr (None, m') \<and>
     refused (sample_crates True) 1 (the (phys_trees (sample_frames [])) ! 0)"
proof -
  note ok = sample_frames_ok[OF sample_list_ok(3)]
  from sample_friendly[of True] sample_x86_64[of True] ok show ?thesis
  proof (cases rule: phys_allocate_cases[where order = 1])
    case (got f trees)
    then show ?thesis using block_base[of f 1] by (auto simp: sample_frames_free)
  next
    case (out trees)
    from allocate_none_exhausted[OF ok out(1)] out(1) show ?thesis by auto
  qed
qed

text \<open>C25: deallocating what \<open>allocate\<close> has just returned gives back the free frames there
  were before.\<close>

theorem allocate_deallocate_roundtrip:
  assumes "friendly_contract C ok free" and "x86_64_contract C" and "phys_ok ok m"
    and "phys_allocate C order m = Inr (Some f, m1)" and "phys_deallocate C f order m1 = Inr ((), m2)"
  shows "phys_ok ok m2 \<and> phys_free free m2 = phys_free free m"
proof -
  have "env_ok (C, ok, free, m)" using assms(1-3) by (simp add: env_ok_def)
  moreover have "in_env (\<lambda>C. phys_allocate C order) (C, ok, free, m) = Inr (Some f, (C, ok, free, m1))"
    "in_env (\<lambda>C. phys_deallocate C f order) (C, ok, free, m1) = Inr ((), (C, ok, free, m2))"
    using assms(4,5) by (simp_all add: in_env_def)
  ultimately have "env_ok (C, ok, free, m2) \<and> env_free (C, ok, free, m2) = env_free (C, ok, free, m)"
    by (rule phys.alloc_dealloc)
  then show ?thesis by (simp add: env_ok_def env_free_def)
qed

theorem allocate_deallocate_roundtrip_witness:
  "phys_allocate (sample_crates True) 0 (sample_frames [0x3000, 0x4000]) = Inr (Some 0x3000, sample_frames [0x4000]) \<and>
   phys_deallocate (sample_crates True) 0x3000 0 (sample_frames [0x4000]) = Inr ((), sample_frames [0x3000, 0x4000]) \<and>
   phys_free set (sample_frames [0x3000, 0x4000]) = {0x3000, 0x4000}"
proof -
  have a: "phys_allocate (sample_crates True) 0 (sample_frames [0x3000, 0x4000])
      = Inr (Some 0x3000, sample_frames [0x4000])"
    by (rule sample_frames_alloc[OF sample_list_ok(1)])
  have d: "phys_deallocate (sample_crates True) 0x3000 0 (sample_frames [0x4000])
      = Inr ((), sample_frames [0x3000, 0x4000])"
    by (simp add: phys_deallocate_def sample_frames_def sample_trees_def run_simps LEVEL_COUNT_def
        BASE_ORDER_def list_deallocate_def)
  from allocate_deallocate_roundtrip[OF sample_friendly sample_x86_64 sample_frames_ok[OF sample_list_ok(1)] a d]
  show ?thesis using a d by (simp add: sample_frames_free)
qed

end
