(* ===== verification/Page_Ranges.thy ===== *)
theory Page_Ranges
  imports Page_Mapping Frame_Allocation
begin

text \<open>
  The methods of \<open>Mapper\<close> that work on a range of pages.  The locale \<open>page_updates\<close> is the
  interface between them and the methods for one page: an update of one page returns, changes the
  translation of that page only, or reports an error and changes none.  The lemma about a loop
  of updates is proved once and used for \<open>map_range\<close>, \<open>map_page_range\<close>, \<open>id_map_range\<close> and
  \<open>try_map_user_range\<close>.
\<close>

declare bit_numeral_word_iff [simp del]

section \<open>Loops of updates\<close>

locale page_updates =
  fixes invar :: "'s \<Rightarrow> bool"
    and look :: "'s \<Rightarrow> 'p \<Rightarrow> 'e option"
    and ext :: "'s \<Rightarrow> 's \<Rightarrow> bool"
    and pages :: "'p set"
    and step :: "'p \<Rightarrow> 's \<Rightarrow> stop + ((('err + unit) \<times> 's))"
    and good :: "'s \<Rightarrow> 'p \<Rightarrow> 'e \<Rightarrow> bool"
    and bad :: "'s \<Rightarrow> 'p \<Rightarrow> 'err \<Rightarrow> bool"
  assumes ext_refl: "ext s s"
    and ext_trans: "ext s t \<Longrightarrow> ext t u \<Longrightarrow> ext s u"
    and step_total: "invar s \<Longrightarrow> p \<in> pages \<Longrightarrow> \<exists>res s'. step p s = Inr (res, s')"
    and step_ok: "invar s \<Longrightarrow> p \<in> pages \<Longrightarrow> step p s = Inr (Inr (), s') \<Longrightarrow>
      invar s' \<and> ext s s' \<and> (\<exists>e. look s' p = Some e \<and> good s p e) \<and>
      (\<forall>q \<in> pages. q \<noteq> p \<longrightarrow> look s' q = look s q)"
    and step_err: "invar s \<Longrightarrow> p \<in> pages \<Longrightarrow> step p s = Inr (Inl x, s') \<Longrightarrow>
      invar s' \<and> ext s s' \<and> bad s p x \<and> (\<forall>q \<in> pages. look s' q = look s q)"
begin

text \<open>What became of a page: it was updated in a state reached from \<open>s\<close> in which it was
  still as in \<open>s\<close>.\<close>

definition updated :: "'s \<Rightarrow> 's \<Rightarrow> 'p \<Rightarrow> bool" where
  "updated s s' p \<longleftrightarrow>
     (\<exists>e t. look s' p = Some e \<and> ext s t \<and> look t p = look s p \<and> good t p e)"

definition stopped :: "'s \<Rightarrow> 'p list \<Rightarrow> ('err + unit) \<Rightarrow> bool" where
  "stopped s rs res = (case res of
       Inr _ \<Rightarrow> rs = []
     | Inl x \<Rightarrow> \<exists>p rs' t. rs = p # rs' \<and> ext s t \<and> look t p = look s p \<and> bad t p x)"

text \<open>A loop of updates returns.  The pages of a prefix of the list are updated, all of them
  if there is no error, and every other page is as before.\<close>

lemma updates_total:
  assumes "invar s" and "set ps \<subseteq> pages" and "distinct ps"
  shows "\<exists>res s' ds rs. for_each_res ps step s = Inr (res, s') \<and> invar s' \<and> ext s s' \<and>
    ps = ds @ rs \<and> (\<forall>p \<in> set ds. updated s s' p) \<and>
    (\<forall>q \<in> pages - set ds. look s' q = look s q) \<and> stopped s rs res"
  using assms
proof (induction ps arbitrary: s)
  case Nil
  then show ?case by (simp add: ret_def ext_refl stopped_def)
next
  case (Cons p ps)
  have p: "p \<in> pages" using Cons.prems by simp
  obtain res s1 where st: "step p s = Inr (res, s1)" using step_total[OF Cons.prems(1) p] by blast
  show ?case
  proof (cases res)
    case (Inl x)
    note e = step_err[OF Cons.prems(1) p st[unfolded Inl]]
    then have "stopped s (p # ps) (Inl x)" using ext_refl[of s] by (auto simp: stopped_def)
    moreover have "for_each_res (p # ps) step s = Inr (Inl x, s1)" using st Inl by (simp add: run_simps)
    ultimately show ?thesis using e by fastforce
  next
    case (Inr u')
    have st1: "step p s = Inr (Inr (), s1)" using st Inr by simp
    note o = step_ok[OF Cons.prems(1) p st1]
    then have inv1: "invar s1" and ext1: "ext s s1" by auto
    have "set ps \<subseteq> pages" "distinct ps" using Cons.prems by simp_all
    from Cons.IH[OF inv1 this] obtain res2 s2 ds rs where
      run: "for_each_res ps step s1 = Inr (res2, s2)" and inv2: "invar s2" and ext2: "ext s1 s2"
      and ps: "ps = ds @ rs" and dn: "\<forall>p \<in> set ds. updated s1 s2 p"
      and rest: "\<forall>q \<in> pages - set ds. look s2 q = look s1 q" and res: "stopped s1 rs res2"
      by blast
    have new: "q \<in> pages" "q \<noteq> p" if "q \<in> set ps" for q using that Cons.prems(2,3) by auto
    have "p \<notin> set ds" using new(2) ps by auto
    then have "look s2 p = look s1 p" using rest p by simp
    then have "updated s s2 p" using o ext_refl[of s] by (auto simp: updated_def)
    moreover have "updated s s2 q" if "q \<in> set ds" for q
      using bspec[OF dn that] o new[of q] that ps ext_trans[OF ext1] by (auto simp: updated_def)
    moreover have "\<forall>q \<in> pages - set (p # ds). look s2 q = look s q" using rest o by auto
    moreover have "stopped s rs res2"
      using res o new ps ext_trans[OF ext1] by (fastforce simp: stopped_def split: sum.splits)
    moreover have "for_each_res (p # ps) step s = Inr (res2, s2)"
      using st1 run by (simp add: run_simps)
    ultimately show ?thesis
      using inv2 ext_trans[OF ext1 ext2] ps
      by (intro exI[of _ res2] exI[of _ s2] exI[of _ "p # ds"] exI[of _ rs]) auto
  qed
qed

end

section \<open>Pages by number\<close>

definition nth_page :: "u64 \<Rightarrow> page" where
  "nth_page no = \<lparr>number = no, page_size = Some Kib4\<rparr>"

lemma numbered_page_run:
  assumes "mappable (nth_page no)"
  shows "numbered_page C no m = Inr (nth_page no, m)"
proof -
  have "no < 2 ^ 52" using mappableD(2)[OF assms] by (simp add: nth_page_def)
  then have lt: "unat no * 4096 < 2 ^ 64" by (simp add: word_less_nat_alt)
  then have "unat (no * 4096) = unat no * 4096" by (simp add: unat_word_ariths)
  then have "no * 4096 div 4096 = no" by (simp add: word_unat_eq_iff unat_div)
  with lt show ?thesis
    by (simp add: numbered_page_def run_simps containing_address_def nth_page_def)
qed

lemma bit_canonical:
  assumes "canonical va" and "47 \<le> n" and "n < 64"
  shows "bit va n = bit va 47"
proof -
  have "bit (drop_bit 47 va) (n - 47) = bit (drop_bit 47 va) 0"
  proof (cases "drop_bit 47 va = 0")
    case False
    then have "drop_bit 47 va = mask 17"
      using assms(1) by (simp add: canonical_def mask_eq_exp_minus_1)
    then show ?thesis using assms(2,3) by (simp only: bit_mask_iff) auto
  qed simp
  then show ?thesis using assms(2) by (simp add: bit_drop_bit_eq)
qed

text \<open>The four indices determine the page, since its address is canonical.\<close>

lemma page_indices_inject:
  assumes p: "mappable p" and q: "mappable q" and eq: "page_indices p = page_indices q"
  shows "number p = number q"
proof -
  have low: "bit (number p) n = bit (number q) n" if "n < 36" for n
  proof -
    have idx: "bit (p1_index s) k = bit (number s) k" "bit (p2_index s) k = bit (number s) (9 + k)"
      "bit (p3_index s) k = bit (number s) (18 + k)" "bit (p4_index s) k = bit (number s) (27 + k)"
      if "k < 9" for k and s :: page
      using that by (simp_all add: p1_index_def p2_index_def p3_index_def p4_index_def bit_and_iff
          bit_511 bit_drop_bit_eq)
    have e: "p1_index p = p1_index q" "p2_index p = p2_index q" "p3_index p = p3_index q"
      "p4_index p = p4_index q"
      using eq by (simp_all add: page_indices_def page_path_def)
    consider "n < 9" | "9 \<le> n" "n < 18" | "18 \<le> n" "n < 27" | "27 \<le> n" using that by linarith
    then show ?thesis
    proof cases
      case 1 then show ?thesis using idx(1)[of n p] idx(1)[of n q] e by simp
    next
      case 2 then show ?thesis using idx(2)[of "n - 9" p] idx(2)[of "n - 9" q] e by simp
    next
      case 3 then show ?thesis using idx(3)[of "n - 18" p] idx(3)[of "n - 18" q] e by simp
    next
      case 4 then show ?thesis using idx(4)[of "n - 27" p] idx(4)[of "n - 27" q] e that by simp
    qed
  qed
  have high: "bit (number s) n = bit (number s) 35" if "mappable s" "36 \<le> n" "n < 52" for n and s :: page
  proof -
    have "number s * 4096 = push_bit 12 (number s)" using bit_page_word[of 0 s] by simp
    then have "bit (number s * 4096) (12 + k) = bit (number s) k" if "k < 52" for k
      using that by (simp add: bit_push_bit_iff)
    from this[of n] this[of 35] bit_canonical[OF mappableD(3)[OF that(1)], of "12 + n"] that(2,3)
      bit_canonical[OF mappableD(3)[OF that(1)], of 47]
    show ?thesis by simp
  qed
  show ?thesis
  proof (rule bit_word_eqI)
    fix n
    show "bit (number p) n = bit (number q) n"
    proof (cases "n < 36")
      case True
      then show ?thesis by (rule low)
    next
      case False
      then show ?thesis
        using high[OF p, of n] high[OF q, of n] low[of 35] less_bit[OF mappableD(2)[OF p], of n]
          less_bit[OF mappableD(2)[OF q], of n]
        by (cases "n < 52") auto
    qed
  qed
qed

section \<open>The updates of the mapper\<close>

definition env_look :: "('t, 'z) alloc_env \<Rightarrow> u64 \<Rightarrow> (u64 \<times> page_size) option" where
  "env_look = (\<lambda>(C, ok, free, m) no. phys_walk m (cr3 m) (nth_page no))"

definition env_keeps :: "('t, 'z) alloc_env \<Rightarrow> ('t, 'z) alloc_env \<Rightarrow> bool" where
  "env_keeps = (\<lambda>(C, ok, free, m) (C', ok', free', m').
     C' = C \<and> ok' = ok \<and> free' = free \<and> keeps free (cr3 m) m m' \<and>
     (\<forall>page e. p4_index page \<noteq> 510 \<and> phys_walk m (cr3 m) page = Some (e, Mib2) \<longrightarrow>
        phys_walk m' (cr3 m) page = Some (e, Mib2)))"

text \<open>The pages of \<open>D\<close> that can be mapped, and the states in which none of them lies in a 2 MiB page
  and the kernel can write what it maps if it is to be cleared.\<close>

definition mappable_in :: "u64 set \<Rightarrow> u64 set" where
  "mappable_in D = {no \<in> D. mappable (nth_page no)}"

definition mapping_env :: "u64 set \<Rightarrow> u64 \<Rightarrow> ZeroPage \<Rightarrow> ('t, 'z) alloc_env \<Rightarrow> bool" where
  "mapping_env D flags zero = (\<lambda>(C, ok, free, m).
     friendly_contract C ok free \<and> x86_64_contract C \<and> pt_inv ok free m (cr3 m) \<and> flags_ok flags \<and>
     (zero = Zero \<longrightarrow> pte_writable flags \<or> \<not> cr0_wp m) \<and>
     (\<forall>no \<in> mappable_in D. \<forall>e. phys_walk m (cr3 m) (nth_page no) \<noteq> Some (e, Mib2)))"

text \<open>A page mapped afresh: to a frame that was free, with the flags asked for.\<close>

definition fresh_entry :: "u64 \<Rightarrow> ('t, 'z) alloc_env \<Rightarrow> u64 \<Rightarrow> u64 \<times> page_size \<Rightarrow> bool" where
  "fresh_entry flags s no w \<longleftrightarrow> (\<exists>f \<in> env_free s. w = (f OR (flags OR PRESENT), Kib4))"

lemma keeps_cr3: "keeps free r m m' \<Longrightarrow> cr3 m' = cr3 m"
  using keepsD(1) by (auto simp: same_statics_def)

lemma env_keeps_refl: "env_keeps s s"
  by (cases s) (simp add: env_keeps_def keeps_refl)

lemma env_keeps_trans: "env_keeps s t \<Longrightarrow> env_keeps t u \<Longrightarrow> env_keeps s u"
  by (cases s; cases t; cases u) (auto simp: env_keeps_def keeps_cr3 intro: keeps_trans)

lemma fresh_entry_keeps: "env_keeps s t \<Longrightarrow> fresh_entry flags t no w \<Longrightarrow> fresh_entry flags s no w"
  by (cases s; cases t) (auto simp: env_keeps_def fresh_entry_def env_free_def dest: keepsD(5))

lemma for_each_res_in_env:
  "in_env (\<lambda>C. for_each_res xs (f C)) = for_each_res xs (\<lambda>x. in_env (\<lambda>C. f C x))"
proof (induction xs)
  case Nil
  then show ?case by (auto simp: in_env_def ret_def fun_eq_iff)
next
  case (Cons x xs)
  have "in_env (\<lambda>C. bind_res (f C x) (\<lambda>_. for_each_res xs (f C)))
      = bind_res (in_env (\<lambda>C. f C x)) (\<lambda>_. in_env (\<lambda>C. for_each_res xs (f C)))"
    by (auto simp: in_env_def bind_res_def bind_def ret_def fun_eq_iff split: sum.splits)
  with Cons show ?case by simp
qed

definition map_step :: "'t crates \<Rightarrow> u64 \<Rightarrow> InvalidateTlb \<Rightarrow> ZeroPage \<Rightarrow> u64
    \<Rightarrow> (('t, 'z) machine_scheme, OutOfMemory + unit) comp" where
  "map_step C flags invplg zero no =
     bind (numbered_page C no) (\<lambda>page. map_page C page flags invplg zero)"

lemma phys_walk_indices: "page_indices p = page_indices q \<Longrightarrow> phys_walk m r p = phys_walk m r q"
proof -
  assume "page_indices p = page_indices q"
  then have "p4_index p = p4_index q" "p3_index p = p3_index q" "p2_index p = p2_index q"
    "p1_index p = p1_index q" by (simp_all add: page_indices_def page_path_def)
  then show ?thesis by (simp only: phys_walk_def)
qed

text \<open>What one step does to the pages of \<open>D\<close>.\<close>

lemma map_step_cases:
  assumes env: "mapping_env D flags zero (C, ok, free, m)" and no: "no \<in> mappable_in D"
  obtains (ok) f m' where "map_step C flags invplg zero no m = Inr (Inr (), m')"
      "mapping_env D flags zero (C, ok, free, m')" "keeps free (cr3 m) m m'" "cr3 m' = cr3 m"
      "f \<in> phys_free free m" "phys_walk m' (cr3 m) (nth_page no) = Some (f OR (flags OR PRESENT), Kib4)"
      "\<And>q. q \<in> mappable_in D \<Longrightarrow> q \<noteq> no \<Longrightarrow> phys_walk m' (cr3 m) (nth_page q) = phys_walk m (cr3 m) (nth_page q)"
      "\<And>page e. p4_index page \<noteq> 510 \<Longrightarrow> phys_walk m (cr3 m) page = Some (e, Mib2) \<Longrightarrow>
        phys_walk m' (cr3 m) page = Some (e, Mib2)"
    | (oom) m' where "map_step C flags invplg zero no m = Inr (Inl OutOfMemory, m')"
      "mapping_env D flags zero (C, ok, free, m')" "keeps free (cr3 m) m m'" "cr3 m' = cr3 m"
      "\<And>page. p4_index page \<noteq> 510 \<Longrightarrow> phys_walk m' (cr3 m) page = phys_walk m (cr3 m) page"
proof -
  have E: "friendly_contract C ok free" "x86_64_contract C" "pt_inv ok free m (cr3 m)" "flags_ok flags"
    "zero = Zero \<longrightarrow> pte_writable flags \<or> \<not> cr0_wp m"
    "\<forall>no \<in> mappable_in D. \<forall>e. phys_walk m (cr3 m) (nth_page no) \<noteq> Some (e, Mib2)"
    using env by (simp_all add: mapping_env_def)
  have inD: "mappable (nth_page q)" if "q \<in> mappable_in D" for q
    using that by (simp add: mappable_in_def)
  note page = inD[OF no]
  have run: "map_step C flags invplg zero no m = map_page C (nth_page no) flags invplg zero m"
    by (simp add: map_step_def run_simps numbered_page_run[OF page])
  have nohuge: "\<forall>e. phys_walk m (cr3 m) (nth_page no) \<noteq> Some (e, Mib2)" using E(6) no by blast
  have p4: "p4_index (nth_page q) \<noteq> 510" if "q \<in> mappable_in D" for q
    using mappableD(4)[OF inD[OF that]] .
  from E(1-3) refl page E(4) nohuge E(5) show thesis
  proof (cases rule: map_page_cases[where invplg = invplg])
    case (ok f m')
    have st: "cr3 m' = cr3 m" "cr0_wp m' = cr0_wp m" using keepsD(1)[OF ok(3)]
      by (simp_all add: same_statics_def)
    have other: "phys_walk m' (cr3 m) (nth_page q) = phys_walk m (cr3 m) (nth_page q)"
      if q: "q \<in> mappable_in D" "q \<noteq> no" for q
      using ok(7)[OF p4[OF q(1)]] page_indices_inject[OF inD[OF q(1)] page] q(2)
      by (auto simp: nth_page_def)
    have this_page: "phys_walk m' (cr3 m) (nth_page no) = Some (f OR (flags OR PRESENT), Kib4)"
      using ok(7)[OF p4[OF no]] by simp
    have "phys_walk m' (cr3 m) (nth_page q) \<noteq> Some (e, Mib2)" if "q \<in> mappable_in D" for q e
      using other[OF that] this_page E(6) that by (cases "q = no") auto
    then have "mapping_env D flags zero (C, ok, free, m')"
      using E ok(2) by (auto simp: mapping_env_def st)
    moreover have "phys_walk m' (cr3 m) page = Some (e, Mib2)"
      if "p4_index page \<noteq> 510" "phys_walk m (cr3 m) page = Some (e, Mib2)" for page e
    proof -
      have "page_indices page \<noteq> page_indices (nth_page no)"
        using phys_walk_indices that(2) nohuge by metis
      with ok(7)[OF that(1)] that(2) show ?thesis by simp
    qed
    ultimately show thesis
      using ok(1,3,4) other this_page st by (intro that(1)[of m' f]) (auto simp: run)
  next
    case (oom m')
    have k: "keeps free (cr3 m) m m'" using oom(3) by (simp add: grows_def)
    have st: "cr3 m' = cr3 m" "cr0_wp m' = cr0_wp m" using keepsD(1)[OF k]
      by (simp_all add: same_statics_def)
    have w: "phys_walk m' (cr3 m) page = phys_walk m (cr3 m) page" if "p4_index page \<noteq> 510" for page
      using oom(3) that by (simp add: grows_def)
    have "mapping_env D flags zero (C, ok, free, m')"
      using E oom(2) w[OF p4] by (auto simp: mapping_env_def st)
    then show thesis using oom(1) k w st by (intro that(2)[of m']) (auto simp: run)
  qed
qed

interpretation map_loop: page_updates "mapping_env D flags zero" env_look env_keeps "mappable_in D"
  "\<lambda>no. in_env (\<lambda>C. map_step C flags invplg zero no)" "fresh_entry flags" "\<lambda>s no x. True"
  for D flags zero invplg
proof
  fix s t u :: "('a, 'b) alloc_env"
  show "env_keeps s s" by (rule env_keeps_refl)
  show "env_keeps s u" if "env_keeps s t" "env_keeps t u" using that by (rule env_keeps_trans)
next
  fix s s' :: "('a, 'b) alloc_env" and no x
  obtain C ok free m where s: "s = (C, ok, free, m)" by (cases s)
  assume env: "mapping_env D flags zero s" and no: "no \<in> mappable_in D"
  note cs = map_step_cases[OF env[unfolded s] no, of invplg]
  show "\<exists>res s'. in_env (\<lambda>C. map_step C flags invplg zero no) s = Inr (res, s')"
    by (rule cs) (simp_all add: in_env_def s)
  show "mapping_env D flags zero s' \<and> env_keeps s s' \<and>
      (\<exists>e. env_look s' no = Some e \<and> fresh_entry flags s no e) \<and>
      (\<forall>q \<in> mappable_in D. q \<noteq> no \<longrightarrow> env_look s' q = env_look s q)"
    if "in_env (\<lambda>C. map_step C flags invplg zero no) s = Inr (Inr (), s')"
    using that
    by - (rule cs; auto simp: in_env_def s env_keeps_def env_look_def fresh_entry_def env_free_def)
  show "mapping_env D flags zero s' \<and> env_keeps s s' \<and> True \<and>
      (\<forall>q \<in> mappable_in D. env_look s' q = env_look s q)"
    if "in_env (\<lambda>C. map_step C flags invplg zero no) s = Inr (Inl x, s')"
    using that
    by - (rule cs; auto simp: in_env_def s env_keeps_def env_look_def mappable_in_def dest: mappableD(4))
qed

text \<open>The body of the loop of \<open>try_map_user_range\<close>.\<close>

definition try_step :: "'t crates \<Rightarrow> u64 \<Rightarrow> InvalidateTlb \<Rightarrow> bool \<Rightarrow> ZeroPage \<Rightarrow> u64
    \<Rightarrow> (('t, 'z) machine_scheme, TryMapError + unit) comp" where
  "try_step C flags invplg ignore_already_mapped zero no =
     bind (numbered_page C no) (\<lambda>page.
     bind (if \<not> ignore_already_mapped
           then bind (walk_page_table C page) (\<lambda>w. ret (w \<noteq> None))
           else ret False) (\<lambda>already.
       if already then ret (Inl (AlreadyMapped page))
       else bind (map_page C page flags invplg zero) (\<lambda>r. ret (try_map_error_from r))))"

text \<open>The page gets a fresh frame, and had none unless mapped pages are to be ignored; the
  error for a page says what was wrong with it.\<close>

definition try_entry :: "u64 \<Rightarrow> bool \<Rightarrow> ('t, 'z) alloc_env \<Rightarrow> u64 \<Rightarrow> u64 \<times> page_size \<Rightarrow> bool" where
  "try_entry flags ign s no w \<longleftrightarrow> fresh_entry flags s no w \<and> (ign \<or> env_look s no = None)"

definition try_error :: "bool \<Rightarrow> ('t, 'z) alloc_env \<Rightarrow> u64 \<Rightarrow> TryMapError \<Rightarrow> bool" where
  "try_error ign s no x = (case x of
       InvalidAddress _ \<Rightarrow> False
     | AlreadyMapped page \<Rightarrow> \<not> ign \<and> page = nth_page no \<and> env_look s no \<noteq> None
     | TryOutOfMemory \<Rightarrow> True)"

lemma try_step_run:
  assumes env: "mapping_env D flags zero (C, ok, free, m)" and no: "no \<in> mappable_in D"
  shows "try_step C flags invplg ign zero no m =
    (if \<not> ign \<and> phys_walk m (cr3 m) (nth_page no) \<noteq> None then Inr (Inl (AlreadyMapped (nth_page no)), m)
     else bind (map_step C flags invplg zero no) (\<lambda>r. ret (try_map_error_from r)) m)"
proof -
  have page: "mappable (nth_page no)" using no by (simp add: mappable_in_def)
  have x: "x86_64_contract C" and inv: "pt_inv ok free m (cr3 m)"
    using env by (simp_all add: mapping_env_def)
  have "walk_page_table C (nth_page no) m = Inr (phys_walk m (cr3 m) (nth_page no), m)"
    by (rule walk_page_table_phys[OF pt_invD(1)[OF inv] x pt_inv_walk_supported[OF inv mappableD(4)[OF page]]])
  then show ?thesis
    by (auto simp: try_step_def map_step_def run_simps numbered_page_run[OF page] bind_assoc)
qed

interpretation try_loop: page_updates "mapping_env D flags zero" env_look env_keeps "mappable_in D"
  "\<lambda>no. in_env (\<lambda>C. try_step C flags invplg ign zero no)" "try_entry flags ign" "try_error ign"
  for D flags zero invplg ign
proof
  fix s t u :: "('a, 'b) alloc_env"
  show "env_keeps s s" by (rule env_keeps_refl)
  show "env_keeps s u" if "env_keeps s t" "env_keeps t u" using that by (rule env_keeps_trans)
next
  fix s s' :: "('a, 'b) alloc_env" and no x
  obtain C ok free m where s: "s = (C, ok, free, m)" by (cases s)
  assume env: "mapping_env D flags zero s" and no: "no \<in> mappable_in D"
  note run = try_step_run[OF env[unfolded s] no, of invplg ign]
    and cs = map_step_cases[OF env[unfolded s] no, of invplg]
  show "\<exists>res s'. in_env (\<lambda>C. try_step C flags invplg ign zero no) s = Inr (res, s')"
    by (rule cs) (simp_all add: in_env_def s run run_simps)
  show "mapping_env D flags zero s' \<and> env_keeps s s' \<and>
      (\<exists>e. env_look s' no = Some e \<and> try_entry flags ign s no e) \<and>
      (\<forall>q \<in> mappable_in D. q \<noteq> no \<longrightarrow> env_look s' q = env_look s q)"
    if "in_env (\<lambda>C. try_step C flags invplg ign zero no) s = Inr (Inr (), s')"
    using that
    by - (rule cs; auto simp: in_env_def s run run_simps env_keeps_def env_look_def fresh_entry_def
        env_free_def try_entry_def split: if_splits)
  show "mapping_env D flags zero s' \<and> env_keeps s s' \<and> try_error ign s no x \<and>
      (\<forall>q \<in> mappable_in D. env_look s' q = env_look s q)"
    if "in_env (\<lambda>C. try_step C flags invplg ign zero no) s = Inr (Inl x, s')"
    using that env
    by - (rule cs; auto simp: in_env_def s run run_simps env_keeps_def env_look_def try_error_def
        keeps_refl mappable_in_def dest: mappableD(4) split: if_splits)
qed

section \<open>Ranges\<close>

text \<open>Pages of the lower half of the address space are mappable.\<close>

lemma lower_half_mappable:
  assumes "no < 2 ^ 35"
  shows "mappable (nth_page no)"
proof -
  have u: "unat no < 2 ^ 35" using assms by (simp add: word_less_nat_alt)
  then have "unat (no * 4096) = unat no * 4096" by (simp add: unat_word_ariths)
  with u have "drop_bit 47 (no * 4096) = 0"
    by (simp add: word_unat_eq_iff drop_bit_eq_div unat_div)
  moreover have "p4_index (nth_page no) < 256"
  proof -
    have "unat (drop_bit 27 no) < 256" using u by (simp add: drop_bit_eq_div unat_div)
    moreover have "drop_bit 27 no AND 511 \<le> drop_bit 27 no" by (rule word_and_le2)
    ultimately show ?thesis by (simp add: p4_index_def nth_page_def word_less_nat_alt word_le_nat_alt)
  qed
  moreover have "no < 2 ^ 52" by (rule order_less_trans[OF assms]) simp
  ultimately show ?thesis by (auto simp: mappable_def nth_page_def canonical_def)
qed

text \<open>The pages from the heap up to the end of the address space.\<close>

lemma kernel_page_mappable:
  assumes "0xFFFFFFFF40000 \<le> unat no" and "unat no < 2 ^ 52"
  shows "mappable (nth_page no)"
proof -
  have "unat (no * 4096) = unat no * 4096" using assms by (simp add: unat_word_ariths)
  then have "unat (drop_bit 47 (no * 4096)) = 0x1FFFF" using assms by (simp add: drop_bit_eq_div unat_div)
  then have "drop_bit 47 (no * 4096) = 0x1FFFF" by (simp add: word_unat_eq_iff)
  moreover have "unat (drop_bit 27 no) = 0x1FFFFFF" using assms by (simp add: drop_bit_eq_div unat_div)
  then have "drop_bit 27 no = 0x1FFFFFF" by (simp add: word_unat_eq_iff)
  then have "p4_index (nth_page no) = 511" by (simp add: p4_index_def nth_page_def)
  moreover have "no < 2 ^ 52" using assms by (simp add: word_less_nat_alt)
  ultimately show ?thesis by (simp add: mappable_def nth_page_def canonical_def)
qed

text \<open>The outcome of a loop over a range, in terms of the machine: which pages have been
  mapped, and that all others are as before.\<close>

definition mapped_fresh :: "('t \<Rightarrow> u64 set) \<Rightarrow> u64 \<Rightarrow> ('t, 'z) machine_scheme
    \<Rightarrow> ('t, 'z) machine_scheme \<Rightarrow> u64 \<Rightarrow> bool" where
  "mapped_fresh free flags m m' no \<longleftrightarrow> (\<exists>f \<in> phys_free free m.
     phys_walk m' (cr3 m) (nth_page no) = Some (f OR (flags OR PRESENT), Kib4))"

definition unchanged_outside :: "('t, 'z) machine_scheme \<Rightarrow> ('t, 'z) machine_scheme \<Rightarrow> u64 set \<Rightarrow> bool" where
  "unchanged_outside m m' X \<longleftrightarrow> (\<forall>no. mappable (nth_page no) \<and> no \<notin> X \<longrightarrow>
     phys_walk m' (cr3 m) (nth_page no) = phys_walk m (cr3 m) (nth_page no))"

text \<open>The pages that do not lie in 2 MiB pages.\<close>

definition small_pages :: "('t, 'z) machine_scheme \<Rightarrow> u64 set" where
  "small_pages m = {no. \<forall>e. phys_walk m (cr3 m) (nth_page no) \<noteq> Some (e, Mib2)}"

lemma small_pages_env:
  "friendly_contract C ok free \<Longrightarrow> x86_64_contract C \<Longrightarrow> pt_inv ok free m (cr3 m) \<Longrightarrow> flags_ok flags \<Longrightarrow>
    zero = Zero \<longrightarrow> pte_writable flags \<or> \<not> cr0_wp m \<Longrightarrow>
    mapping_env (small_pages m) flags zero (C, ok, free, m)"
  by (simp add: mapping_env_def mappable_in_def small_pages_def)

lemma env_outside:
  assumes ext: "env_keeps (C, ok, free, m) (C, ok, free, m')"
    and rest: "\<forall>q \<in> mappable_in (small_pages m) - X.
      env_look (C, ok, free, m') q = env_look (C, ok, free, m) q"
  shows "unchanged_outside m m' X"
  unfolding unchanged_outside_def
proof (intro allI impI, elim conjE)
  fix no assume no: "mappable (nth_page no)" "no \<notin> X"
  have c3: "cr3 m' = cr3 m" using ext by (auto simp: env_keeps_def intro: keeps_cr3)
  show "phys_walk m' (cr3 m) (nth_page no) = phys_walk m (cr3 m) (nth_page no)"
  proof (cases "no \<in> small_pages m")
    case True
    with no rest show ?thesis by (auto simp: mappable_in_def env_look_def c3)
  next
    case False
    then obtain e where "phys_walk m (cr3 m) (nth_page no) = Some (e, Mib2)"
      by (auto simp: small_pages_def)
    with ext mappableD(4)[OF no(1)] show ?thesis by (auto simp: env_keeps_def)
  qed
qed

lemma in_env_Inr:
  "in_env f (C, ok, free, m) = Inr (x, s') \<longleftrightarrow> (\<exists>m'. f C m = Inr (x, m') \<and> s' = (C, ok, free, m'))"
  by (auto simp: in_env_def split: sum.splits)

lemma map_steps_total:
  assumes fc: "friendly_contract C ok free" and x: "x86_64_contract C" and inv: "pt_inv ok free m (cr3 m)"
    and flags: "flags_ok flags" and wr: "zero = Zero \<longrightarrow> pte_writable flags \<or> \<not> cr0_wp m"
    and pages: "\<forall>no \<in> set ps. mappable (nth_page no) \<and> no \<in> small_pages m" and dist: "distinct ps"
  shows "\<exists>res m' ds rs. for_each_res ps (map_step C flags invplg zero) m = Inr (res, m') \<and>
    pt_inv ok free m' (cr3 m) \<and> keeps free (cr3 m) m m' \<and> ps = ds @ rs \<and> (res = Inr () \<longrightarrow> rs = []) \<and>
    (\<forall>no \<in> set ds. mapped_fresh free flags m m' no) \<and> unchanged_outside m m' (set ds)"
proof -
  let ?s = "(C, ok, free, m)" and ?D = "small_pages m"
  have env: "mapping_env ?D flags zero ?s" by (rule small_pages_env[OF fc x inv flags wr])
  have sub: "set ps \<subseteq> mappable_in ?D" using pages by (auto simp: mappable_in_def)
  from map_loop.updates_total[OF env sub dist, of invplg] obtain res s' ds rs where
    run: "for_each_res ps (\<lambda>no. in_env (\<lambda>C. map_step C flags invplg zero no)) ?s = Inr (res, s')"
    and env': "mapping_env ?D flags zero s'" and ext: "env_keeps ?s s'" and ps: "ps = ds @ rs"
    and dn: "\<forall>p \<in> set ds. map_loop.updated flags ?s s' p"
    and rest: "\<forall>q \<in> mappable_in ?D - set ds. env_look s' q = env_look ?s q"
    and stop: "map_loop.stopped ?s rs res" by blast
  from run obtain m' where s': "s' = (C, ok, free, m')"
    and loop: "for_each_res ps (map_step C flags invplg zero) m = Inr (res, m')"
    unfolding for_each_res_in_env[symmetric] in_env_Inr by blast
  have k: "keeps free (cr3 m) m m'" using ext by (simp add: s' env_keeps_def)
  have "mapped_fresh free flags m m' no" if "no \<in> set ds" for no
  proof -
    from bspec[OF dn that] obtain e t where e: "env_look s' no = Some e" "env_keeps ?s t"
      "fresh_entry flags t no e"
      by (auto simp: map_loop.updated_def)
    from fresh_entry_keeps[OF e(2,3)] e(1) show ?thesis
      by (auto simp: mapped_fresh_def fresh_entry_def env_free_def env_look_def s' keeps_cr3[OF k])
  qed
  moreover have "res = Inr () \<longrightarrow> rs = []" using stop by (auto simp: map_loop.stopped_def)
  moreover have "unchanged_outside m m' (set ds)" by (rule env_outside[OF ext[unfolded s'] rest[unfolded s']])
  ultimately show ?thesis
    using env' k ps loop by (auto simp: s' mapping_env_def keeps_cr3[OF k])
qed

lemma map_range_total:
  assumes "friendly_contract C ok free" and "x86_64_contract C" and "pt_inv ok free m (cr3 m)"
    and "flags_ok flags" and "zero = Zero \<longrightarrow> pte_writable flags \<or> \<not> cr0_wp m"
    and sizes: "page_size pg_start = Some Kib4" "page_size pg_end = Some Kib4"
    and pages: "\<forall>no \<in> {number pg_start..number pg_end}. mappable (nth_page no) \<and> no \<in> small_pages m"
  shows "\<exists>res m' ds rs. map_range C pg_start pg_end flags invplg zero m = Inr (res, m') \<and>
    pt_inv ok free m' (cr3 m) \<and> keeps free (cr3 m) m m' \<and>
    range_incl (number pg_start) (number pg_end) = ds @ rs \<and> (res = Inr () \<longrightarrow> rs = []) \<and>
    (\<forall>no \<in> set ds. mapped_fresh free flags m m' no) \<and> unchanged_outside m m' (set ds)"
proof -
  have "map_range C pg_start pg_end flags invplg zero m =
      for_each_res (range_incl (number pg_start) (number pg_end)) (map_step C flags invplg zero) m"
    using sizes by (simp add: map_range_def panic_unless_True map_step_def[abs_def])
  with map_steps_total[OF assms(1-5) _ distinct_range_incl, of "number pg_start" "number pg_end" invplg] pages
  show ?thesis by (simp add: set_range_incl)
qed

text \<open>The checks of \<open>try_map_user_range\<close> confine it to the lower half, below the stack.\<close>

lemma user_range_ok:
  assumes "user_range_error C pg_start pg_end v_start v_end = None" and "no \<le> number pg_end"
  shows "no < 2 ^ 35" and "no \<le> number (containing_address STACK_BOTTOM)"
proof -
  have "number pg_end \<le> number (containing_address STACK_BOTTOM)"
    using assms(1) by (auto simp: user_range_error_def not_less split: if_splits)
  with assms(2) show le: "no \<le> number (containing_address STACK_BOTTOM)" by simp
  show "no < 2 ^ 35"
    by (rule order_le_less_trans[OF le])
      (simp add: containing_address_def STACK_BOTTOM_def STACK_TOP_def INITIAL_STACK_SIZE_PAGES_def)
qed

lemma try_steps_total:
  assumes fc: "friendly_contract C ok free" and x: "x86_64_contract C" and inv: "pt_inv ok free m (cr3 m)"
    and flags: "flags_ok flags" and wr: "zero = Zero \<longrightarrow> pte_writable flags \<or> \<not> cr0_wp m"
    and pages: "\<forall>no \<in> set ps. mappable (nth_page no) \<and> no \<in> small_pages m" and dist: "distinct ps"
  shows "\<exists>res m' ds rs. for_each_res ps (try_step C flags invplg ign zero) m = Inr (res, m') \<and>
    pt_inv ok free m' (cr3 m) \<and> keeps free (cr3 m) m m' \<and> ps = ds @ rs \<and> (res = Inr () \<longrightarrow> rs = []) \<and>
    (\<forall>no \<in> set ds. mapped_fresh free flags m m' no \<and> (ign \<or> phys_walk m (cr3 m) (nth_page no) = None)) \<and>
    unchanged_outside m m' (set ds) \<and>
    (\<forall>page. res = Inl (AlreadyMapped page) \<longrightarrow>
       \<not> ign \<and> phys_walk m (cr3 m) page \<noteq> None \<and> number page \<in> set rs)"
proof -
  let ?s = "(C, ok, free, m)" and ?D = "small_pages m"
  have env: "mapping_env ?D flags zero ?s" by (rule small_pages_env[OF fc x inv flags wr])
  have sub: "set ps \<subseteq> mappable_in ?D" using pages by (auto simp: mappable_in_def)
  from try_loop.updates_total[OF env sub dist, of invplg ign] obtain res s' ds rs where
    run: "for_each_res ps (\<lambda>no. in_env (\<lambda>C. try_step C flags invplg ign zero no)) ?s = Inr (res, s')"
    and env': "mapping_env ?D flags zero s'" and ext: "env_keeps ?s s'" and ps: "ps = ds @ rs"
    and dn: "\<forall>p \<in> set ds. try_loop.updated flags ign ?s s' p"
    and rest: "\<forall>q \<in> mappable_in ?D - set ds. env_look s' q = env_look ?s q"
    and stop: "try_loop.stopped ign ?s rs res" by blast
  from run obtain m' where s': "s' = (C, ok, free, m')"
    and loop: "for_each_res ps (try_step C flags invplg ign zero) m = Inr (res, m')"
    unfolding for_each_res_in_env[symmetric] in_env_Inr by blast
  have k: "keeps free (cr3 m) m m'" using ext by (simp add: s' env_keeps_def)
  have "mapped_fresh free flags m m' no \<and> (ign \<or> phys_walk m (cr3 m) (nth_page no) = None)" if "no \<in> set ds" for no
  proof -
    from bspec[OF dn that] obtain e t where e: "env_look s' no = Some e" "env_keeps ?s t"
      "env_look t no = env_look ?s no" "try_entry flags ign t no e"
      by (auto simp: try_loop.updated_def)
    have "fresh_entry flags ?s no e"
      using fresh_entry_keeps[OF e(2)] e(4) by (simp add: try_entry_def)
    then show ?thesis using e(1,3,4)
      by (auto simp: mapped_fresh_def fresh_entry_def env_free_def env_look_def s' keeps_cr3[OF k] try_entry_def)
  qed
  moreover have "\<not> ign \<and> phys_walk m (cr3 m) page \<noteq> None \<and> number page \<in> set rs" if "res = Inl (AlreadyMapped page)" for page
  proof -
    from stop that obtain p rs' t where "rs = p # rs'" "env_look t p = env_look ?s p"
      "env_keeps ?s t" "try_error ign t p (AlreadyMapped page)"
      by (auto simp: try_loop.stopped_def)
    then show ?thesis by (auto simp: try_error_def env_look_def nth_page_def)
  qed
  moreover have "res = Inr () \<longrightarrow> rs = []" using stop by (auto simp: try_loop.stopped_def)
  moreover have "unchanged_outside m m' (set ds)" by (rule env_outside[OF ext[unfolded s'] rest[unfolded s']])
  moreover have "pt_inv ok free m' (cr3 m)" using env' by (simp add: s' mapping_env_def keeps_cr3[OF k])
  ultimately show ?thesis using k ps loop by (intro exI[of _ res] exI[of _ m'] exI[of _ ds] exI[of _ rs]) simp
qed

lemma try_map_user_range_run:
  assumes "page_size pg_start = Some Kib4" "page_size pg_end = Some Kib4"
    and "number pg_start < 2 ^ 52" "number pg_end < 2 ^ 52"
  shows "try_map_user_range C pg_start pg_end flags invplg ign zero m =
     (case user_range_error C pg_start pg_end (number pg_start * 4096) (number pg_end * 4096) of
        Some e \<Rightarrow> Inr (Inl e, m)
      | None \<Rightarrow> for_each_res (range_incl (number pg_start) (number pg_end)) (try_step C flags invplg ign zero) m)"
  using assms
  by (simp add: try_map_user_range_def panic_unless_True run_simps start_address_run
      try_step_def[abs_def] split: option.split)

lemma try_map_user_range_total:
  assumes fc: "friendly_contract C ok free" and x: "x86_64_contract C" and inv: "pt_inv ok free m (cr3 m)"
    and flags: "flags_ok flags" and wr: "zero = Zero \<longrightarrow> pte_writable flags \<or> \<not> cr0_wp m"
    and sizes: "page_size pg_start = Some Kib4" "page_size pg_end = Some Kib4"
    and nos: "number pg_start < 2 ^ 52" "number pg_end < 2 ^ 52"
    and small: "\<forall>no < 2 ^ 35. no \<in> small_pages m"
  shows "\<exists>res m' ds.
    try_map_user_range C pg_start pg_end flags invplg ign zero m = Inr (res, m') \<and>
    pt_inv ok free m' (cr3 m) \<and> keeps free (cr3 m) m m' \<and>
    prefix ds (range_incl (number pg_start) (number pg_end)) \<and>
    (res = Inr () \<longrightarrow> ds = range_incl (number pg_start) (number pg_end)) \<and>
    (\<forall>no \<in> set ds. no \<le> number (containing_address STACK_BOTTOM) \<and> mapped_fresh free flags m m' no \<and>
       (ign \<or> phys_walk m (cr3 m) (nth_page no) = None)) \<and>
    unchanged_outside m m' (set ds) \<and>
    (\<forall>page. res = Inl (AlreadyMapped page) \<longrightarrow> \<not> ign \<and> phys_walk m (cr3 m) page \<noteq> None \<and>
       number pg_start \<le> number page \<and> number page \<le> number pg_end)"
proof -
  let ?ps = "range_incl (number pg_start) (number pg_end)"
  let ?v = "number pg_start * 4096" and ?w = "number pg_end * 4096"
  note run0 = try_map_user_range_run[OF sizes nos, of C flags invplg ign zero m]
  show ?thesis
  proof (cases "user_range_error C pg_start pg_end ?v ?w")
    case (Some e)
    then have "e \<noteq> AlreadyMapped page" for page
      by (auto simp: user_range_error_def split: if_splits)
    with Some run0 inv show ?thesis
      by (intro exI[of _ "Inl e"] exI[of _ m] exI[of _ "[]"])
        (simp add: keeps_refl unchanged_outside_def)
  next
    case None
    note low = user_range_ok[OF None]
    have pages: "\<forall>no \<in> set ?ps. mappable (nth_page no) \<and> no \<in> small_pages m"
      using low(1) lower_half_mappable small by (auto simp: set_range_incl)
    from try_steps_total[OF fc x inv flags wr pages distinct_range_incl, of invplg ign] obtain res m' ds rs where
      loop: "for_each_res ?ps (try_step C flags invplg ign zero) m = Inr (res, m')"
      and inv': "pt_inv ok free m' (cr3 m)" "keeps free (cr3 m) m m'" and ps: "?ps = ds @ rs" "res = Inr () \<longrightarrow> rs = []"
      and dn: "\<forall>no \<in> set ds. mapped_fresh free flags m m' no \<and> (ign \<or> phys_walk m (cr3 m) (nth_page no) = None)"
      and out: "unchanged_outside m m' (set ds)"
      and al: "\<forall>page. res = Inl (AlreadyMapped page) \<longrightarrow>
        \<not> ign \<and> phys_walk m (cr3 m) page \<noteq> None \<and> number page \<in> set rs" by blast
    have inr: "no \<in> {number pg_start..number pg_end}" if "no \<in> set ds \<union> set rs" for no
      using that ps(1) set_range_incl[of "number pg_start" "number pg_end"] by auto
    have "\<forall>no \<in> set ds. no \<le> number (containing_address STACK_BOTTOM)" using low(2) inr by auto
    moreover have "number pg_start \<le> number page \<and> number page \<le> number pg_end"
      if "res = Inl (AlreadyMapped page)" for page using al that inr[of "number page"] by auto
    ultimately show ?thesis
      using loop inv' ps run0 None dn out al
      by (intro exI[of _ res] exI[of _ m'] exI[of _ ds]) simp
  qed
qed

end
