(* ===== verification/Sample_Machines.thy ===== *)
theory Sample_Machines
  imports Page_Ranges
begin

text \<open>
  Concrete machines at which the theorems about page tables are applied: one with a level-4 table, its
  recursive entry and nothing else, and one in which a page is mapped, each with a few free
  frames.
\<close>

declare bit_numeral_word_iff [simp del]

section \<open>A concrete machine\<close>

definition sample_machine :: "u64 list \<Rightarrow> u64 list machine" where
  "sample_machine t = \<lparr>pmem = (\<lambda>f i. if f = 0x1000 \<and> i = 510 then 0x1003 else 0), cr3 = 0x1000,
     cr3_flags = 0, cr0_wp = True, tlb_log = [], phys_trees = Some (sample_trees t),
     heap_tree = None, bootstrap_heap = None\<rparr>"

lemma sample_entry: "pte_present 0x1003" "\<not> pte_huge 0x1003" "pte_writable 0x1003" "pte_frame 0x1003 = 0x1000"
  by (simp_all add: pte_present_def pte_huge_def pte_writable_def pte_frame_def bit_numeral_word_iff)

lemma sample_pmem: "pmem (sample_machine t) f i = (if f = 0x1000 \<and> i = 510 then 0x1003 else 0)"
  by (simp add: sample_machine_def)

lemma sample_recursive: "recursive (sample_machine t) 0x1000"
  by (simp add: recursive_def phys_next_def sample_machine_def sample_entry)

lemma sample_phys_table:
  "tree_path p \<Longrightarrow> phys_table (sample_machine t) 0x1000 p = (if p = [] then Some 0x1000 else None)"
  by (cases p) (auto simp: tree_path_def phys_next_def sample_machine_def pte_present_def)

lemma sample_tables: "tables (sample_machine t) 0x1000 = {0x1000}"
  by (auto simp: tables_def sample_phys_table split: if_splits intro!: exI[of _ "[]"])

lemma sample_walk: "p4_index page \<noteq> 510 \<Longrightarrow> phys_walk (sample_machine t) 0x1000 page = None"
  by (simp add: phys_walk_def phys_next_def sample_machine_def pte_present_def)

lemma sample_pt_inv:
  assumes "list_ok t" and "0x1000 \<notin> set t"
  shows "pt_inv list_ok set (sample_machine t) 0x1000"
proof -
  let ?m = "sample_machine t"
  have "tables_inj ?m 0x1000" by (rule tables_injI) (auto simp: sample_phys_table split: if_splits)
  moreover have "tables_writable ?m 0x1000"
    by (auto simp: tables_writable_def sample_phys_table split: if_splits)
  moreover have "tables_huge_ok ?m 0x1000"
    by (auto simp: tables_huge_ok_def sample_phys_table huge_ok_def sample_pmem pte_huge_def
        split: if_splits)
  moreover have "phys_ok list_ok ?m" "phys_free set ?m = set t"
    using assms(1) by (simp_all add: phys_ok_def phys_free_def sample_machine_def sample_trees_ok sample_trees_free)
  moreover have "cr3 ?m = 0x1000" by (simp add: sample_machine_def)
  ultimately show ?thesis
    using assms(2) by (simp add: pt_inv_def sample_recursive sample_tables)
qed

abbreviation sample_free :: "u64 list" where
  "sample_free \<equiv> [0x2000, 0x3000, 0x4000, 0x5000, 0x6000]"

lemma sample_inv: "pt_inv list_ok set (sample_machine sample_free) 0x1000"
  by (rule sample_pt_inv) (simp_all add: list_ok_def)

lemma sample_page: "mappable (nth_page 0x400)" "p4_index (nth_page 0x400) \<noteq> 510"
  using lower_half_mappable[of "0x400"] by (simp_all add: mappableD(4))

lemma sample_cr3 [simp]: "cr3 (sample_machine t) = 0x1000"
  by (simp add: sample_machine_def)

text \<open>The entry and tables under which page \<open>0x400\<close> is mapped to \<open>0x9000\<close>.\<close>

definition mapped_machine :: "u64 list machine" where
  "mapped_machine = (sample_machine [0x7000])\<lparr>pmem := (\<lambda>f i.
     if f = 0x1000 \<and> i = 510 then 0x1003
     else if f = 0x1000 \<and> i = 0 then 0x2007
     else if f = 0x2000 \<and> i = 0 then 0x3007
     else if f = 0x3000 \<and> i = 2 then 0x4007
     else if f = 0x4000 \<and> i = 0 then 0x9007
     else 0)\<rparr>"

lemma mapped_entries:
  "pte_present 0x2007" "\<not> pte_huge 0x2007" "pte_writable 0x2007" "pte_frame 0x2007 = 0x2000"
  "pte_present 0x3007" "\<not> pte_huge 0x3007" "pte_writable 0x3007" "pte_frame 0x3007 = 0x3000"
  "pte_present 0x4007" "\<not> pte_huge 0x4007" "pte_writable 0x4007" "pte_frame 0x4007 = 0x4000"
  "pte_present 0x9007" "\<not> pte_huge 0x9007" "pte_writable 0x9007" "pte_frame 0x9007 = 0x9000"
  "\<not> pte_present 0" "\<not> pte_huge 0"
  by (simp_all add: pte_present_def pte_huge_def pte_writable_def pte_frame_def bit_numeral_word_iff)

lemma mapped_pmem:
  "pmem mapped_machine = (\<lambda>f i. if f = 0x1000 \<and> i = 510 then 0x1003
     else if f = 0x1000 \<and> i = 0 then 0x2007 else if f = 0x2000 \<and> i = 0 then 0x3007
     else if f = 0x3000 \<and> i = 2 then 0x4007 else if f = 0x4000 \<and> i = 0 then 0x9007 else 0)"
  by (simp add: mapped_machine_def)

lemma mapped_next:
  "phys_next mapped_machine f i =
     (if f = 0x1000 \<and> i = 510 then Some 0x1000 else if f = 0x1000 \<and> i = 0 then Some 0x2000
      else if f = 0x2000 \<and> i = 0 then Some 0x3000 else if f = 0x3000 \<and> i = 2 then Some 0x4000
      else if f = 0x4000 \<and> i = 0 then Some 0x9000 else None)"
  by (auto simp: phys_next_def mapped_machine_def mapped_entries sample_entry)

lemma mapped_phys_table:
  assumes "tree_path p"
  shows "phys_table mapped_machine 0x1000 p = (if p = [] then Some 0x1000 else if p = [0] then Some 0x2000
    else if p = [0, 0] then Some 0x3000 else if p = [0, 0, 2] then Some 0x4000 else None)"
proof -
  consider "p = []" | a where "p = [a]" | a b where "p = [a, b]" | a b c where "p = [a, b, c]"
    using assms by (cases p; cases "tl p"; cases "tl (tl p)"; cases "tl (tl (tl p))")
      (auto simp: tree_path_def path_ok_def)
  then show ?thesis
    by cases (use assms in \<open>auto simp: mapped_next tree_path_def\<close>)
qed

lemma mapped_tables: "tables mapped_machine 0x1000 = {0x1000, 0x2000, 0x3000, 0x4000}"
proof -
  have tp: "tree_path [0]" "tree_path [0, 0]" "tree_path [0, 0, 2]" by (simp_all add: tree_path_def path_ok_def)
  note T = mapped_phys_table
  show ?thesis
  proof
    show "tables mapped_machine 0x1000 \<subseteq> {0x1000, 0x2000, 0x3000, 0x4000}"
      by (auto simp: tables_def T split: if_splits)
    show "{0x1000, 0x2000, 0x3000, 0x4000} \<subseteq> tables mapped_machine 0x1000"
      using tablesI[OF tree_path_Nil, of mapped_machine "0x1000"] tablesI[OF tp(1), of mapped_machine "0x1000"]
        tablesI[OF tp(2), of mapped_machine "0x1000"] tablesI[OF tp(3), of mapped_machine "0x1000"]
        T[OF tp(1)] T[OF tp(2)] T[OF tp(3)] by auto
  qed
qed

lemma mapped_inv: "pt_inv list_ok set mapped_machine 0x1000"
proof -
  let ?m = mapped_machine
  note T = mapped_phys_table
  have "tables_inj ?m 0x1000" by (rule tables_injI) (auto simp: T split: if_splits)
  moreover have "tables_writable ?m 0x1000"
    by (auto simp: tables_writable_def T mapped_pmem mapped_entries split: if_splits)
  moreover have "tables_huge_ok ?m 0x1000"
    by (auto simp: tables_huge_ok_def T huge_ok_def mapped_pmem mapped_entries sample_entry
        split: if_splits)
  moreover have "phys_ok list_ok ?m" "phys_free set ?m = {0x7000}"
    by (simp_all add: phys_ok_def phys_free_def mapped_machine_def sample_machine_def sample_trees_ok
        sample_trees_free list_ok_def)
  moreover have "recursive ?m 0x1000" "cr3 ?m = 0x1000"
    by (simp_all add: recursive_def mapped_next) (simp_all add: mapped_machine_def sample_entry)
  ultimately show ?thesis by (simp add: pt_inv_def mapped_tables)
qed

lemma mapped_walk: "phys_walk mapped_machine 0x1000 (nth_page 0x400) = Some (0x9007, Kib4)"
  by (simp add: phys_walk_def mapped_next nth_page_def p4_index_def p3_index_def p2_index_def p1_index_def
      mapped_pmem mapped_entries)

text \<open>The next page shares its tables, so mapping it succeeds.\<close>

lemma mapped_page: "mappable (nth_page 0x401)" "p4_index (nth_page 0x401) \<noteq> 510"
  "phys_walk mapped_machine 0x1000 (nth_page 0x401) = None"
  using lower_half_mappable[of "0x401"]
  by (simp_all add: mappableD(4))
    (simp add: phys_walk_def mapped_next nth_page_def p4_index_def p3_index_def p2_index_def p1_index_def
      mapped_pmem mapped_entries)

lemma mapped_cr3 [simp]: "cr3 mapped_machine = 0x1000"
  by (simp add: mapped_machine_def)

lemma mapped_map_to:
  "\<exists>m'. map_to (sample_crates True) (nth_page 0x401) 0xA000 7 Invalidate mapped_machine = Inr (Inr (), m')"
proof (rule map_to_existing[OF sample_x86_64 mapped_inv mapped_page(1)])
  show "entry_args 0xA000 7" by (simp add: entry_args_def)
  show "phys_table mapped_machine 0x1000 (page_path (nth_page 0x401)) = Some 0x4000"
    by (simp add: page_path_def mapped_next nth_page_def p4_index_def p3_index_def p2_index_def)
qed

end
