(* ===== verification/Mapper_Properties.thy ===== *)
theory Mapper_Properties
  imports Sample_Machines
begin

text \<open>
  The properties of the paging code, from the lemmas of \<open>Page_Walk\<close>, \<open>Page_Mapping\<close> and
  \<open>Page_Ranges\<close>, each applied at a machine of \<open>Sample_Machines\<close>.
\<close>

section \<open>The walk\<close>

text \<open>C10: \<open>walk_page_table\<close>, which reads every table through the recursive entry, finds for
  the page of a canonical address what the MMU finds: no entry exactly when the MMU faults, and
  otherwise an entry whose frame (or whose part of a 2 MiB frame) is the one the MMU accesses.\<close>

theorem walk_agrees_with_mmu:
  assumes "recursive m (cr3 m)" and "x86_64_contract C" and "canonical va"
    and "walk_supported m (cr3 m) (containing_address va)"
  shows "\<exists>w. walk_page_table C (containing_address va) m = Inr (w, m) \<and>
    map_option fst (mmu_translate m va) = map_option (walk_target va) w"
  using walk_page_table_phys[OF assms(1,2,4)] mmu_phys_walk[OF assms(3,4)] by blast

theorem walk_agrees_with_mmu_witness:
  "\<exists>w. walk_page_table (sample_crates True) (containing_address 0x400123) (sample_machine []) = Inr (w, sample_machine []) \<and>
    map_option fst (mmu_translate (sample_machine []) 0x400123) = map_option (walk_target 0x400123) w"
proof -
  have "recursive (sample_machine []) (cr3 (sample_machine []))" by (simp add: sample_recursive)
  moreover have "canonical 0x400123" by (simp add: canonical_def)
  moreover have "walk_supported (sample_machine []) (cr3 (sample_machine [])) (containing_address 0x400123)"
    by (simp add: walk_supported_def phys_next_def sample_machine_def pte_present_def containing_address_def
        p4_index_def)
  ultimately show ?thesis by (intro walk_agrees_with_mmu sample_x86_64)
qed

section \<open>Mapping one page\<close>

text \<open>C3: \<open>map_to\<close> always returns.  If it succeeds, the page is translated to the frame
  with the flags and \<open>PRESENT\<close>; it fails only because the frame allocator has no frame for a page
  table.  No other page changes its translation, existing tables stay, memory that is neither a
  table nor free is untouched, the invariant of the page tables is kept, and the TLB entry of
  the page is flushed when asked for.\<close>

theorem map_to_correct:
  assumes "friendly_contract C ok free" and "x86_64_contract C" and "pt_inv ok free m r"
    and "mappable page" and "entry_args pa flags" and "\<forall>e. phys_walk m r page \<noteq> Some (e, Mib2)"
  shows "\<exists>res m'. map_to C page pa flags invplg m = Inr (res, m') \<and>
    pt_inv ok free m' r \<and> keeps free r m m' \<and>
    (\<forall>page'. p4_index page' \<noteq> 510 \<longrightarrow> phys_walk m' r page' =
       (if res = Inr () \<and> page_indices page' = page_indices page
        then Some (pa OR (flags OR PRESENT), Kib4) else phys_walk m r page')) \<and>
    (res = Inr () \<longrightarrow> tlb_log m' = tlb_log m @
       (if invplg = Invalidate then [Flush (number page * 4096)] else [])) \<and>
    (res \<noteq> Inr () \<longrightarrow> (\<exists>m0. grows free r m m0 \<and> phys_allocate C 0 m0 = Inr (None, m')))"
  using assms
proof (cases rule: map_to_cases[where invplg = invplg])
  case (ok m')
  then show ?thesis by auto
next
  case (oom m0 m')
  then show ?thesis by (auto simp: grows_def)
qed

theorem map_to_correct_witness:
  "\<exists>res m'. map_to (sample_crates True) (nth_page 0x400) 0x9000 7 Invalidate (sample_machine sample_free)
      = Inr (res, m') \<and> pt_inv list_ok set m' 0x1000"
proof -
  have "entry_args 0x9000 7" by (simp add: entry_args_def)
  moreover have "\<forall>e. phys_walk (sample_machine sample_free) 0x1000 (nth_page 0x400) \<noteq> Some (e, Mib2)"
    by (simp add: sample_walk sample_page)
  ultimately show ?thesis
    using map_to_correct[OF sample_friendly sample_x86_64 sample_inv sample_page(1)] by blast
qed



text \<open>C17: \<open>unmap\<close> of a page that is mapped to a 4 KiB frame returns, removes the translation
  of that page and of no other, keeps the invariant, and, when asked to free the memory, makes
  exactly that frame free again.\<close>

theorem unmap_correct:
  assumes "friendly_contract C ok free" and "x86_64_contract C" and "pt_inv ok free m r"
    and "mappable page" and "phys_walk m r page = Some (e, Kib4)"
    and "fr = Free \<longrightarrow> pte_frame e \<notin> insert (cr3 m) (tables m r) \<and>
      (\<exists>md. phys_deallocate C (pte_frame e) 0 m = Inr ((), md))"
  shows "\<exists>m'. unmap C page fr invplg m = Inr ((), m') \<and> pt_inv ok free m' r \<and>
    phys_free free m' = (if fr = Free then insert (pte_frame e) (phys_free free m) else phys_free free m) \<and>
    (\<forall>page'. p4_index page' \<noteq> 510 \<longrightarrow> phys_walk m' r page' =
       (if page_indices page' = page_indices page then None else phys_walk m r page'))"
proof (cases fr)
  case Free
  then obtain md where md: "phys_deallocate C (pte_frame e) 0 m = Inr ((), md)"
    and f: "pte_frame e \<notin> tables m r" "pte_frame e \<noteq> cr3 m" using assms(6) by auto
  show ?thesis
    by (rule unmap_free[OF assms(1-5) f md, of invplg]) (simp add: Free)
next
  case NoFree
  show ?thesis
    by (rule unmap_keep[OF assms(2-5), of invplg]) (simp add: NoFree)
qed

theorem unmap_correct_witness:
  "\<exists>m'. unmap (sample_crates True) (nth_page 0x400) Free Invalidate mapped_machine = Inr ((), m') \<and>
     phys_free set m' = {0x9000, 0x7000} \<and> phys_walk m' 0x1000 (nth_page 0x400) = None"
proof -
  have fr: "phys_free set mapped_machine = {0x7000}"
    by (simp add: phys_free_def mapped_machine_def sample_machine_def sample_trees_free)
  have "cr3 mapped_machine = 0x1000" by (simp add: mapped_machine_def)
  then have "0x9000 \<notin> insert (cr3 mapped_machine) (tables mapped_machine 0x1000)"
    by (auto simp: tables_def mapped_phys_table split: if_splits)
  moreover have "\<exists>md. phys_deallocate (sample_crates True) 0x9000 0 mapped_machine = Inr ((), md)"
    by (simp add: phys_deallocate_def mapped_machine_def sample_machine_def sample_trees_def run_simps
        LEVEL_COUNT_def BASE_ORDER_def list_deallocate_def)
  ultimately have "Free = Free \<longrightarrow> pte_frame 0x9007 \<notin> insert (cr3 mapped_machine) (tables mapped_machine 0x1000) \<and>
      (\<exists>md. phys_deallocate (sample_crates True) (pte_frame 0x9007) 0 mapped_machine = Inr ((), md))"
    by (simp add: mapped_entries)
  from unmap_correct[OF sample_friendly sample_x86_64 mapped_inv sample_page(1) mapped_walk this, of Invalidate]
  show ?thesis using sample_page(2) by (auto simp: mapped_entries fr)
qed

text \<open>C20: mapping an unmapped page and unmapping it again leaves every translation, and the
  set of free frames up to the page tables created on the way, as they were.\<close>

theorem map_unmap_roundtrip:
  assumes "friendly_contract C ok free" and "x86_64_contract C" and "pt_inv ok free m r"
    and "mappable page" and "entry_args pa flags" and "phys_walk m r page = None"
    and "map_to C page pa flags invplg m = Inr (Inr (), m1)"
  shows "\<exists>m2. unmap C page NoFree invplg m1 = Inr ((), m2) \<and> pt_inv ok free m2 r \<and>
    phys_free free m2 \<subseteq> phys_free free m \<and>
    (\<forall>page'. p4_index page' \<noteq> 510 \<longrightarrow> phys_walk m2 r page' = phys_walk m r page')"
proof -
  have "\<forall>e. phys_walk m r page \<noteq> Some (e, Mib2)" using assms(6) by simp
  with assms(1-5) show ?thesis
  proof (cases rule: map_to_cases[where invplg = invplg])
    case (ok m')
    then have m': "m' = m1" using assms(7) by simp
    note o = ok[unfolded m']
    have "phys_walk m1 r page = Some (pa OR (flags OR PRESENT), Kib4)"
      using o(4)[OF mappableD(4)[OF assms(4)]] by simp
    from assms(2) o(2) assms(4) this obtain m2 where
      u: "unmap C page NoFree invplg m1 = Inr ((), m2)" "pt_inv ok free m2 r"
      "\<And>page'. p4_index page' \<noteq> 510 \<Longrightarrow> phys_walk m2 r page' =
         (if page_indices page' = page_indices page then None else phys_walk m1 r page')"
      "phys_free free m2 = phys_free free m1"
      by (rule unmap_keep[where invplg = invplg]) blast
    have "phys_walk m2 r page' = phys_walk m r page'" if "p4_index page' \<noteq> 510" for page'
      using u(3)[OF that] o(4)[OF that] assms(6) phys_walk_indices[of page' page m r] by simp
    with u keepsD(5)[OF o(3)] show ?thesis by auto
  next
    case (oom m0 m')
    with assms(7) show ?thesis by simp
  qed
qed

theorem map_unmap_roundtrip_witness:
  "\<exists>m1 m2. map_to (sample_crates True) (nth_page 0x401) 0xA000 7 Invalidate mapped_machine = Inr (Inr (), m1) \<and>
    unmap (sample_crates True) (nth_page 0x401) NoFree Invalidate m1 = Inr ((), m2) \<and>
    phys_walk m2 0x1000 (nth_page 0x400) = Some (0x9007, Kib4)"
proof -
  obtain m1 where m1: "map_to (sample_crates True) (nth_page 0x401) 0xA000 7 Invalidate mapped_machine
      = Inr (Inr (), m1)"
    using mapped_map_to by blast
  have args: "entry_args 0xA000 7" by (simp add: entry_args_def)
  from map_unmap_roundtrip[OF sample_friendly sample_x86_64 mapped_inv mapped_page(1) args mapped_page(3) m1]
  show ?thesis using m1 mapped_walk sample_page(2) by auto
qed

section \<open>Mapping to fresh frames\<close>

text \<open>The frames pages are mapped to, and the invariant that they are neither free nor page
  tables.\<close>

definition mapped_frames :: "('t, 'z) machine_scheme \<Rightarrow> u64 \<Rightarrow> u64 set" where
  "mapped_frames m r = {pte_frame e | e. \<exists>page. mappable page \<and> phys_walk m r page = Some (e, Kib4)}"

lemma mapped_framesI:
  "mappable page \<Longrightarrow> phys_walk m r page = Some (e, Kib4) \<Longrightarrow> pte_frame e \<in> mapped_frames m r"
  by (auto simp: mapped_frames_def)

definition isolated :: "('t \<Rightarrow> u64 set) \<Rightarrow> ('t, 'z) machine_scheme \<Rightarrow> u64 \<Rightarrow> bool" where
  "isolated free m r \<longleftrightarrow> mapped_frames m r \<inter> (phys_free free m \<union> tables m r) = {}"

lemma isolated_keeps:
  assumes "isolated free m r" and "keeps free r m m'" and "f \<notin> phys_free free m'" "f \<notin> tables m' r"
    and "mapped_frames m' r \<subseteq> insert f (mapped_frames m r)"
  shows "isolated free m' r"
  using assms(1,3-5) keepsD(4,5)[OF assms(2)] unfolding isolated_def by blast

text \<open>C2: \<open>map\<close> always returns, and memory isolation is kept: the frame it maps is one that no
  page was mapped to and that holds no page table, it is cleared when asked for, and afterwards
  still no page is mapped to a free frame or to a page table.\<close>

theorem map_page_isolated:
  assumes "friendly_contract C ok free" and "x86_64_contract C" and "pt_inv ok free m r"
    and "cr3 m = r" and "mappable page" and "flags_ok flags"
    and "\<forall>e. phys_walk m r page \<noteq> Some (e, Mib2)"
    and "zero = Zero \<longrightarrow> pte_writable flags \<or> \<not> cr0_wp m" and iso: "isolated free m r"
  shows "\<exists>res m'. map_page C page flags invplg zero m = Inr (res, m') \<and> pt_inv ok free m' r \<and>
    isolated free m' r \<and>
    (res = Inr () \<longrightarrow> (\<exists>f. phys_walk m' r page = Some (f OR (flags OR PRESENT), Kib4) \<and>
       f \<in> phys_free free m - phys_free free m' \<and> f \<notin> mapped_frames m r \<and>
       (zero = Zero \<longrightarrow> (\<forall>i < 512. pmem m' f i = 0))))"
  using assms(1-8)
proof (cases rule: map_page_cases[where invplg = invplg])
  case (ok f m')
  have "f < 2 ^ 38" "f AND 0xFFF = 0" using phys_free_bound[OF assms(1) pt_invD(2)[OF assms(3)] ok(4)] .
  then have "entry_args f flags" using assms(6)
    by (auto simp: entry_args_def flags_ok_def intro: order_less_trans)
  note fe = entry_args_present(2)[OF this]
  have "mapped_frames m' r \<subseteq> insert f (mapped_frames m r)"
  proof
    fix g assume "g \<in> mapped_frames m' r"
    then obtain e page' where g: "g = pte_frame e" "mappable page'" "phys_walk m' r page' = Some (e, Kib4)"
      by (auto simp: mapped_frames_def)
    show "g \<in> insert f (mapped_frames m r)"
    proof (cases "page_indices page' = page_indices page")
      case True
      with ok(7)[OF mappableD(4)[OF g(2)]] fe g show ?thesis by simp
    next
      case False
      with ok(7)[OF mappableD(4)[OF g(2)]] g have "phys_walk m r page' = Some (e, Kib4)" by simp
      from mapped_framesI[OF g(2) this] g(1) show ?thesis by simp
    qed
  qed
  then have "isolated free m' r" by (rule isolated_keeps[OF iso ok(3,5,6)])
  moreover have "f \<notin> mapped_frames m r" using iso ok(4) by (auto simp: isolated_def)
  ultimately show ?thesis using ok mappableD(4)[OF assms(5)] by auto
next
  case (oom m')
  have k: "keeps free r m m'" using oom(3) by (simp add: grows_def)
  have "phys_walk m' r page = phys_walk m r page" if "mappable page" for page
    using oom(3) mappableD(4)[OF that] by (simp add: grows_def)
  then have eq: "mapped_frames m' r = mapped_frames m r"
    unfolding mapped_frames_def by (simp cong: conj_cong)
  have "isolated free m' r"
    using iso keepsD(4,5)[OF k] eq unfolding isolated_def by blast
  with oom show ?thesis by auto
qed

theorem map_page_isolated_witness:
  "\<exists>res m'. map_page (sample_crates True) (nth_page 0x400) 7 NoInvalidate Zero (sample_machine sample_free)
      = Inr (res, m') \<and> isolated set m' 0x1000"
proof -
  have h: "flags_ok 7" "\<forall>e. phys_walk (sample_machine sample_free) 0x1000 (nth_page 0x400) \<noteq> Some (e, Mib2)"
    "Zero = Zero \<longrightarrow> pte_writable 7 \<or> \<not> cr0_wp (sample_machine sample_free)"
    by (simp_all add: flags_ok_def sample_walk sample_page pte_writable_def bit_numeral_word_iff)
  have "isolated set (sample_machine sample_free) 0x1000"
    by (auto simp: isolated_def mapped_frames_def sample_walk dest: mappableD(4))
  from map_page_isolated[OF sample_friendly sample_x86_64 sample_inv sample_cr3 sample_page(1) h this]
  show ?thesis by blast
qed

section \<open>Ranges of pages\<close>

lemma sample_small: "p4_index (nth_page no) \<noteq> 510 \<Longrightarrow> no \<in> small_pages (sample_machine t)"
  by (simp add: small_pages_def sample_walk)

text \<open>C18: \<open>map_range\<close> over pages that can be mapped returns, and maps a prefix of the range
  (all of it if it succeeds), each page to a frame that was free, with the flags asked for; every
  page outside that prefix keeps its translation.\<close>

theorem map_range_correct:
  assumes "friendly_contract C ok free" and "x86_64_contract C" and "pt_inv ok free m (cr3 m)"
    and "flags_ok flags" and "zero = Zero \<longrightarrow> pte_writable flags \<or> \<not> cr0_wp m"
    and "page_size pg_start = Some Kib4" and "page_size pg_end = Some Kib4"
    and "\<forall>no \<in> {number pg_start..number pg_end}. mappable (nth_page no) \<and> no \<in> small_pages m"
  shows "\<exists>res m' ds rs. map_range C pg_start pg_end flags invplg zero m = Inr (res, m') \<and>
    pt_inv ok free m' (cr3 m) \<and> keeps free (cr3 m) m m' \<and>
    range_incl (number pg_start) (number pg_end) = ds @ rs \<and> (res = Inr () \<longrightarrow> rs = []) \<and>
    (\<forall>no \<in> set ds. mapped_fresh free flags m m' no) \<and> unchanged_outside m m' (set ds)"
  using assms by (rule map_range_total)

theorem map_range_correct_witness:
  "\<exists>res m'. map_range (sample_crates False) (nth_page 0x400) (nth_page 0x402) 7 NoInvalidate NoZero
      (sample_machine sample_free) = Inr (res, m') \<and> pt_inv list_ok set m' 0x1000"
proof -
  have inv: "pt_inv list_ok set (sample_machine sample_free) (cr3 (sample_machine sample_free))"
    using sample_inv by simp
  have f: "flags_ok 7" "NoZero = Zero \<longrightarrow> pte_writable 7 \<or> \<not> cr0_wp (sample_machine sample_free)"
    "page_size (nth_page 0x400) = Some Kib4" "page_size (nth_page 0x402) = Some Kib4"
    by (simp_all add: flags_ok_def nth_page_def)
  have "mappable (nth_page no) \<and> no \<in> small_pages (sample_machine sample_free)" if "no \<le> 0x402" for no
  proof -
    have "no < 2 ^ 35" by (rule order_le_less_trans[OF that]) simp
    then show ?thesis by (simp add: lower_half_mappable sample_small mappableD(4))
  qed
  then have "\<forall>no \<in> {number (nth_page 0x400)..number (nth_page 0x402)}.
      mappable (nth_page no) \<and> no \<in> small_pages (sample_machine sample_free)"
    by (simp add: nth_page_def)
  from map_range_correct[OF sample_friendly sample_x86_64 inv f this, unfolded sample_cr3]
  show ?thesis by blast
qed

text \<open>C5: \<open>try_map_user_range\<close> returns for every range of 4 KiB pages whose addresses do not
  overflow.  The pages it maps lie at or below the page of the stack's bottom, are mapped to
  frames that were free, and were unmapped before unless mapped pages are ignored; every other
  page, those of the kernel included, keeps its translation, and \<open>AlreadyMapped\<close> names a page of
  the range that is mapped.\<close>

theorem try_map_user_range_safe:
  assumes "friendly_contract C ok free" and "x86_64_contract C" and "pt_inv ok free m (cr3 m)"
    and "flags_ok flags" and "zero = Zero \<longrightarrow> pte_writable flags \<or> \<not> cr0_wp m"
    and "page_size pg_start = Some Kib4" and "page_size pg_end = Some Kib4"
    and "number pg_start < 2 ^ 52" and "number pg_end < 2 ^ 52"
    and "\<forall>no < 2 ^ 35. no \<in> small_pages m"
  shows "\<exists>res m' ds.
    try_map_user_range C pg_start pg_end flags invplg ign zero m = Inr (res, m') \<and>
    pt_inv ok free m' (cr3 m) \<and> keeps free (cr3 m) m m' \<and>
    prefix ds (range_incl (number pg_start) (number pg_end)) \<and>
    (res = Inr () \<longrightarrow> ds = range_incl (number pg_start) (number pg_end)) \<and>
    (\<forall>no \<in> set ds. no \<le> number (containing_address STACK_BOTTOM) \<and> mapped_fresh free flags m m' no \<and>
       (ign \<or> phys_walk m (cr3 m) (nth_page no) = None)) \<and>
    unchanged_outside m m' (set ds) \<and>
    (\<forall>page. res = Inl (AlreadyMapped page) \<longrightarrow> \<not> ign \<and> phys_walk m (cr3 m) page \<noteq> None \<and>
       number pg_start \<le> number page \<and> number page \<le> number pg_end)"
  using assms by (rule try_map_user_range_total)

theorem try_map_user_range_safe_witness:
  "\<exists>res m'. try_map_user_range (sample_crates True) (nth_page 0x400) (nth_page 0x402) 7 NoInvalidate False Zero
      (sample_machine sample_free) = Inr (res, m') \<and> pt_inv list_ok set m' 0x1000"
proof -
  have inv: "pt_inv list_ok set (sample_machine sample_free) (cr3 (sample_machine sample_free))"
    using sample_inv by simp
  have f: "flags_ok 7" "Zero = Zero \<longrightarrow> pte_writable 7 \<or> \<not> cr0_wp (sample_machine sample_free)"
    "page_size (nth_page 0x400) = Some Kib4" "page_size (nth_page 0x402) = Some Kib4"
    "number (nth_page 0x400) < 2 ^ 52" "number (nth_page 0x402) < 2 ^ 52"
    by (simp_all add: flags_ok_def nth_page_def pte_writable_def bit_numeral_word_iff)
  have "\<forall>no < 2 ^ 35. no \<in> small_pages (sample_machine sample_free)"
    using lower_half_mappable mappableD(4) sample_small by blast
  from try_map_user_range_safe[OF sample_friendly sample_x86_64 inv f this, unfolded sample_cr3]
  show ?thesis by blast
qed

end
