(* ===== verification/Kernel_Heap.thy ===== *)
theory Kernel_Heap
  imports Page_Map
begin

text \<open>
  \<open>kernel/src/memory/heap.rs\<close>: the kernel heap, a buddy tree over 1 GiB of virtual addresses
  from \<open>HEAP_START\<close> whose pages are mapped when they are first handed out.  The static
  \<open>HEAP\<close> is the field \<open>heap_tree\<close> of the machine, \<^const>\<open>None\<close> until \<open>init\<close>.  A pointer is its address and the null
  pointer is 0.  The lemmas here show what \<open>order\<close> computes; those about \<open>alloc\<close> are in
  \<open>Heap_Properties\<close>.
\<close>

section \<open>Sizes and orders\<close>

definition HEAP_START :: u64 where "HEAP_START = 0xFFFFFFFF40000000"
definition HEAP_BASE_ORDER :: u8 where "HEAP_BASE_ORDER = 6"
definition HEAP_LEVELS :: nat where "HEAP_LEVELS = 25"

definition heap_tree_size :: "'t crates \<Rightarrow> u64" where
  "heap_tree_size C = of_nat (blocks_in_tree C HEAP_LEVELS)"

text \<open>The loop of \<open>log2_floor\<close>, whose counter is an \<open>i32\<close>.\<close>

function log2_loop :: "u64 \<Rightarrow> 32 word \<Rightarrow> 32 word" where
  "log2_loop val n = (if 1 < val then log2_loop (drop_bit 1 val) (n + 1) else n)"
  by pat_completeness auto

termination
proof (relation "measure (\<lambda>(val, n). unat val)")
  fix val :: u64 and n :: "32 word"
  assume "1 < val"
  then have "1 < unat val" by (simp add: word_less_nat_alt)
  then show "((drop_bit 1 val, n + 1), val, n) \<in> measure (\<lambda>(val, n). unat val)"
    by (simp add: drop_bit_eq_div unat_div)
qed simp

definition log2_floor :: "u64 \<Rightarrow> u8" where
  "log2_floor val = ucast (log2_loop val 0)"

definition log2_ceil :: "bool \<Rightarrow> u64 \<Rightarrow> ('s, u8) comp" where
  "log2_ceil chk val =
     (let n = log2_floor val in
      bind (shl_ck chk 1 (unat n)) (\<lambda>p. if val \<noteq> p then add_ck chk n 1 else ret n))"

definition order_of :: "bool \<Rightarrow> u64 \<Rightarrow> ('s, u8) comp" where
  "order_of chk val =
     (if val = 0 then ret 0 else
      bind (log2_ceil chk val) (\<lambda>n.
      bind (add_ck chk n 1) (\<lambda>log2.
        if HEAP_BASE_ORDER < log2 then sub_ck chk log2 HEAP_BASE_ORDER else ret 0)))"

section \<open>The heap\<close>

definition heap_flags :: u64 where
  "heap_flags = WRITABLE OR NO_EXECUTE OR GLOBAL"

text \<open>The next page up from the given start.\<close>

definition next_page_up :: "bool \<Rightarrow> u64 \<Rightarrow> ('s, u64) comp" where
  "next_page_up chk a = bind (add_ck chk (a div 4096) 1) (\<lambda>n. mul_ck chk n 4096)"

definition heap_init :: "'t crates \<Rightarrow> u64 \<Rightarrow> (('t, 'z) machine_scheme, u64) comp" where
  "heap_init C heap_tree_start =
     (let chk = overflow_checks C in
      bind (gets heap_tree) (\<lambda>once.
      bind (if once \<noteq> None then ret () else
          bind (next_page_up chk heap_tree_start) (\<lambda>tree_start.
          bind (page_add chk (containing_address tree_start) (heap_tree_size C div 4096)) (\<lambda>page_end.
          bind (map_range C (containing_address tree_start) page_end heap_flags Invalidate Zero) (\<lambda>r.
          case r of
            Inl _ \<Rightarrow> stop_with (Panic ''Out of physical memory'')
          | Inr _ \<Rightarrow> modify (\<lambda>m. m\<lparr>heap_tree := Some (tree_new C HEAP_LEVELS (unat HEAP_BASE_ORDER)
                [(0, push_bit 31 1)] (Static tree_start))\<rparr>))))) (\<lambda>_.
      next_page_up chk heap_tree_start)))"

text \<open>\<open>self.tree.wait().expect(..).lock()\<close>\<close>

definition heap_lock :: "(('t, 'z) machine_scheme, 't) comp" where
  "heap_lock = bind (gets heap_tree) (\<lambda>t. expect t ''Heap not initialized!'')"

definition set_heap_tree :: "'t \<Rightarrow> (('t, 'z) machine_scheme, unit) comp" where
  "set_heap_tree t = modify (\<lambda>m. m\<lparr>heap_tree := Some t\<rparr>)"

text \<open>\<open>util::round_up_divide(1u64 << bits, 4096)\<close>\<close>

definition pages_for :: "bool \<Rightarrow> u8 \<Rightarrow> ('s, u64) comp" where
  "pages_for chk bits = bind (shl_ck chk 1 (unat bits)) (\<lambda>n. round_up_divide chk n 4096)"

text \<open>\<open>Page::containing_address(ptr as u64 + (page * 4096))\<close>\<close>

definition heap_page :: "bool \<Rightarrow> u64 \<Rightarrow> u64 \<Rightarrow> ('s, page) comp" where
  "heap_page chk ptr no =
     bind (mul_ck chk no 4096) (\<lambda>off. bind (add_ck chk ptr off) (\<lambda>a. ret (containing_address a)))"

text \<open>The end of a round of the mapping loops: on an error the pages up to this one are unmapped and
  the null pointer is returned (\<^const>\<open>Inl\<close> leaves the loop).\<close>

definition undo_on_error :: "'t crates \<Rightarrow> page \<Rightarrow> page \<Rightarrow> OutOfMemory + unit
    \<Rightarrow> (('t, 'z) machine_scheme, unit + unit) comp" where
  "undo_on_error C begin_page page res = (case res of
       Inl _ \<Rightarrow> bind (unmap_range C begin_page page Free Invalidate) (\<lambda>_. ret (Inl ()))
     | Inr _ \<Rightarrow> ret (Inr ()))"

text \<open>\<open>tree.allocate(order)\<close> with the two early returns of the null pointer.\<close>

definition heap_take :: "'t crates \<Rightarrow> u8 \<Rightarrow> (('t, 'z) machine_scheme, u64 option) comp" where
  "heap_take C order =
     bind heap_lock (\<lambda>tree.
       if tree_max_order C HEAP_LEVELS < order then ret None
       else case tree_allocate C tree order of
         (None, tree') \<Rightarrow> bind (set_heap_tree tree') (\<lambda>_. ret None)
       | (Some p, tree') \<Rightarrow>
           bind (set_heap_tree tree') (\<lambda>_.
           bind (add_ck (overflow_checks C) p HEAP_START) (\<lambda>ptr. ret (Some ptr))))"

definition alloc_specific_step :: "'t crates \<Rightarrow> u64 \<Rightarrow> u64 \<Rightarrow> u64
    \<Rightarrow> (('t, 'z) machine_scheme, unit + unit) comp" where
  "alloc_specific_step C ptr physical_begin_frame page_no =
     (let chk = overflow_checks C in
      bind (heap_page chk ptr page_no) (\<lambda>page.
      bind (add_ck chk physical_begin_frame page_no) (\<lambda>frame.
      bind (mul_ck chk frame 4096) (\<lambda>a.
      bind (phys_addr C a) (\<lambda>pa.
      bind (map_to C page pa heap_flags Invalidate) (\<lambda>res.
      undo_on_error C (containing_address ptr) page res))))))"

definition alloc_specific :: "'t crates \<Rightarrow> u64 \<Rightarrow> u64 \<Rightarrow> (('t, 'z) machine_scheme, u64) comp" where
  "alloc_specific C physical_begin_frame frames =
     (let chk = overflow_checks C in
      bind heap_lock (\<lambda>_.
      bind (mul_ck chk frames 4096) (\<lambda>size.
      bind (order_of chk size) (\<lambda>order.
      bind (heap_take C order) (\<lambda>p. case p of None \<Rightarrow> ret 0 | Some ptr \<Rightarrow>
      bind (add_ck chk order HEAP_BASE_ORDER) (\<lambda>bits.
      bind (pages_for chk bits) (\<lambda>pages.
      bind (for_each_res (range_excl 0 pages) (alloc_specific_step C ptr physical_begin_frame)) (\<lambda>res.
      ret (case res of Inl _ \<Rightarrow> 0 | Inr _ \<Rightarrow> ptr)))))))))"

text \<open>The assertion of both deallocating functions.\<close>

definition in_heap :: "u64 \<Rightarrow> bool" where
  "in_heap ptr \<longleftrightarrow> HEAP_START \<le> ptr \<and> ptr < HEAP_START + push_bit 30 1"

text \<open>\<open>deallocate(ptr, order)\<close> on the tree.\<close>

definition heap_give :: "'t crates \<Rightarrow> u64 \<Rightarrow> u8 \<Rightarrow> (('t, 'z) machine_scheme, unit) comp" where
  "heap_give C offset order =
     bind heap_lock (\<lambda>tree.
     bind (expect (tree_deallocate C tree offset order) ''block is not in use'') set_heap_tree)"

definition unmap_pages :: "'t crates \<Rightarrow> u64 \<Rightarrow> u64 \<Rightarrow> FreeMemory \<Rightarrow> InvalidateTlb
    \<Rightarrow> (('t, 'z) machine_scheme, unit) comp" where
  "unmap_pages C ptr pages free_physmem invplg =
     for_each (range_excl 0 pages) (\<lambda>no.
       bind (heap_page (overflow_checks C) ptr no) (\<lambda>page. unmap C page free_physmem invplg))"

definition dealloc_specific :: "'t crates \<Rightarrow> u64 \<Rightarrow> u64 \<Rightarrow> (('t, 'z) machine_scheme, unit) comp" where
  "dealloc_specific C ptr frames =
     (let chk = overflow_checks C in
      if ptr = 0 \<or> frames = 0 then ret () else
      bind (mul_ck chk frames 4096) (\<lambda>size.
      bind (order_of chk size) (\<lambda>order.
      bind (panic_unless (in_heap ptr) ''Heap object pointer not in heap!'') (\<lambda>_.
      bind (heap_give C (ptr - HEAP_START) order) (\<lambda>_.
      bind (add_ck chk order HEAP_BASE_ORDER) (\<lambda>bits.
      bind (pages_for chk bits) (\<lambda>pages.
      unmap_pages C ptr pages NoFree NoInvalidate)))))))"

section \<open>\<open>GlobalAlloc for Heap\<close>\<close>

text \<open>The functions use of their \<open>Layout\<close> only its size.\<close>

definition heap_alloc_step :: "'t crates \<Rightarrow> u64 \<Rightarrow> u64 \<Rightarrow> (('t, 'z) machine_scheme, unit + unit) comp" where
  "heap_alloc_step C ptr no =
     bind (heap_page (overflow_checks C) ptr no) (\<lambda>page.
     bind (walk_page_table C page) (\<lambda>w.
       if w \<noteq> None then ret (Inr ())
       else bind (map_page C page heap_flags NoInvalidate Zero)
              (undo_on_error C (containing_address ptr) page)))"

definition heap_alloc :: "'t crates \<Rightarrow> u64 \<Rightarrow> (('t, 'z) machine_scheme, u64) comp" where
  "heap_alloc C layout_size =
     (let chk = overflow_checks C in
      bind heap_lock (\<lambda>_.
      bind (order_of chk layout_size) (\<lambda>order.
      bind (heap_take C order) (\<lambda>p. case p of None \<Rightarrow> ret 0 | Some ptr \<Rightarrow>
      bind (add_ck chk order HEAP_BASE_ORDER) (\<lambda>b.
      bind (sub_ck chk b 1) (\<lambda>bits.
      bind (pages_for chk bits) (\<lambda>pages.
      bind (for_each_res (range_excl 0 pages) (heap_alloc_step C ptr)) (\<lambda>res.
      ret (case res of Inl _ \<Rightarrow> 0 | Inr _ \<Rightarrow> ptr)))))))))"

text \<open>The part of \<open>dealloc\<close> for blocks smaller than a page: the page is unmapped if the tree says
  that all of it is free.\<close>

definition dealloc_small :: "'t crates \<Rightarrow> u64 \<Rightarrow> u8 \<Rightarrow> (('t, 'z) machine_scheme, unit) comp" where
  "dealloc_small C offset page_order =
     (let chk = overflow_checks C; page_base_ptr = offset AND NOT 0xFFF in
      bind (sub_ck chk (tree_max_order C HEAP_LEVELS) page_order) (\<lambda>level.
      bind (add_ck chk page_order HEAP_BASE_ORDER) (\<lambda>sh.
      bind (add_ck chk (of_nat (blocks_in_tree C (unat level))) (drop_bit (unat sh) page_base_ptr)) (\<lambda>i.
      bind (add_ck chk i 1) (\<lambda>index.
      bind (sub_ck chk index 1) (\<lambda>block_index.
      bind heap_lock (\<lambda>tree.
      bind (add_ck chk page_order 1) (\<lambda>free_order.
        if tree_block_order_free C tree block_index = free_order then
          bind (add_ck chk page_base_ptr HEAP_START) (\<lambda>a. unmap C (containing_address a) Free Invalidate)
        else ret ()))))))))"

definition heap_dealloc :: "'t crates \<Rightarrow> u64 \<Rightarrow> u64 \<Rightarrow> (('t, 'z) machine_scheme, unit) comp" where
  "heap_dealloc C ptr layout_size =
     (let chk = overflow_checks C in
      if ptr = 0 then ret () else
      bind (order_of chk layout_size) (\<lambda>order.
      bind (panic_unless (in_heap ptr) ''Heap object pointer not in heap!'') (\<lambda>_.
      bind (heap_give C (ptr - HEAP_START) order) (\<lambda>_.
      bind (sub_ck chk 12 HEAP_BASE_ORDER) (\<lambda>page_order.
        if order < page_order then dealloc_small C (ptr - HEAP_START) page_order
        else bind (add_ck chk order HEAP_BASE_ORDER) (\<lambda>b.
             bind (sub_ck chk b 1) (\<lambda>bits.
             bind (pages_for chk bits) (\<lambda>pages.
             unmap_pages C ptr pages Free Invalidate))))))))"

section \<open>What \<open>order\<close> computes\<close>

declare log2_loop.simps [simp del]

lemma log2_loop_bounds:
  assumes "0 < val" and "unat n + 64 < 2 ^ 32"
  obtains k where "unat (log2_loop val n) = unat n + k" and "2 ^ k \<le> unat val" and "unat val < 2 ^ Suc k"
proof -
  have "\<exists>k. log2_loop val n = n + of_nat k \<and> 2 ^ k \<le> unat val \<and> unat val < 2 ^ Suc k"
    using assms(1)
  proof (induction val n rule: log2_loop.induct)
    case (1 val n)
    show ?case
    proof (cases "1 < val")
      case True
      then have u: "1 < unat val" by (simp add: word_less_nat_alt)
      have d: "unat (drop_bit 1 val) = unat val div 2" by (simp add: drop_bit_eq_div unat_div)
      with u have "0 < drop_bit 1 val" by (simp add: word_less_nat_alt)
      from "1.IH"[OF True this] obtain k where k: "log2_loop (drop_bit 1 val) (n + 1) = n + 1 + of_nat k"
        "2 ^ k \<le> unat val div 2" "unat val div 2 < 2 ^ Suc k" unfolding d by blast
      then have "log2_loop val n = n + of_nat (Suc k)"
        using True by (subst log2_loop.simps) (simp add: ac_simps)
      moreover have "2 ^ Suc k \<le> unat val" "unat val < 2 ^ Suc (Suc k)" using k(2,3) by auto
      ultimately show ?thesis by blast
    next
      case False
      with "1.prems" have "unat val = 1" by (simp add: word_less_nat_alt not_less word_le_nat_alt)
      moreover have "log2_loop val n = n" using False by (subst log2_loop.simps) simp
      ultimately show ?thesis by (intro exI[of _ 0]) simp
    qed
  qed
  then obtain k where k: "log2_loop val n = n + of_nat k" "2 ^ k \<le> unat val" "unat val < 2 ^ Suc k" by blast
  have "(2::nat) ^ k < 2 ^ 64" using k(2) unat_bound[of val] by simp
  then have "k < 64" by (rule power_less_imp_less_exp[rotated]) simp
  then have "unat (n + of_nat k) = unat n + k"
    using assms(2) by (simp add: unat_word_ariths take_bit_nat_eq_self unat_of_nat)
  with k show thesis by (intro that[of k]) simp_all
qed

lemma log2_floor_bounds:
  assumes "0 < val"
  shows "2 ^ unat (log2_floor val) \<le> unat val" and "unat val < 2 ^ Suc (unat (log2_floor val))"
    and "unat (log2_floor val) < 64"
proof -
  obtain k where k: "unat (log2_loop val 0) = k" "2 ^ k \<le> unat val" "unat val < 2 ^ Suc k"
    by (rule log2_loop_bounds[OF assms, of 0]) simp_all
  have "(2::nat) ^ k < 2 ^ 64" using k(2) unat_bound[of val] by simp
  then have k64: "k < 64" by (rule power_less_imp_less_exp[rotated]) simp
  then have "unat (log2_floor val) = k"
    using k(1) by (simp add: log2_floor_def unsigned_ucast_eq take_bit_nat_eq_self)
  with k k64 show "2 ^ unat (log2_floor val) \<le> unat val" "unat val < 2 ^ Suc (unat (log2_floor val))"
    "unat (log2_floor val) < 64" by simp_all
qed

text \<open>The exponent that \<open>log2_ceil\<close> gives, as a number.\<close>

lemma log2_ceil_run:
  assumes "0 < val"
  obtains n where "log2_ceil chk val s = Inr (n, s)" and "unat val \<le> 2 ^ unat n" and "unat n \<le> 64"
    and "n = 0 \<or> 2 ^ (unat n - 1) < unat val"
proof -
  let ?f = "log2_floor val"
  note b = log2_floor_bounds[OF assms]
  have p: "unat (push_bit (unat ?f) 1 :: u64) = 2 ^ unat ?f"
    using b(3) by (simp add: push_bit_eq_mult unat_exp)
  have run: "log2_ceil chk val s = (if val \<noteq> push_bit (unat ?f) 1 then Inr (?f + 1, s) else Inr (?f, s))"
    using b(3) by (simp add: log2_ceil_def run_simps Let_def)
  have up: "unat (?f + 1) = unat ?f + 1" using b(3) by (simp add: unat_word_ariths)
  show thesis
  proof (cases "val = push_bit (unat ?f) 1")
    case True
    then have v: "unat val = 2 ^ unat ?f" using p by simp
    have "?f = 0 \<or> 2 ^ (unat ?f - 1) < unat val"
      unfolding v using unat_gt_0[of ?f] by (auto intro!: power_strict_increasing)
    then show thesis using True run v b(3) by (intro that[of ?f]) auto
  next
    case False
    then have "unat val \<noteq> 2 ^ unat ?f" using p by (metis word_unat_eq_iff)
    then show thesis using False run b up by (intro that[of "?f + 1"]) auto
  qed
qed

text \<open>\<open>order\<close> never overflows; the half of a block of that order holds the size, and the order is
  the least with this property.\<close>

lemma order_of_run:
  obtains n where "order_of chk val s = Inr (n, s)" and "unat val \<le> 2 ^ (unat n + 5)" and "unat n \<le> 59"
    and "n = 0 \<or> 2 ^ (unat n + 4) < unat val"
proof (cases "val = 0")
  case True
  then show thesis by (intro that[of 0]) (simp_all add: order_of_def run_simps)
next
  case False
  then have "0 < val" by (simp add: word_less_nat_alt unat_gt_0)
  then obtain n where n: "log2_ceil chk val s = Inr (n, s)" "unat val \<le> 2 ^ unat n" "unat n \<le> 64"
    "n = 0 \<or> 2 ^ (unat n - 1) < unat val" by (rule log2_ceil_run)
  have up: "unat (n + 1) = unat n + 1" using n(3) by (simp add: unat_word_ariths)
  have ck: "add_ck chk n 1 s = Inr (n + 1, s)" using n(3) by (simp add: run_simps)
  show thesis
  proof (cases "unat n \<le> 5")
    case True
    then have "\<not> HEAP_BASE_ORDER < n + 1" by (simp add: HEAP_BASE_ORDER_def word_less_nat_alt up)
    moreover have "unat val \<le> 2 ^ 5"
      using n(2) power_increasing[OF True, of "2 :: nat"] by simp
    ultimately show thesis using False n(1) ck
      by (intro that[of 0]) (simp_all add: order_of_def run_simps)
  next
    case big: False
    then have gt: "HEAP_BASE_ORDER < n + 1" by (simp add: HEAP_BASE_ORDER_def word_less_nat_alt up)
    then have u: "unat (n + 1 - HEAP_BASE_ORDER) = unat n - 5"
      by (simp add: unat_sub up HEAP_BASE_ORDER_def word_less_nat_alt word_le_nat_alt)
    have "n \<noteq> 0" using big by auto
    then have "2 ^ (unat n - 1) < unat val" using n(4) by simp
    moreover have "unat n - 5 + 5 = unat n" "unat n - 5 + 4 = unat n - 1" using big by simp_all
    ultimately show thesis using False n(1-3) ck gt u
      by (intro that[of "n + 1 - HEAP_BASE_ORDER"]) (simp_all add: order_of_def run_simps)
  qed
qed

end
