(* ===== verification/Temporary_Page.thy ===== *)
theory Temporary_Page
  imports Kernel_Heap
begin

text \<open>
  The rest of \<open>kernel/src/memory/paging/page_map.rs\<close>: \<open>TemporaryPage\<close>, a heap page through
  which frames that are mapped nowhere are reached, and what is built on it: new address spaces
  (\<open>InactivePageMap::new\<close>), the edit of another address space through the recursive mapping
  (\<open>with_inactive_p4\<close>) and \<open>remap_range\<close>.
\<close>

section \<open>\<open>TemporaryPage\<close>\<close>

record temporary_page =
  tp_page :: page
  tp_frame_addr :: u64

definition unwrap_none :: string where
  "unwrap_none = ''called Option::unwrap() on a None value''"

text \<open>\<open>walk_page_table(page).unwrap().0.physical_address().unwrap()\<close>\<close>

definition mapped_frame :: "'t crates \<Rightarrow> page \<Rightarrow> (('t, 'z) machine_scheme, u64) comp" where
  "mapped_frame C page =
     bind (walk_page_table C page) (\<lambda>w.
     bind (expect w unwrap_none) (\<lambda>e.
     bind (physical_address C (fst e)) (\<lambda>pa. expect pa unwrap_none)))"

definition temporary_page_new :: "'t crates \<Rightarrow> (('t, 'z) machine_scheme, temporary_page) comp" where
  "temporary_page_new C =
     bind (heap_alloc C 0x1000) (\<lambda>page_addr.
     let page = containing_address page_addr in
     bind (mapped_frame C page) (\<lambda>frame_addr.
     bind (unmap C page NoFree Invalidate) (\<lambda>_.
     ret \<lparr>tp_page = page, tp_frame_addr = frame_addr\<rparr>)))"

text \<open>\<open>map\<close>; \<open>VirtAddr::new\<close> panics on an address that is not canonical.\<close>

definition temporary_page_map :: "'t crates \<Rightarrow> temporary_page \<Rightarrow> u64
    \<Rightarrow> (('t, 'z) machine_scheme, u64) comp" where
  "temporary_page_map C tp frame =
     bind (start_address (overflow_checks C) (tp_page tp)) (\<lambda>a.
     bind (expect a ''Temporary page requires size'') (\<lambda>page_addr.
     bind (walk_page_table C (tp_page tp)) (\<lambda>w.
     bind (panic_unless (w = None) ''Temporary page is already mapped'') (\<lambda>_.
     bind (map_to_expect ''Out of physical memory'' C (tp_page tp) frame WRITABLE Invalidate) (\<lambda>_.
     expect (virt_addr_try_new C page_addr) ''address passed to VirtAddr::new is not canonical'')))))"

definition temporary_page_unmap :: "'t crates \<Rightarrow> temporary_page \<Rightarrow> (('t, 'z) machine_scheme, unit) comp" where
  "temporary_page_unmap C tp = unmap C (tp_page tp) NoFree Invalidate"

text \<open>The table of level 1 at the address that \<open>map\<close> returns.\<close>

definition map_table_frame :: "'t crates \<Rightarrow> temporary_page \<Rightarrow> u64 \<Rightarrow> (('t, 'z) machine_scheme, u64) comp" where
  "map_table_frame C tp frame = temporary_page_map C tp frame"

definition temporary_page_drop :: "'t crates \<Rightarrow> temporary_page \<Rightarrow> (('t, 'z) machine_scheme, unit) comp" where
  "temporary_page_drop C tp =
     bind (map_to_expect ''Out of physical memory'' C (tp_page tp) (tp_frame_addr tp)
            (from_bits_truncate 0) Invalidate) (\<lambda>_.
     bind (start_address (overflow_checks C) (tp_page tp)) (\<lambda>a.
     bind (expect a unwrap_none) (\<lambda>addr. heap_dealloc C addr 0x1000)))"

section \<open>Other address spaces\<close>

definition RECURSIVE_FLAGS :: u64 where
  "RECURSIVE_FLAGS = PRESENT OR WRITABLE OR NO_EXECUTE OR GLOBAL"

text \<open>\<open>table[510].set(frame, ..)\<close>\<close>

definition set_recursive :: "u64 \<Rightarrow> u64 \<Rightarrow> (('t, 'z) machine_scheme, unit) comp" where
  "set_recursive table frame = bind (entry_set frame RECURSIVE_FLAGS) (\<lambda>e. write_entry table 510 e)"

definition inactive_page_map_new :: "'t crates \<Rightarrow> u64 \<Rightarrow> u64 \<Rightarrow> temporary_page
    \<Rightarrow> (('t, 'z) machine_scheme, inactive_page_map) comp" where
  "inactive_page_map_new C frame flags tp =
     bind (map_table_frame C tp frame) (\<lambda>table.
     bind (table_zero table) (\<lambda>_.
     bind (set_recursive table frame) (\<lambda>_.
     bind (temporary_page_unmap C tp) (\<lambda>_.
     ret \<lparr>p4_frame = frame, p4_flags = flags\<rparr>))))"

definition with_inactive_p4 :: "'t crates \<Rightarrow> inactive_page_map \<Rightarrow> temporary_page
    \<Rightarrow> (('t, 'z) machine_scheme, 'a) comp \<Rightarrow> (('t, 'z) machine_scheme, 'a) comp" where
  "with_inactive_p4 C table tp f =
     bind (gets cr3) (\<lambda>c.
     bind (phys_addr C c) (\<lambda>backup.
     bind (map_table_frame C tp backup) (\<lambda>p4_table.
     bind (set_recursive P4 (p4_frame table)) (\<lambda>_.
     bind tlb_flush_all (\<lambda>_.
     bind f (\<lambda>r.
     bind (set_recursive p4_table backup) (\<lambda>_.
     bind tlb_flush_all (\<lambda>_.
     bind (temporary_page_unmap C tp) (\<lambda>_.
     ret r)))))))))"

text \<open>
  The storage of \<open>Vec<PhysAddr>\<close> on the kernel heap: \<open>with_capacity(n)\<close> takes a block of
  \<open>8 * n\<close> bytes, a push into a full vector takes a larger one and frees the old one, the drop
  frees it.  The elements themselves are a list of the model.  When the heap gives the null
  pointer, the handler \<open>oom\<close> of \<open>lang.rs\<close> panics.
\<close>

definition vec_storage :: "'t crates \<Rightarrow> u64 \<Rightarrow> (('t, 'z) machine_scheme, u64) comp" where
  "vec_storage C cap =
     (if cap = 0 then ret 8
      else if 2 ^ 60 \<le> cap then stop_with (Panic ''capacity overflow'')
      else bind (heap_alloc C (8 * cap)) (\<lambda>p.
        if p = 0 then stop_with (Panic ''Ran out of kernel heap memory'') else ret p))"

definition vec_drop :: "'t crates \<Rightarrow> u64 \<times> u64 \<Rightarrow> (('t, 'z) machine_scheme, unit) comp" where
  "vec_drop C v = (if snd v = 0 then ret () else heap_dealloc C (fst v) (8 * snd v))"

definition vec_reserve :: "'t crates \<Rightarrow> u64 \<Rightarrow> u64 \<times> u64 \<Rightarrow> (('t, 'z) machine_scheme, u64 \<times> u64) comp" where
  "vec_reserve C len v =
     (if len < snd v then ret v else
      let cap = max 4 (max (2 * snd v) (snd v + 1)) in
      bind (vec_storage C cap) (\<lambda>p. bind (vec_drop C v) (\<lambda>_. ret (p, cap))))"

primrec collect_frames :: "'t crates \<Rightarrow> u64 \<Rightarrow> u64 list \<Rightarrow> u64 list \<Rightarrow> u64 \<times> u64
    \<Rightarrow> (('t, 'z) machine_scheme, u64 list \<times> (u64 \<times> u64)) comp" where
  "collect_frames C first [] frames v = ret (frames, v)"
| "collect_frames C first (i # is) frames v =
     (let chk = overflow_checks C in
      bind (add_ck chk i first) (\<lambda>no.
      bind (mul_ck chk no 4096) (\<lambda>a.
      bind (mapped_frame C (containing_address a)) (\<lambda>frame.
      bind (vec_reserve C (of_nat (length frames)) v) (\<lambda>v'.
      collect_frames C first is (frames @ [frame]) v')))))"

definition remap_step :: "'t crates \<Rightarrow> u64 list \<Rightarrow> u64 \<Rightarrow> u64 \<Rightarrow> u64 \<Rightarrow> (('t, 'z) machine_scheme, unit) comp" where
  "remap_step C frames first flags page_no =
     (let chk = overflow_checks C in
      bind (mul_ck chk page_no 4096) (\<lambda>a.
      bind (sub_ck chk page_no first) (\<lambda>i.
        if length frames \<le> unat i then stop_with Out_of_bounds else
        map_to_expect ''Out of physical memory'' C (containing_address a) (frames ! unat i) flags NoInvalidate)))"

definition remap_range :: "'t crates \<Rightarrow> inactive_page_map \<Rightarrow> temporary_page \<Rightarrow> u64 \<Rightarrow> u64 \<Rightarrow> u64
    \<Rightarrow> (('t, 'z) machine_scheme, unit) comp" where
  "remap_range C new_table tp page_first page_last flags =
     (let chk = overflow_checks C in
      bind (sub_ck chk page_last page_first) (\<lambda>num_pages.
      bind (vec_storage C num_pages) (\<lambda>p.
      bind (collect_frames C page_first (range_incl 0 num_pages) [] (p, num_pages)) (\<lambda>(frames, v).
      bind (with_inactive_p4 C new_table tp
             (for_each (range_incl page_first page_last) (remap_step C frames page_first flags))) (\<lambda>_.
      vec_drop C v)))))"

end
