(* ===== verification/Memory_Map.thy ===== *)
theory Memory_Map
  imports Physical_Allocator Util
begin

text \<open>
  The part of \<open>kernel/src/memory.rs\<close> that works on address ranges: the area of the kernel and
  the usable areas left when the used ones are subtracted.  What the boot loader reports (the
  tags of the \<open>multiboot2\<close> crate) is the record \<open>boot_info\<close>, an argument of the definitions.
  A \<open>Range\<close> is a pair \<open>(start, end)\<close> without its end, a \<open>RangeInclusive\<close> a pair with it.
\<close>

section \<open>Definitions\<close>

record elf_section =
  sec_allocated :: bool
  sec_writable :: bool
  sec_executable :: bool
  sec_start :: u64
  sec_end :: u64

record boot_info =
  mb_start :: u64
  mb_end :: u64
  memory_areas :: "(u64 \<times> u64) list option"
  elf_sections :: "elf_section list option"
  module_tags :: "(u64 \<times> u64) list"

fun range_sub :: "'a::linorder \<times> 'a \<Rightarrow> 'a \<times> 'a \<Rightarrow> ('a \<times> 'a) option \<times> ('a \<times> 'a) option" where
  "range_sub (main_start, main_end) (sub_start, sub_end) =
     (if sub_start \<le> main_start then
        if sub_end < main_end then (None, Some (sub_end, main_end)) else (None, None)
      else if sub_start < main_end then
        if main_end \<le> sub_end then (Some (main_start, sub_start), None)
        else (Some (main_start, sub_start), Some (sub_end, main_end))
      else (Some (main_start, main_end), None))"

text \<open>\<open>iter::once(first).chain(iter::once(second)).filter_map(|i| i)\<close>\<close>

definition some_ranges :: "'a option \<times> 'a option \<Rightarrow> 'a list" where
  "some_ranges p = List.map_filter (\<lambda>x. x) [fst p, snd p]"

text \<open>One round of the unrolled loop: \<open>used\<close>, an inclusive range, is taken out of every area.\<close>

primrec remove_used :: "bool \<Rightarrow> u64 \<times> u64 \<Rightarrow> (u64 \<times> u64) list \<Rightarrow> ('s, (u64 \<times> u64) list) comp" where
  "remove_used chk used [] = ret []"
| "remove_used chk used (area # areas) =
     bind (add_ck chk (snd used) 1) (\<lambda>used_end.
     bind (remove_used chk used areas) (\<lambda>rest.
       ret (some_ranges (range_sub area (fst used, used_end)) @ rest)))"

definition kernel_area :: "boot_info \<Rightarrow> ('s, u64 \<times> u64) comp" where
  "kernel_area mb_info =
     bind (expect (elf_sections mb_info)
            ''Expected a multiboot2 elf sections tag, but it is not present!'') (\<lambda>sections.
     let used_areas = map (\<lambda>s. (sec_start s, sec_end s)) (filter sec_allocated sections) @ module_tags mb_info in
     bind (panic_unless (used_areas \<noteq> []) ''called Option::unwrap() on a None value'') (\<lambda>_.
     ret (Min (set (map fst used_areas)), Max (set (map snd used_areas)))))"

text \<open>\<open>area.end_address() - 1\<close> for every area; the subtraction can underflow.\<close>

primrec last_addresses :: "bool \<Rightarrow> (u64 \<times> u64) list \<Rightarrow> ('s, u64 list) comp" where
  "last_addresses chk [] = ret []"
| "last_addresses chk (area # areas) =
     bind (sub_ck chk (snd area) 1) (\<lambda>a. bind (last_addresses chk areas) (\<lambda>as. ret (a # as)))"

definition usable_areas :: "bool \<Rightarrow> (u64 \<times> u64) list \<Rightarrow> (u64 \<times> u64) list \<Rightarrow> ('s, (u64 \<times> u64) list) comp" where
  "usable_areas chk used areas = fold (\<lambda>u c. bind c (remove_used chk u)) used (ret areas)"

definition setup_physical_allocator_prelim ::
    "'t crates \<Rightarrow> boot_info \<Rightarrow> u64 \<times> u64 \<Rightarrow> u64 \<times> u64 \<Rightarrow> u64 \<times> u64
      \<Rightarrow> (('t, 'z) machine_scheme, u8 \<times> (u64 \<times> u64) list) comp" where
  "setup_physical_allocator_prelim C mb_info mb_info_phys bootstrap_heap_phys kern =
     (let chk = overflow_checks C in
     bind (expect (memory_areas mb_info)
            ''Expected a multiboot2 memory map tag, but it is not present!'') (\<lambda>areas.
     bind (last_addresses chk areas) (\<lambda>ends.
     bind (panic_unless (ends \<noteq> []) ''No usable physical memory available!'') (\<lambda>_.
     bind (round_up_divide chk (Max (set ends)) (push_bit 30 1)) (\<lambda>n.
     bind (sub_ck chk (snd kern) 0xFFFFFFFF80000000) (\<lambda>kernel_end.
     bind (usable_areas chk [(0, kernel_end), mb_info_phys, bootstrap_heap_phys] areas) (\<lambda>usable.
     bind (panic_unless (length usable \<le> 256) ''ArrayVec is full'') (\<lambda>_.
     bind (init_prelim C usable) (\<lambda>_.
     ret (ucast n, usable))))))))))"

section \<open>Subtracting ranges\<close>

definition addrs :: "('a::linorder \<times> 'a) \<Rightarrow> 'a set" where
  "addrs r = {fst r..<snd r}"

definition addrs_of :: "('a::linorder \<times> 'a) list \<Rightarrow> 'a set" where
  "addrs_of rs = (\<Union>r \<in> set rs. addrs r)"

lemma some_ranges_simps [simp]:
  "some_ranges (None, None) = []" "some_ranges (Some a, None) = [a]"
  "some_ranges (None, Some b) = [b]" "some_ranges (Some a, Some b) = [a, b]"
  by (simp_all add: some_ranges_def map_filter_simps)

text \<open>The difference is exact when the hole does not end before the range starts.\<close>

lemma range_sub_exact:
  assumes "ms \<le> se"
  shows "addrs_of (some_ranges (range_sub (ms, me) (ss, se))) = addrs (ms, me) - addrs (ss, se)"
  using assms by (auto simp: addrs_of_def addrs_def)

lemma range_sub_keeps:
  "addrs (ms, me) - addrs (ss, se) \<subseteq> addrs_of (some_ranges (range_sub (ms, me) (ss, se)))"
  by (auto simp: addrs_of_def addrs_def)

lemma remove_used_run:
  assumes "snd used < 0xFFFFFFFFFFFFFFFF"
  shows "remove_used chk used areas s
    = Inr (concat (map (\<lambda>a. some_ranges (range_sub a (fst used, snd used + 1))) areas), s)"
proof -
  have "unat (snd used) + 1 < 2 ^ 64" using assms by (simp add: word_less_nat_alt)
  then have "add_ck chk (snd used) 1 s = Inr (snd used + 1, s)"
    by (simp add: add_ck_run)
  then show ?thesis by (induction areas) (simp_all add: run_simps)
qed

section \<open>Properties\<close>

text \<open>\<open>range_sub\<close> gives the addresses of the range that are not in the hole, in at most two
  ranges, provided the hole does not end before the range starts.\<close>

lemma range_sub_correct:
  assumes "main_start \<le> sub_end"
  shows "addrs_of (some_ranges (range_sub (main_start, main_end) (sub_start, sub_end)))
    = addrs (main_start, main_end) - addrs (sub_start, sub_end)"
  using assms by (rule range_sub_exact)

text \<open>C33: when the hole lies wholly before the range, \<open>range_sub\<close> adds addresses: its result
  reaches from the end of the hole to the end of the range, so that every address between the
  hole and the range, which no memory area contains, comes out as usable.\<close>

theorem range_sub_adds_gap:
  assumes "sub_start \<le> sub_end" and "sub_end < main_start" and "main_start < main_end"
  shows "addrs_of (some_ranges (range_sub (main_start, main_end) (sub_start, sub_end)))
    = addrs (main_start, main_end) \<union> {sub_end..<main_start}"
  using assms by (auto simp: addrs_of_def addrs_def)

theorem range_sub_adds_gap_witness:
  "addrs_of (some_ranges (range_sub (0x100000000 :: u64, 0x140000000) (0, 0x200000)))
    = addrs (0x100000000, 0x140000000) \<union> {0x200000..<0x100000000}"
  using range_sub_adds_gap[of "0 :: u64" "0x200000" "0x100000000" "0x140000000"] by simp

text \<open>C32: no address of a memory area outside the three used ranges is lost: whatever the order of
  the ranges, every such address is in some usable area.\<close>

theorem usable_areas_complete:
  assumes "\<forall>u \<in> set used. snd u < 0xFFFFFFFFFFFFFFFF"
  shows "\<exists>rs. usable_areas chk used areas s = Inr (rs, s) \<and>
    addrs_of areas - (\<Union>u \<in> set used. addrs (fst u, snd u + 1)) \<subseteq> addrs_of rs"
  using assms
proof (induction used rule: rev_induct)
  case Nil
  then show ?case by (simp add: usable_areas_def ret_def)
next
  case (snoc u used)
  then obtain rs where rs: "usable_areas chk used areas s = Inr (rs, s)"
    "addrs_of areas - (\<Union>u \<in> set used. addrs (fst u, snd u + 1)) \<subseteq> addrs_of rs" by auto
  let ?out = "concat (map (\<lambda>a. some_ranges (range_sub a (fst u, snd u + 1))) rs)"
  have "remove_used chk u rs s = Inr (?out, s)" using snoc.prems by (intro remove_used_run) simp
  then have "usable_areas chk (used @ [u]) areas s = Inr (?out, s)"
    using rs(1) by (simp add: usable_areas_def run_simps)
  moreover have "addrs_of rs - addrs (fst u, snd u + 1) \<subseteq> addrs_of ?out"
  proof
    fix x assume x: "x \<in> addrs_of rs - addrs (fst u, snd u + 1)"
    then obtain ms me where a: "(ms, me) \<in> set rs" "x \<in> addrs (ms, me)" by (auto simp: addrs_of_def)
    with x range_sub_keeps[of ms me "fst u" "snd u + 1"]
    have "x \<in> addrs_of (some_ranges (range_sub (ms, me) (fst u, snd u + 1)))" by auto
    with a(1) show "x \<in> addrs_of ?out" unfolding addrs_of_def by (auto simp del: range_sub.simps)
  qed
  ultimately show ?case using rs(2) by auto
qed

theorem usable_areas_complete_witness:
  "\<exists>rs. usable_areas True [(0, 0x1FFFFF), (0x300000, 0x300FFF)] [(0x100000, 0x8000000)] () = Inr (rs, ()) \<and>
    0x400000 \<in> addrs_of rs"
proof -
  have "\<forall>u \<in> set [(0, 0x1FFFFF), (0x300000, 0x300FFF)]. snd u < (0xFFFFFFFFFFFFFFFF :: u64)" by simp
  from usable_areas_complete[OF this, of True "[(0x100000, 0x8000000)]" "()"]
  obtain rs where rs: "usable_areas True [(0, 0x1FFFFF), (0x300000, 0x300FFF)] [(0x100000, 0x8000000)] () = Inr (rs, ())"
    and sub: "addrs_of [(0x100000, 0x8000000)] - (\<Union>u \<in> set [(0, 0x1FFFFF), (0x300000, 0x300FFF)].
      addrs (fst u, snd u + 1)) \<subseteq> addrs_of rs" by blast
  have "0x400000 \<in> addrs_of rs" by (rule subsetD[OF sub]) (simp add: addrs_def addrs_of_def)
  with rs show ?thesis by blast
qed

end
