(* ===== verification/Remap.thy ===== *)
theory Remap
  imports Temporary_Page Memory_Map
begin

text \<open>
  \<open>kernel/src/memory/paging/remap.rs\<close>: the address space the kernel builds for itself at
  start-up.  The sections, the VGA buffer, the bootstrap heap and the tree of the heap are
  mapped in a new level-4 table, which then becomes the active one, and write protection is
  switched on.
\<close>

definition VIRTUAL_VGA_PTR :: u64 where
  "VIRTUAL_VGA_PTR = KERNEL_MAPPING_BEGIN + 0xB8000"

definition section_flags :: "elf_section \<Rightarrow> u64" where
  "section_flags s =
     GLOBAL OR (if sec_writable s then WRITABLE else 0) OR (if sec_executable s then 0 else NO_EXECUTE)"

definition map_section :: "'t crates \<Rightarrow> elf_section \<Rightarrow> (('t, 'z) machine_scheme, unit) comp" where
  "map_section C s =
     (if \<not> sec_allocated s then ret () else
      bind (panic_unless (sec_start s mod 4096 = 0) ''Section needs to be page aligned!'') (\<lambda>_.
      higher_half_map_range C (sec_start s) (sec_end s) (section_flags s) NoInvalidate))"

text \<open>The closure of \<open>with_inactive_p4\<close>.\<close>

definition remap_sections :: "'t crates \<Rightarrow> boot_info \<Rightarrow> (('t, 'z) machine_scheme, unit) comp" where
  "remap_sections C mb_info =
     bind (expect (elf_sections mb_info) ''Memory map tag required'') (\<lambda>sections.
     bind (read_entry P4 511) (\<lambda>e.
     bind (write_entry P4 511 (add_flags e GLOBAL)) (\<lambda>_.
     bind (for_each sections (map_section C)) (\<lambda>_.
     bind (phys_addr C 0xB8000) (\<lambda>pa.
     map_to_expect ''Out of physical memory'' C (containing_address VIRTUAL_VGA_PTR) pa
       (WRITABLE OR NO_EXECUTE OR USER_ACCESSIBLE) NoInvalidate)))))"

definition remap_kernel :: "'t crates \<Rightarrow> boot_info \<Rightarrow> u64 \<Rightarrow> (('t, 'z) machine_scheme, unit) comp" where
  "remap_kernel C mb_info heap_tree_start_virt =
     (let chk = overflow_checks C; flags = NO_EXECUTE OR WRITABLE OR GLOBAL in
      bind (temporary_page_new C) (\<lambda>tp.
      bind (phys_allocate C 0) (\<lambda>f.
      bind (expect f ''no more frames'') (\<lambda>frame.
      bind (gets cr3_flags) (\<lambda>c.
      bind (inactive_page_map_new C frame c tp) (\<lambda>new_table.
      bind (with_inactive_p4 C new_table tp (remap_sections C mb_info)) (\<lambda>_.
      bind (on_bootstrap heap_start) (\<lambda>start.
      bind (on_bootstrap (heap_end chk (tree_array_size C))) (\<lambda>end_addr.
      bind (round_up_divide chk end_addr 4096) (\<lambda>end_page.
      bind (remap_range C new_table tp (start div 4096) end_page flags) (\<lambda>_.
      bind (add_ck chk heap_tree_start_virt (heap_tree_size C)) (\<lambda>tree_end.
      bind (round_up_divide chk tree_end 4096) (\<lambda>tree_end_page.
      bind (remap_range C new_table tp (heap_tree_start_virt div 4096) tree_end_page flags) (\<lambda>_.
      bind (switch new_table) (\<lambda>_.
      bind (modify (\<lambda>m. m\<lparr>cr0_wp := True\<rparr>)) (\<lambda>_.
      temporary_page_drop C tp))))))))))))))))"

end
