(* ===== verification/Stack_Allocator.thy ===== *)
theory Stack_Allocator
  imports Paging
begin

text \<open>
  \<open>kernel/src/memory/stack_allocator.rs\<close>: the bump allocator of the kernel's stacks.  A pointer is
  its address.
\<close>

section \<open>Definitions\<close>

record stack_allocator =
  sa_base :: page
  sa_capacity :: u64
  stack_size_pages :: u64
  sa_current :: u64

definition stack_allocator_new :: "bool \<Rightarrow> page \<Rightarrow> u64 \<Rightarrow> u64 \<Rightarrow> ('s, stack_allocator) comp" where
  "stack_allocator_new chk base capacity stack_size =
     bind (start_address chk base) (\<lambda>a.
     bind (expect a ''Page requires size'') (\<lambda>_.
     ret \<lparr>sa_base = base, sa_capacity = capacity, stack_size_pages = stack_size, sa_current = 0\<rparr>))"

definition stack_alloc :: "bool \<Rightarrow> (stack_allocator, u64 option) comp" where
  "stack_alloc chk =
     bind (gets (\<lambda>s. sa_capacity s \<le> sa_current s)) (\<lambda>full.
       if full then ret None else
       bind (gets sa_base) (\<lambda>base.
       bind (start_address chk base) (\<lambda>a.
       bind (expect a ''called Option::unwrap() on a None value'') (\<lambda>start.
       bind (gets (\<lambda>s. push_bit 12 (stack_size_pages s))) (\<lambda>stride.
       bind (gets sa_current) (\<lambda>current.
       bind (mul_ck chk current stride) (\<lambda>off.
       bind (add_ck chk start off) (\<lambda>addr.
       bind (add_ck chk current 1) (\<lambda>next_current.
       bind (modify (\<lambda>s. s\<lparr>sa_current := next_current\<rparr>)) (\<lambda>_.
       ret (Some addr)))))))))))"

text \<open>Allocating \<open>n\<close> times, stopping at the first refusal.\<close>

primrec stack_allocs :: "bool \<Rightarrow> nat \<Rightarrow> (stack_allocator, u64 list) comp" where
  "stack_allocs chk 0 = ret []"
| "stack_allocs chk (Suc n) =
     bind (stack_alloc chk) (\<lambda>p. case p of
       None \<Rightarrow> ret []
     | Some a \<Rightarrow> bind (stack_allocs chk n) (\<lambda>as. ret (a # as)))"

section \<open>The stacks\<close>

text \<open>The region of all stacks ends inside the address space.\<close>

definition stacks_fit :: "stack_allocator \<Rightarrow> bool" where
  "stacks_fit s \<longleftrightarrow> page_size (sa_base s) = Some Kib4 \<and> unat (number (sa_base s)) < 2 ^ 52 \<and>
     unat (stack_size_pages s) < 2 ^ 52 \<and>
     unat (number (sa_base s)) * 4096 + unat (sa_capacity s) * (unat (stack_size_pages s) * 4096) < 2 ^ 64"

definition stack_addr :: "stack_allocator \<Rightarrow> nat \<Rightarrow> nat" where
  "stack_addr s k = unat (number (sa_base s)) * 4096 + k * (unat (stack_size_pages s) * 4096)"

lemma stack_alloc_run:
  assumes fit: "stacks_fit s"
  shows "stack_alloc chk s = (if sa_current s < sa_capacity s
    then Inr (Some (of_nat (stack_addr s (unat (sa_current s)))), s\<lparr>sa_current := sa_current s + 1\<rparr>)
    else Inr (None, s))"
proof (cases "sa_current s < sa_capacity s")
  case True
  let ?b = "number (sa_base s)" and ?z = "stack_size_pages s" and ?c = "sa_current s"
  have lt: "unat ?c < unat (sa_capacity s)" using True by (simp add: word_less_nat_alt)
  then have le: "unat ?c * (unat ?z * 4096) \<le> unat (sa_capacity s) * (unat ?z * 4096)" by simp
  have f: "page_size (sa_base s) = Some Kib4" "unat ?b < 2 ^ 52" "unat ?z < 2 ^ 52"
    "unat ?b * 4096 + unat (sa_capacity s) * (unat ?z * 4096) < 2 ^ 64"
    using fit by (simp_all add: stacks_fit_def)
  have start: "start_address chk (sa_base s) s = Inr (Some (?b * 4096), s)"
    using f(1,2) by (simp add: start_address_def run_simps)
  have ub: "unat (?b * 4096) = unat ?b * 4096" using f(2) by (simp add: unat_word_ariths)
  have z: "push_bit 12 ?z = ?z * 4096" by (simp add: push_bit_eq_mult)
  have uz: "unat (?z * 4096) = unat ?z * 4096" using f(3) by (simp add: unat_word_ariths)
  have off: "unat ?c * unat (?z * 4096) < 2 ^ 64" using le f(4) unfolding uz by linarith
  then have uo: "unat (?c * (?z * 4096)) = unat ?c * (unat ?z * 4096)"
    unfolding unat_word_ariths(2)[of ?c] uz by (simp add: uz)
  have sum: "unat (?b * 4096) + unat (?c * (?z * 4096)) < 2 ^ 64"
    using le f(4) unfolding ub uo by linarith
  have "of_nat (stack_addr s (unat ?c)) = ?b * 4096 + ?c * (?z * 4096)"
    by (simp add: stack_addr_def)
  moreover have "unat ?c + 1 < 2 ^ 64" using lt unat_bound[of "sa_capacity s"] by simp
  ultimately show ?thesis
    using True start off sum
    by (simp add: stack_alloc_def run_simps z add_ck_run mul_ck_run not_le)
next
  case False
  then show ?thesis by (simp add: stack_alloc_def run_simps not_less)
qed

lemma stacks_fit_current [simp]:
  "stacks_fit (s\<lparr>sa_current := c\<rparr>) = stacks_fit s" "stack_addr (s\<lparr>sa_current := c\<rparr>) = stack_addr s"
  by (simp_all add: stacks_fit_def stack_addr_def fun_eq_iff)

lemma stack_allocs_run:
  assumes "stacks_fit s" and "unat (sa_current s) + n \<le> unat (sa_capacity s)"
  shows "stack_allocs chk n s = Inr (map (\<lambda>k. of_nat (stack_addr s k)) [unat (sa_current s)..<unat (sa_current s) + n],
    s\<lparr>sa_current := sa_current s + of_nat n\<rparr>)"
  using assms
proof (induction n arbitrary: s)
  case 0
  then show ?case by (simp add: ret_def)
next
  case (Suc n)
  let ?s = "s\<lparr>sa_current := sa_current s + 1\<rparr>"
  have lt: "sa_current s < sa_capacity s" using Suc.prems(2) by (simp add: word_less_nat_alt)
  have u: "unat (sa_current s + 1) = unat (sa_current s) + 1"
    using Suc.prems(2) unat_bound[of "sa_capacity s"] by (simp add: unat_word_ariths)
  have "stack_allocs chk n ?s = Inr (map (\<lambda>k. of_nat (stack_addr s k))
      [unat (sa_current s) + 1..<unat (sa_current s) + 1 + n], s\<lparr>sa_current := sa_current s + of_nat (Suc n)\<rparr>)"
    using Suc.IH[of ?s] Suc.prems u by (simp add: ac_simps)
  moreover have "stack_alloc chk s = Inr (Some (of_nat (stack_addr s (unat (sa_current s)))), ?s)"
    using stack_alloc_run[OF Suc.prems(1), of chk] lt by simp
  ultimately show ?case by (simp add: run_simps upt_conv_Cons del: upt_Suc)
qed

lemma stack_addr_bound:
  assumes "stacks_fit s" and "k < unat (sa_capacity s)"
  shows "stack_addr s k + unat (stack_size_pages s) * 4096 < 2 ^ 64"
    and "unat (of_nat (stack_addr s k) :: u64) = stack_addr s k"
proof -
  let ?z = "unat (stack_size_pages s) * 4096"
  have "k * ?z + ?z \<le> unat (sa_capacity s) * ?z"
    using mult_le_mono1[of "Suc k" "unat (sa_capacity s)" ?z] assms(2) by simp
  moreover have "unat (number (sa_base s)) * 4096 + unat (sa_capacity s) * ?z < 2 ^ 64"
    using assms(1) by (simp add: stacks_fit_def)
  ultimately show lt: "stack_addr s k + ?z < 2 ^ 64" unfolding stack_addr_def by linarith
  then have "stack_addr s k < 2 ^ 64" by linarith
  then show "unat (of_nat (stack_addr s k) :: u64) = stack_addr s k"
    by (simp add: unat_of_nat take_bit_nat_eq_self)
qed

section \<open>Properties\<close>

text \<open>C35: the stacks that a fresh allocator hands out, up to its capacity, are as many as asked
  for and do not overlap; they lie one after the other from the start of the base page.  At the
  capacity the allocator refuses, and its state does not change.\<close>

theorem stacks_disjoint:
  assumes "stacks_fit s" and "sa_current s = 0" and "n \<le> unat (sa_capacity s)"
  shows "\<exists>stacks s'. stack_allocs chk n s = Inr (stacks, s') \<and> length stacks = n \<and>
    (\<forall>i j. i < j \<and> j < n \<longrightarrow> unat (stacks ! i) + unat (stack_size_pages s) * 4096 \<le> unat (stacks ! j)) \<and>
    (\<forall>i < n. unat (stacks ! i) = unat (number (sa_base s)) * 4096 + i * (unat (stack_size_pages s) * 4096)) \<and>
    (n = unat (sa_capacity s) \<longrightarrow> stack_alloc chk s' = Inr (None, s'))"
proof -
  let ?as = "map (\<lambda>k. of_nat (stack_addr s k) :: u64) [0..<n]" and ?s = "s\<lparr>sa_current := of_nat n\<rparr>"
  let ?z = "unat (stack_size_pages s) * 4096"
  have run: "stack_allocs chk n s = Inr (?as, ?s)" using stack_allocs_run[of s n chk] assms by simp
  have nth: "unat (?as ! i) = stack_addr s i" if "i < n" for i
    using stack_addr_bound(2)[OF assms(1), of i] assms(3) that by simp
  have "stack_addr s i + ?z \<le> stack_addr s j" if "i < j" for i j
    using mult_le_mono1[of "Suc i" j ?z] that by (simp add: stack_addr_def)
  then have "unat (?as ! i) + ?z \<le> unat (?as ! j)" if "i < j" "j < n" for i j
    using nth that by simp
  moreover have "stack_alloc chk ?s = Inr (None, ?s)" if "n = unat (sa_capacity s)"
    using stack_alloc_run[of ?s chk] assms(1) that by simp
  moreover have "length ?as = n" by simp
  ultimately show ?thesis using run nth unfolding stack_addr_def by blast
qed

theorem stacks_disjoint_witness:
  "\<exists>stacks s'. stack_allocs True 8 \<lparr>sa_base = \<lparr>number = 0xFFFFFFFF80200, page_size = Some Kib4\<rparr>,
     sa_capacity = 8, stack_size_pages = 4, sa_current = 0\<rparr> = Inr (stacks, s') \<and> length stacks = 8 \<and>
     unat (stacks ! 0) + 16384 \<le> unat (stacks ! 7)"
proof -
  let ?s = "\<lparr>sa_base = \<lparr>number = 0xFFFFFFFF80200, page_size = Some Kib4\<rparr>,
     sa_capacity = 8, stack_size_pages = 4, sa_current = 0\<rparr>"
  have "stacks_fit ?s" by (simp add: stacks_fit_def)
  from stacks_disjoint[OF this, of 8 True] obtain stacks s' where
    "stack_allocs True 8 ?s = Inr (stacks, s')" "length stacks = 8"
    "\<forall>i j. i < j \<and> j < 8 \<longrightarrow> unat (stacks ! i) + 16384 \<le> unat (stacks ! j)" by auto
  moreover from this(3) have "unat (stacks ! 0) + 16384 \<le> unat (stacks ! 7)" by simp
  ultimately show ?thesis by blast
qed

end
