(* ===== verification/Tss.thy ===== *)
theory Tss
  imports Prelude
begin

text \<open>
  \<open>kernel/src/tss.rs\<close>: the task state segment and its I/O permission bitmap, one bit for each of the
  65536 ports, set when the port must not be used.  The bit operations of the \<open>atomic_bitfield\<close> crate
  are the argument \<open>B\<close>; the size of the crate's \<open>TaskStateSegment\<close>, after which the
  bitmap lies, is the argument of \<open>tss_new\<close>.  The bitmap is an instance of the interface
  \<open>bitmap\<close> of the prelude.
\<close>

section \<open>Definitions\<close>

record io_bitmap =
  iomap :: "u8 list"
  always_ff :: u8

definition io_bitmap_new :: "u8 list \<Rightarrow> io_bitmap" where
  "io_bitmap_new m = \<lparr>iomap = m, always_ff = 0xFF\<rparr>"

definition io_bitmap_default :: io_bitmap where
  "io_bitmap_default = io_bitmap_new (replicate 8192 0xFF)"

text \<open>\<open>self.iomap[byte_idx as usize].swap_bit(bit as usize, !usable, ..)\<close>\<close>

definition swap_port_bit :: "bit_ops \<Rightarrow> u16 \<Rightarrow> bool \<Rightarrow> (io_bitmap, unit) comp" where
  "swap_port_bit B port usable =
     bind (gets iomap) (\<lambda>m.
       let byte_idx = unat (port div 8); b = unat (port mod 8) in
       if byte_idx < length m
       then modify (\<lambda>s. s\<lparr>iomap := m[byte_idx := set_bit_op B (m ! byte_idx) b (\<not> usable)]\<rparr>)
       else stop_with Out_of_bounds)"

definition set_port_range_usable :: "bit_ops \<Rightarrow> u16 \<Rightarrow> u16 \<Rightarrow> bool \<Rightarrow> (io_bitmap, unit) comp" where
  "set_port_range_usable B port_start port_end usable =
     bind (panic_unless (port_end div 8 < 8192) ''Port out of bounds'') (\<lambda>_.
     for_each (range_incl port_start port_end) (\<lambda>port. swap_port_bit B port usable))"

definition set_port_usable :: "bit_ops \<Rightarrow> u16 \<Rightarrow> bool \<Rightarrow> (io_bitmap, unit) comp" where
  "set_port_usable B port usable =
     bind (panic_unless (port div 8 < 8192) ''Port out of bounds'') (\<lambda>_. swap_port_bit B port usable)"

definition set_ports_usable :: "bit_ops \<Rightarrow> u16 list \<Rightarrow> bool \<Rightarrow> (io_bitmap, unit) comp" where
  "set_ports_usable B ports usable = for_each ports (\<lambda>port. set_port_usable B port usable)"

definition is_port_usable :: "bit_ops \<Rightarrow> u16 \<Rightarrow> (io_bitmap, bool) comp" where
  "is_port_usable B port =
     bind (panic_unless (port div 8 < 8192) ''Port out of bounds'') (\<lambda>_.
     bind (gets iomap) (\<lambda>m.
       let byte_idx = unat (port div 8); b = unat (port mod 8) in
       if byte_idx < length m then ret (\<not> get_bit_op B (m ! byte_idx) b) else stop_with Out_of_bounds))"

record iopb_lock =
  iopb :: io_bitmap
  iopb_locked :: bool

definition iopb_lock_default :: iopb_lock where
  "iopb_lock_default = \<lparr>iopb = io_bitmap_default, iopb_locked = False\<rparr>"

text \<open>\<open>lock_or_panic\<close> and an access through the guard, which is released after it.\<close>

definition lock_or_panic :: "(io_bitmap, 'a) comp \<Rightarrow> (iopb_lock, 'a) comp" where
  "lock_or_panic f =
     bind (gets iopb_locked) (\<lambda>l.
     bind (panic_unless (\<not> l) ''IO permissions bitmap concurrently locked!'') (\<lambda>_ s.
       case f (iopb s) of Inl e \<Rightarrow> Inl e | Inr (x, b) \<Rightarrow> Inr (x, s\<lparr>iopb := b\<rparr>)))"

text \<open>The 8193 bytes that the processor reads.\<close>

definition iopb_as_slice :: "iopb_lock \<Rightarrow> u8 list" where
  "iopb_as_slice l = iomap (iopb l) @ [always_ff (iopb l)]"

record task_state_segment =
  privilege_stack_table :: "u64 list"
  interrupt_stack_table :: "u64 list"
  iomap_base :: u16

record tss =
  tss_segment :: task_state_segment
  tss_iomap :: iopb_lock

definition tss_new :: "u64 \<Rightarrow> task_state_segment \<Rightarrow> tss" where
  "tss_new size_of_segment t = \<lparr>tss_segment = t\<lparr>iomap_base := ucast size_of_segment\<rparr>,
     tss_iomap = iopb_lock_default\<rparr>"

section \<open>The bitmap of the ports\<close>

text \<open>The interface \<open>bitmap\<close> on the model: the map together with the bit operations, which are
  as documented, and of the right length.\<close>

definition port_get :: "bit_ops \<times> u8 list \<Rightarrow> u16 \<Rightarrow> bool" where
  "port_get = (\<lambda>(B, m) port. get_bit_op B (m ! unat (port div 8)) (unat (port mod 8)))"

definition port_put :: "bit_ops \<times> u8 list \<Rightarrow> u16 \<Rightarrow> bool \<Rightarrow> bit_ops \<times> u8 list" where
  "port_put = (\<lambda>(B, m) port b.
     (B, m[unat (port div 8) := set_bit_op B (m ! unat (port div 8)) (unat (port mod 8)) b]))"

definition port_valid :: "bit_ops \<times> u8 list \<Rightarrow> u16 \<Rightarrow> bool" where
  "port_valid = (\<lambda>(B, m) port. bits_contract B \<and> length m = 8192)"

lemma port_index: "unat ((port :: u16) div 8) < 8192" "unat (port mod 8) < 8"
proof -
  have "unat port < 65536" using unat_bound[of port] by simp
  then show "unat (port div 8) < 8192" "unat (port mod 8) < 8" by (simp_all add: unat_div unat_mod)
qed

lemma port_eq_iff:
  "unat ((p :: u16) div 8) = unat (q div 8) \<and> unat (p mod 8) = unat (q mod 8) \<longleftrightarrow> p = q"
proof
  assume "unat (p div 8) = unat (q div 8) \<and> unat (p mod 8) = unat (q mod 8)"
  then have "unat p = unat q" by (simp add: unat_div unat_mod) (metis div_mult_mod_eq)
  then show "p = q" by (simp add: word_unat_eq_iff)
qed simp

interpretation io_ports: bitmap port_get port_put port_valid
proof
  fix s :: "bit_ops \<times> u8 list" and i j :: u16 and b
  obtain B m where s: "s = (B, m)" by (cases s)
  assume v: "port_valid s i"
  show "port_valid (port_put s i b) j = port_valid s j"
    by (simp add: s port_valid_def port_put_def)
  have B: "bits_contract B" and len: "length m = 8192" using v by (simp_all add: s port_valid_def)
  show "port_get (port_put s i b) j = (if j = i then b else port_get s j)"
    using port_index[of i] port_index[of j] port_eq_iff[of i j]
    by (cases "unat (i div 8) = unat (j div 8)")
      (auto simp: s port_get_def port_put_def len bits_contract_get[OF B] bits_contract_set[OF B] get_put_bit)
qed

definition usable_port :: "bit_ops \<Rightarrow> io_bitmap \<Rightarrow> u16 \<Rightarrow> bool" where
  "usable_port B s port \<longleftrightarrow> \<not> port_get (B, iomap s) port"

lemma port_in_range: "(port :: u16) div 8 < 8192"
  using port_index(1)[of port] by (simp add: word_less_nat_alt)

lemma swap_port_bit_run:
  "length (iomap s) = 8192 \<Longrightarrow>
    swap_port_bit B port usable s = Inr ((), s\<lparr>iomap := snd (port_put (B, iomap s) port (\<not> usable))\<rparr>)"
  using port_index[of port] by (simp add: swap_port_bit_def run_simps Let_def port_put_def)

lemma swap_ports_run:
  assumes "length (iomap s) = 8192"
  shows "for_each ports (\<lambda>port. swap_port_bit B port usable) s = Inr ((), s\<lparr>iomap :=
    snd (fold (\<lambda>port m. port_put m port (\<not> usable)) ports (B, iomap s))\<rparr>)"
  using assms
proof (induction ports arbitrary: s)
  case Nil
  then show ?case by (simp add: ret_def)
next
  case (Cons port ports)
  let ?s = "s\<lparr>iomap := snd (port_put (B, iomap s) port (\<not> usable))\<rparr>"
  have len: "length (iomap ?s) = 8192" using Cons.prems by (simp add: port_put_def)
  have "fst (port_put (B, iomap s) port (\<not> usable)) = B" by (simp add: port_put_def)
  then have "(B, iomap ?s) = port_put (B, iomap s) port (\<not> usable)" by (metis io_bitmap.select_convs(1) io_bitmap.surjective io_bitmap.update_convs(1) prod.collapse)
  with Cons.IH[OF len] swap_port_bit_run[OF Cons.prems, of B port usable] show ?case
    by (simp add: run_simps)
qed

lemma is_port_usable_run:
  "length (iomap s) = 8192 \<Longrightarrow> is_port_usable B port s = Inr (usable_port B s port, s)"
  using port_index[of port] port_in_range[of port]
  by (simp add: is_port_usable_def run_simps Let_def usable_port_def port_get_def)

lemma set_port_range_run:
  assumes "bits_contract B" and "length (iomap s) = 8192"
  shows "\<exists>s'. set_port_range_usable B port_start port_end usable s = Inr ((), s') \<and>
    length (iomap s') = 8192 \<and> always_ff s' = always_ff s \<and>
    (\<forall>port. is_port_usable B port s' =
      Inr (if port_start \<le> port \<and> port \<le> port_end then usable else usable_port B s port, s'))"
proof -
  let ?ps = "range_incl port_start port_end"
  have valid: "port_valid (B, iomap s) port" for port using assms by (simp add: port_valid_def)
  have fB: "fst (fold (\<lambda>port m. port_put m port b) ps (B, m)) = B" for ps m b
    by (induction ps arbitrary: m) (simp_all add: port_put_def)
  obtain m' where m': "fold (\<lambda>port m. port_put m port (\<not> usable)) ?ps (B, iomap s) = (B, m')"
    using fB[of "\<not> usable" ?ps "iomap s"] prod.collapse by metis
  let ?s = "s\<lparr>iomap := m'\<rparr>"
  have "port_valid (fold (\<lambda>port m. port_put m port (\<not> usable)) ?ps (B, iomap s)) 0 = port_valid (B, iomap s) 0"
    by (rule io_ports.valid_fold_put[OF valid])
  then have "port_valid (B, m') 0" unfolding m' using valid by simp
  then have len: "length (iomap ?s) = 8192" by (simp add: port_valid_def)
  have get: "port_get (B, m') port = (if port \<in> set ?ps then \<not> usable else port_get (B, iomap s) port)" for port
    unfolding m'[symmetric] by (rule io_ports.get_fold_put[OF valid valid])
  have "is_port_usable B port ?s =
      Inr (if port_start \<le> port \<and> port \<le> port_end then usable else usable_port B s port, ?s)" for port
    unfolding is_port_usable_run[OF len] using get[of port] by (simp add: usable_port_def set_range_incl)
  moreover have "set_port_range_usable B port_start port_end usable s = Inr ((), ?s)"
    unfolding set_port_range_usable_def bind_panic_unless[OF port_in_range] swap_ports_run[OF assms(2)] m' by simp
  ultimately show ?thesis using len by (intro exI[of _ ?s]) simp
qed

section \<open>Properties\<close>

text \<open>C26: \<open>set_port_range_usable\<close> never stops and makes exactly the ports of the range usable (or
  unusable), whatever the range; \<open>is_port_usable\<close> then tells so for every port.\<close>

theorem set_port_range_exact:
  assumes "bits_contract B" and "length (iomap s) = 8192"
  shows "\<exists>s'. set_port_range_usable B port_start port_end usable s = Inr ((), s') \<and>
    length (iomap s') = 8192 \<and> always_ff s' = always_ff s \<and>
    (\<forall>port. is_port_usable B port s' =
      Inr (if port_start \<le> port \<and> port \<le> port_end then usable else usable_port B s port, s'))"
  using assms by (rule set_port_range_run)

theorem set_port_range_exact_witness:
  "\<exists>s'. set_port_range_usable word_bit_ops 0x3F8 0x3FF True io_bitmap_default = Inr ((), s') \<and>
    is_port_usable word_bit_ops 0x3FF s' = Inr (True, s')"
proof -
  have "length (iomap io_bitmap_default) = 8192" by (simp add: io_bitmap_default_def io_bitmap_new_def)
  from set_port_range_exact[OF word_bit_ops_contract this, of "0x3F8" "0x3FF" True]
  obtain s' where "set_port_range_usable word_bit_ops 0x3F8 0x3FF True io_bitmap_default = Inr ((), s')"
    and p: "\<And>port. is_port_usable word_bit_ops port s' = Inr (if 0x3F8 \<le> port \<and> port \<le> 0x3FF
      then True else usable_port word_bit_ops io_bitmap_default port, s')" by blast
  with p[of "0x3FF"] show ?thesis by auto
qed

text \<open>A new task state segment gives user mode no port at all, and the bitmap the processor reads
  ends in the byte of ones that must follow it.\<close>

lemma new_tss_no_ports:
  assumes "bits_contract B"
  shows "is_port_usable B port (iopb (tss_iomap (tss_new n t))) = Inr (False, iopb (tss_iomap (tss_new n t))) \<and>
    length (iopb_as_slice (tss_iomap (tss_new n t))) = 8193 \<and>
    iopb_as_slice (tss_iomap (tss_new n t)) ! 8192 = 0xFF"
proof -
  let ?s = "iopb (tss_iomap (tss_new n t))"
  have m: "iomap ?s = replicate 8192 0xFF" and ff: "always_ff ?s = 0xFF"
    by (simp_all add: tss_new_def iopb_lock_default_def io_bitmap_default_def io_bitmap_new_def)
  have "bit (0xFF :: u8) (unat (port mod 8))"
    using bit_mask_iff[of 8 "unat (port mod 8)", where 'a = u8] port_index(2)[of port]
    by (simp add: mask_eq_exp_minus_1)
  then have "\<not> usable_port B ?s port"
    using port_index[of port]
    by (simp add: usable_port_def port_get_def m bits_contract_get[OF assms] get_bit_def)
  then show ?thesis
    using is_port_usable_run[of ?s B port] by (simp add: m ff iopb_as_slice_def nth_append)
qed

end
