(* ===== verification/Memory_Setup.thy ===== *)
theory Memory_Setup
  imports Remap Stack_Allocator Tss
begin

text \<open>
  The start-up of the memory subsystem in \<open>kernel/src/memory.rs\<close>: the bootstrap heap, the second
  half of the physical allocator (\<open>init_rest\<close> of \<open>physical_allocator.rs\<close>), the guard page, the
  stacks of the task state segment, and \<open>init_memory\<close>, which runs everything in order.  The static
  \<open>TSS\<close> is a field added to the machine.  The messages of \<open>print_memory_info\<close> are not modelled, its
  arithmetic is.
\<close>

section \<open>The second half of the physical allocator\<close>

text \<open>\<open>Box<[Block]>\<close> with one byte per block; without heap memory the handler \<open>oom\<close> of \<open>lang.rs\<close>
  panics.\<close>

definition new_blocks :: "'t crates \<Rightarrow> (('t, 'z) machine_scheme, u64) comp" where
  "new_blocks C =
     bind (heap_alloc C (tree_array_size C)) (\<lambda>p.
       if p = 0 then stop_with (Panic ''Ran out of kernel heap memory'') else ret p)"

definition init_rest_step :: "'t crates \<Rightarrow> (u64 \<times> u64) list \<Rightarrow> u8 \<Rightarrow> (('t, 'z) machine_scheme, unit) comp" where
  "init_rest_step C usable i =
     bind (new_blocks C) (\<lambda>blocks.
     bind (gets phys_trees) (\<lambda>once.
     bind (expect once unwrap_none) (\<lambda>trees.
       if unat i < length trees
       then modify (\<lambda>m. m\<lparr>phys_trees := Some (trees[unat i :=
              Some (tree_new C LEVEL_COUNT BASE_ORDER (localize i usable) (Heap blocks))])\<rparr>)
       else stop_with Out_of_bounds)))"

definition init_rest :: "'t crates \<Rightarrow> u8 \<Rightarrow> (u64 \<times> u64) list \<Rightarrow> (('t, 'z) machine_scheme, unit) comp" where
  "init_rest C gibbibytes usable =
     bind (gets phys_trees) (\<lambda>once.
     bind (expect once unwrap_none) (\<lambda>_.
     for_each (range_incl 8 gibbibytes) (init_rest_step C usable)))"

definition setup_physical_allocator_rest :: "'t crates \<Rightarrow> u8 \<Rightarrow> (u64 \<times> u64) list
    \<Rightarrow> (('t, 'z) machine_scheme, unit) comp" where
  "setup_physical_allocator_rest C gibbibytes usable = init_rest C gibbibytes usable"

section \<open>The bootstrap heap\<close>

text \<open>The alignment of an array of one-byte blocks is 1, so that the alignment offset is 0.\<close>

definition setup_bootstrap_heap :: "'t crates \<Rightarrow> u64 \<Rightarrow> u64
    \<Rightarrow> (('t, 'z) machine_scheme, (u64 \<times> u64) \<times> (u64 \<times> u64)) comp" where
  "setup_bootstrap_heap C virtual_start physical_start =
     (let chk = overflow_checks C; space = space_taken (tree_array_size C) in
      bind (page_add chk (containing_address virtual_start) 1) (\<lambda>start_page.
      bind (add_ck chk (physical_start div 4096) 1) (\<lambda>start_frame.
      bind (page_range_mapping_new chk start_page start_frame (space div 4096)) (\<lambda>mapping.
      bind (map_page_range C mapping NoInvalidate (WRITABLE OR NO_EXECUTE OR GLOBAL)) (\<lambda>r. case r of
        Inl _ \<Rightarrow> stop_with (Panic ''Out of physical memory for page tables'')
      | Inr _ \<Rightarrow>
        bind (mul_ck chk (number start_page) 4096) (\<lambda>v.
        bind (on_bootstrap (init_unchecked v)) (\<lambda>_.
        bind (mul_ck chk start_frame 4096) (\<lambda>p.
        bind (add_ck chk p space) (\<lambda>p_end.
        bind (add_ck chk v space) (\<lambda>v_end.
        ret ((p, p_end), (v, v_end))))))))))))"

section \<open>Guard page and stacks\<close>

definition setup_guard_page :: "'t crates \<Rightarrow> u64 \<Rightarrow> (('t, 'z) machine_scheme, unit) comp" where
  "setup_guard_page C addr =
     (let page = containing_address addr in
      bind (walk_page_table C page) (\<lambda>w.
      bind (expect w ''Guard page must be mapped!'') (\<lambda>e.
      bind (panic_unless (snd e = Kib4) ''Guard page must be on a 4kib page!'') (\<lambda>_.
      unmap C page NoFree Invalidate))))"

record 't mem_state = "'t machine" +
  tss_cell :: "tss option"

definition IST_STACK_SIZE_PAGES :: u64 where "IST_STACK_SIZE_PAGES = 4"

text \<open>One round of the mapping loop: the first page of each stack is its guard page.\<close>

definition map_stack_page :: "'t crates \<Rightarrow> page \<Rightarrow> u64 \<Rightarrow> (('t, 'z) machine_scheme, unit) comp" where
  "map_stack_page C begin_page no =
     (let chk = overflow_checks C in
      if no mod IST_STACK_SIZE_PAGES = 0 then ret () else
      bind (start_address chk begin_page) (\<lambda>a.
      bind (expect a unwrap_none) (\<lambda>start.
      bind (mul_ck chk no 4096) (\<lambda>off.
      bind (add_ck chk start off) (\<lambda>addr.
      bind (map_page C (containing_address addr) (WRITABLE OR NO_EXECUTE OR GLOBAL) Invalidate Zero) (\<lambda>r.
      case r of Inl _ \<Rightarrow> stop_with (Panic ''Out of physical memory'') | Inr _ \<Rightarrow> ret ()))))))"

text \<open>The closure \<open>alloc\<close>: the upper end of the next stack, as a \<open>VirtAddr\<close>.\<close>

definition alloc_stack_top :: "'t crates \<Rightarrow> (stack_allocator, u64) comp" where
  "alloc_stack_top C =
     (let chk = overflow_checks C in
      bind (stack_alloc chk) (\<lambda>p.
      bind (expect p unwrap_none) (\<lambda>stack_start.
      bind (mul_ck chk IST_STACK_SIZE_PAGES 4096) (\<lambda>z.
      bind (add_ck chk stack_start z) (\<lambda>top.
      expect (virt_addr_try_new C top) ''address passed to VirtAddr::new is not canonical'')))))"

primrec stack_tops :: "'t crates \<Rightarrow> nat \<Rightarrow> (stack_allocator, u64 list) comp" where
  "stack_tops C 0 = ret []"
| "stack_tops C (Suc n) = bind (alloc_stack_top C) (\<lambda>a. bind (stack_tops C n) (\<lambda>as. ret (a # as)))"

definition new_tss :: "'t crates \<Rightarrow> u64 \<Rightarrow> (stack_allocator, tss) comp" where
  "new_tss C size_of_segment =
     bind (stack_tops C 7) (\<lambda>ist.
     bind (alloc_stack_top C) (\<lambda>privilege.
     ret (tss_new size_of_segment \<lparr>privilege_stack_table = [privilege, 0, 0], interrupt_stack_table = ist,
       iomap_base = 0\<rparr>)))"

definition setup_ist :: "'t crates \<Rightarrow> u64 \<Rightarrow> page \<Rightarrow> (('t, 'z) mem_state_scheme, unit) comp" where
  "setup_ist C size_of_segment begin_page =
     bind (stack_allocator_new (overflow_checks C) begin_page 8 IST_STACK_SIZE_PAGES) (\<lambda>allocator.
     bind (mul_ck (overflow_checks C) IST_STACK_SIZE_PAGES 8) (\<lambda>pages.
     bind (for_each (range_excl 0 pages) (map_stack_page C begin_page)) (\<lambda>_.
     bind (gets tss_cell) (\<lambda>once.
       if once \<noteq> None then ret () else
       (\<lambda>m. case new_tss C size_of_segment allocator of
          Inl e \<Rightarrow> Inl e
        | Inr (t, _) \<Rightarrow> Inr ((), m\<lparr>tss_cell := Some t\<rparr>))))))"

section \<open>\<open>init_memory\<close>\<close>

text \<open>The bytes that \<open>print_memory_info\<close> adds up; the subtraction and the sum can overflow.\<close>

primrec print_memory_info :: "bool \<Rightarrow> (u64 \<times> u64) list \<Rightarrow> u64 \<Rightarrow> ('s, u64) comp" where
  "print_memory_info chk [] bytes = ret bytes"
| "print_memory_info chk (area # areas) bytes =
     bind (sub_ck chk (snd area) (fst area)) (\<lambda>n.
     bind (add_ck chk bytes n) (\<lambda>t. print_memory_info chk areas t))"

definition init_memory :: "'t crates \<Rightarrow> u64 \<Rightarrow> boot_info \<Rightarrow> u64 \<Rightarrow> (('t, 'z) mem_state_scheme, unit) comp" where
  "init_memory C size_of_segment mb_info guard_page_addr =
     (let chk = overflow_checks C; mb_info_phys = (mb_start mb_info, mb_end mb_info) in
      bind (kernel_area mb_info) (\<lambda>kern.
      bind (expect (memory_areas mb_info)
             ''Expected a multiboot2 memory map tag, but it is not present!'') (\<lambda>areas.
      bind (print_memory_info chk areas 0) (\<lambda>_.
      bind (add_ck chk (mb_end mb_info) 1) (\<lambda>a.
      bind (phys_addr C a) (\<lambda>physical_start.
      bind (add_ck chk (snd kern) 1) (\<lambda>v.
      bind (expect (virt_addr_try_new C v) ''address passed to VirtAddr::new is not canonical'') (\<lambda>virtual_start.
      bind (setup_bootstrap_heap C virtual_start physical_start) (\<lambda>(bootstrap_heap_phys, bootstrap_heap_virtual).
      bind (setup_physical_allocator_prelim C mb_info mb_info_phys bootstrap_heap_phys kern) (\<lambda>(gibbibytes, usable).
      bind (add_ck chk (snd bootstrap_heap_virtual) 1) (\<lambda>tree_after.
      bind (heap_init C tree_after) (\<lambda>heap_tree_start.
      bind (add_ck chk heap_tree_start (heap_tree_size C)) (\<lambda>heap_tree_end.
      bind (setup_physical_allocator_rest C gibbibytes usable) (\<lambda>_.
      bind (remap_kernel C mb_info heap_tree_start) (\<lambda>_.
      bind (setup_guard_page C guard_page_addr) (\<lambda>_.
      bind (round_up_divide chk heap_tree_end 4096) (\<lambda>n.
      bind (mul_ck chk n 4096) (\<lambda>ist_start.
      setup_ist C size_of_segment (containing_address ist_start)))))))))))))))))))"

end
