(* ===== verification/Vga.thy ===== *)
theory Vga
  imports Prelude
begin

text \<open>
  \<open>kernel/src/vga.rs\<close>: the text terminal.  The state is a record of the cursor, the colours
  and the rows of the frame buffer that the writer's pointer refers to; a \<open>char\<close> is its code
  point.  The invariant is that the cursor is on the screen; under it no operation
  stops.  The abstract terminal \<open>paper\<close> is a sheet without end of which the
  screen shows the last 25 rows; the writer is shown to refine it.
\<close>

section \<open>Colours and cells\<close>

datatype Colour =
    Black | Blue | Green | Cyan | Red | Magenta | Brown | LightGray
  | DarkGray | LightBlue | LightGreen | LightCyan | LightRed | Pink | Yellow | White

primrec colour_code :: "Colour \<Rightarrow> u8" where
  "colour_code Black = 0"
| "colour_code Blue = 1"
| "colour_code Green = 2"
| "colour_code Cyan = 3"
| "colour_code Red = 4"
| "colour_code Magenta = 5"
| "colour_code Brown = 6"
| "colour_code LightGray = 7"
| "colour_code DarkGray = 8"
| "colour_code LightBlue = 9"
| "colour_code LightGreen = 10"
| "colour_code LightCyan = 11"
| "colour_code LightRed = 12"
| "colour_code Pink = 13"
| "colour_code Yellow = 14"
| "colour_code White = 15"

record colour_pair =
  foreground :: Colour
  background :: Colour

definition colour_pair_default :: colour_pair where
  "colour_pair_default = \<lparr>foreground = White, background = Black\<rparr>"

definition vga_colour :: "Colour \<Rightarrow> Colour \<Rightarrow> u8" where
  "vga_colour fg bg = push_bit 4 (colour_code bg) OR colour_code fg"

record vga_char =
  character :: u8
  cell_colour :: u8

definition vga_char_new :: "u8 \<Rightarrow> u8 \<Rightarrow> vga_char" where
  "vga_char_new col c = \<lparr>character = c, cell_colour = col\<rparr>"

definition vga_colour_from :: "colour_pair \<Rightarrow> u8" where
  "vga_colour_from c = vga_colour (foreground c) (background c)"

section \<open>\<open>VgaBuffer\<close>\<close>

definition RESOLUTION_X :: nat where "RESOLUTION_X = 80"
definition RESOLUTION_Y :: nat where "RESOLUTION_Y = 25"

type_synonym vga_buffer = "vga_char list list"

definition buffer_set_char :: "nat \<Rightarrow> nat \<Rightarrow> vga_char \<Rightarrow> (vga_buffer, unit) comp" where
  "buffer_set_char x y v b =
     (if y < length b \<and> x < length (b ! y) then Inr ((), b[y := (b ! y)[x := v]])
      else Inl Out_of_bounds)"

definition buffer_clear_row :: "nat \<Rightarrow> Colour \<Rightarrow> (vga_buffer, unit) comp" where
  "buffer_clear_row y col =
     for_each [0..<RESOLUTION_X] (\<lambda>x. buffer_set_char x y (vga_char_new (vga_colour Black col) 0x20))"

text \<open>\<open>(RESOLUTION.y - 1) - row\<close> underflows for an amount above the number of rows: a panic
  with overflow checks, an index out of range without.\<close>

definition buffer_scroll_down :: "bool \<Rightarrow> nat \<Rightarrow> Colour \<Rightarrow> (vga_buffer, unit) comp" where
  "buffer_scroll_down chk amount col =
     bind (if min amount RESOLUTION_Y < RESOLUTION_Y then modify (rotate amount) else ret ()) (\<lambda>_.
     for_each [0..<amount] (\<lambda>row.
       if RESOLUTION_Y - 1 < row then stop_with (if chk then Overflow else Out_of_bounds)
       else buffer_clear_row (RESOLUTION_Y - 1 - row) col))"

section \<open>\<open>VgaWriter\<close>\<close>

record vga_writer =
  vga_rows :: vga_buffer
  cursor :: "nat \<times> nat"
  colour :: colour_pair

text \<open>\<open>VgaWriter::new\<close> over the frame buffer as it is.\<close>

definition vga_writer_new :: "vga_buffer \<Rightarrow> vga_writer" where
  "vga_writer_new b = \<lparr>vga_rows = b, cursor = (0, RESOLUTION_Y - 1), colour = colour_pair_default\<rparr>"

definition on_buffer :: "(vga_buffer, unit) comp \<Rightarrow> (vga_writer, unit) comp" where
  "on_buffer f w = (case f (vga_rows w) of Inl e \<Rightarrow> Inl e | Inr (x, b) \<Rightarrow> Inr (x, w\<lparr>vga_rows := b\<rparr>))"

definition set_char :: "bool \<Rightarrow> 32 word \<Rightarrow> colour_pair \<Rightarrow> nat \<times> nat \<Rightarrow> (vga_writer, unit) comp" where
  "set_char chk c col p =
     (if RESOLUTION_Y - 1 < snd p then stop_with (if chk then Overflow else Out_of_bounds)
      else on_buffer (buffer_set_char (fst p) (RESOLUTION_Y - 1 - snd p)
             (vga_char_new (vga_colour_from col) (ucast c))))"

definition scroll_down :: "bool \<Rightarrow> nat \<Rightarrow> (vga_writer, unit) comp" where
  "scroll_down chk amount =
     bind (gets (\<lambda>w. background (colour w))) (\<lambda>bg. on_buffer (buffer_scroll_down chk amount bg))"

definition new_line :: "bool \<Rightarrow> (vga_writer, unit) comp" where
  "new_line chk =
     bind (modify (\<lambda>w. w\<lparr>cursor := (0, snd (cursor w))\<rparr>)) (\<lambda>_.
     bind (gets (\<lambda>w. snd (cursor w))) (\<lambda>y.
       if 0 < y then modify (\<lambda>w. w\<lparr>cursor := (fst (cursor w), y - 1)\<rparr>)
       else scroll_down chk 1))"

definition write_coloured :: "bool \<Rightarrow> 32 word \<Rightarrow> colour_pair \<Rightarrow> (vga_writer, unit) comp" where
  "write_coloured chk c col =
     (if c = 10 then new_line chk
      else
        bind (gets cursor) (\<lambda>p.
        bind (set_char chk c col p) (\<lambda>_.
        bind (modify (\<lambda>w. w\<lparr>cursor := (fst (cursor w) + 1, snd (cursor w))\<rparr>)) (\<lambda>_.
        bind (gets (\<lambda>w. fst (cursor w))) (\<lambda>x.
          if RESOLUTION_X \<le> x then new_line chk else ret ())))))"

definition write_str_coloured :: "bool \<Rightarrow> 32 word list \<Rightarrow> colour_pair \<Rightarrow> (vga_writer, unit) comp" where
  "write_str_coloured chk cs col = for_each cs (\<lambda>c. write_coloured chk c col)"

definition write_str :: "bool \<Rightarrow> 32 word list \<Rightarrow> (vga_writer, unit) comp" where
  "write_str chk cs = bind (gets colour) (write_str_coloured chk cs)"

definition vga_clear :: "(vga_writer, unit) comp" where
  "vga_clear =
     bind (gets (\<lambda>w. background (colour w))) (\<lambda>bg.
     for_each [0..<RESOLUTION_Y] (\<lambda>line. on_buffer (buffer_clear_row line bg)))"

section \<open>The invariant\<close>

definition rows_ok :: "vga_buffer \<Rightarrow> bool" where
  "rows_ok b \<longleftrightarrow> length b = RESOLUTION_Y \<and> (\<forall>r \<in> set b. length r = RESOLUTION_X)"

definition vga_inv :: "vga_writer \<Rightarrow> bool" where
  "vga_inv w \<longleftrightarrow> rows_ok (vga_rows w) \<and> fst (cursor w) < RESOLUTION_X \<and> snd (cursor w) < RESOLUTION_Y"

definition blank_row :: "Colour \<Rightarrow> vga_char list" where
  "blank_row col = replicate RESOLUTION_X (vga_char_new (vga_colour Black col) 0x20)"

lemma rows_okD: "rows_ok b \<Longrightarrow> y < RESOLUTION_Y \<Longrightarrow> length (b ! y) = RESOLUTION_X"
  by (simp add: rows_ok_def)

lemma rows_ok_update:
  "rows_ok b \<Longrightarrow> length r = RESOLUTION_X \<Longrightarrow> rows_ok (b[y := r])"
  by (auto simp: rows_ok_def dest!: set_update_subset_insert[THEN subsetD])

text \<open>Filling a row cell by cell.\<close>

lemma fill_row:
  assumes "y < length b" and "n \<le> length (b ! y)"
  shows "for_each [0..<n] (\<lambda>x. buffer_set_char x y v) b
    = Inr ((), b[y := replicate n v @ drop n (b ! y)])"
  using assms(2)
proof (induction n)
  case 0
  then show ?case by (simp add: ret_def)
next
  case (Suc n)
  have app: "for_each (xs @ ys) f s = bind (for_each xs f) (\<lambda>_. for_each ys f) s"
    for xs ys :: "nat list" and f :: "nat \<Rightarrow> (vga_buffer, unit) comp" and s
    by (induction xs arbitrary: s) (simp_all add: run_simps bind_def split: sum.splits)
  have "(replicate n v @ drop n (b ! y))[n := v] = replicate (Suc n) v @ drop (Suc n) (b ! y)"
    using Suc.prems
    by (simp add: list_update_append Cons_nth_drop_Suc[symmetric] replicate_append_same[symmetric])
  then show ?case
    using Suc assms(1) by (simp add: app run_simps buffer_set_char_def)
qed

lemma clear_row_run:
  assumes "rows_ok b" and "y < RESOLUTION_Y"
  shows "buffer_clear_row y col b = Inr ((), b[y := blank_row col])"
  using fill_row[of y b RESOLUTION_X "vga_char_new (vga_colour Black col) 0x20"] assms
  by (simp add: buffer_clear_row_def blank_row_def rows_okD) (simp add: rows_ok_def)

text \<open>Scrolling by one row drops the first and adds a blank one.\<close>

lemma scroll_one:
  assumes "rows_ok b"
  shows "buffer_scroll_down chk 1 col b = Inr ((), tl b @ [blank_row col])"
proof -
  obtain r b' where b: "b = r # b'" "length b' = 24" "length r = RESOLUTION_X"
    "\<forall>r \<in> set b'. length r = RESOLUTION_X"
    using assms by (cases b) (auto simp: rows_ok_def RESOLUTION_Y_def)
  then have "rows_ok (b' @ [r])" by (auto simp: rows_ok_def RESOLUTION_Y_def)
  then have "buffer_clear_row 24 col (b' @ [r]) = Inr ((), (b' @ [r])[24 := blank_row col])"
    by (rule clear_row_run) (simp add: RESOLUTION_Y_def)
  moreover have "(b' @ [r])[24 := blank_row col] = b' @ [blank_row col]"
    using b(2) by (simp add: list_update_append)
  ultimately show ?thesis
    by (simp add: buffer_scroll_down_def run_simps b(1) RESOLUTION_Y_def)
qed

lemma new_line_run:
  assumes "rows_ok (vga_rows w)"
  shows "new_line chk w = Inr ((), if 0 < snd (cursor w) then w\<lparr>cursor := (0, snd (cursor w) - 1)\<rparr>
     else w\<lparr>cursor := (0, 0), vga_rows := tl (vga_rows w) @ [blank_row (background (colour w))]\<rparr>)"
  using assms scroll_one[of "vga_rows w" chk "background (colour w)"]
  by (cases "cursor w") (simp add: new_line_def scroll_down_def on_buffer_def run_simps)

text \<open>The cell a character is written to.\<close>

definition put_char :: "32 word \<Rightarrow> colour_pair \<Rightarrow> vga_writer \<Rightarrow> vga_writer" where
  "put_char c col w =
     (let y = RESOLUTION_Y - 1 - snd (cursor w); x = fst (cursor w) in
      w\<lparr>vga_rows := (vga_rows w)[y := (vga_rows w ! y)[x := vga_char_new (vga_colour_from col) (ucast c)]],
        cursor := (x + 1, snd (cursor w))\<rparr>)"

lemma write_coloured_run:
  assumes "vga_inv w"
  shows "write_coloured chk c col w =
    (if c = 10 then new_line chk w
     else if fst (cursor w) + 1 < RESOLUTION_X then Inr ((), put_char c col w)
     else new_line chk (put_char c col w))"
proof -
  have y: "RESOLUTION_Y - 1 - snd (cursor w) < length (vga_rows w)" "snd (cursor w) \<le> RESOLUTION_Y - 1"
    and x: "fst (cursor w) < length (vga_rows w ! (RESOLUTION_Y - 1 - snd (cursor w)))"
    using assms by (auto simp: vga_inv_def rows_ok_def RESOLUTION_Y_def)
  have "set_char chk c col (cursor w) w = Inr ((), w\<lparr>vga_rows := vga_rows (put_char c col w)\<rparr>)"
    using x y by (simp add: set_char_def on_buffer_def buffer_set_char_def put_char_def Let_def)
  then show ?thesis
    by (simp add: write_coloured_def run_simps put_char_def Let_def not_le)
qed

lemma vga_inv_new_line:
  assumes "rows_ok (vga_rows w)" and "snd (cursor w) < RESOLUTION_Y" and "new_line chk w = Inr ((), w')"
  shows "vga_inv w'"
proof -
  have "rows_ok (tl b @ [blank_row col])" if "rows_ok b" for b col
    using that by (cases b) (auto simp: rows_ok_def blank_row_def RESOLUTION_Y_def)
  then show ?thesis
    using assms new_line_run[OF assms(1), of chk]
    by (auto simp: vga_inv_def RESOLUTION_X_def RESOLUTION_Y_def)
qed

lemma put_char_ok:
  assumes "vga_inv w"
  shows "rows_ok (vga_rows (put_char c col w))" and "snd (cursor (put_char c col w)) < RESOLUTION_Y"
  using assms by (auto simp: put_char_def Let_def vga_inv_def RESOLUTION_Y_def rows_okD intro!: rows_ok_update)

section \<open>The abstract terminal\<close>

record paper =
  sheet :: "vga_char list list"
  prow :: nat
  pcol :: nat

definition paper_line :: "Colour \<Rightarrow> paper \<Rightarrow> paper" where
  "paper_line bg p = p\<lparr>prow := prow p + 1, pcol := 0,
     sheet := (if prow p + 1 < length (sheet p) then sheet p else sheet p @ [blank_row bg])\<rparr>"

definition paper_char :: "Colour \<Rightarrow> colour_pair \<Rightarrow> 32 word \<Rightarrow> paper \<Rightarrow> paper" where
  "paper_char bg col c p =
     (if c = 10 then paper_line bg p else
      let q = p\<lparr>sheet := (sheet p)[prow p := (sheet p ! prow p)[pcol p :=
                  vga_char_new (vga_colour_from col) (ucast c)]], pcol := pcol p + 1\<rparr> in
      if pcol q < RESOLUTION_X then q else paper_line bg q)"

text \<open>The screen shows the last rows of the sheet.\<close>

definition shows_paper :: "paper \<Rightarrow> vga_writer \<Rightarrow> bool" where
  "shows_paper p w \<longleftrightarrow> RESOLUTION_Y \<le> length (sheet p) \<and>
     vga_rows w = drop (length (sheet p) - RESOLUTION_Y) (sheet p) \<and>
     pcol p = fst (cursor w) \<and> prow p + snd (cursor w) + 1 = length (sheet p)"

lemma shows_new_line:
  assumes "shows_paper p w" and "rows_ok (vga_rows w)" and "new_line chk w = Inr ((), w')"
  shows "shows_paper (paper_line (background (colour w)) p) w'" and "colour w' = colour w"
proof -
  have tl: "drop (Suc k) xs = tl (drop k xs)" for k and xs :: "vga_char list list"
    by (simp add: drop_Suc tl_drop)
  have w': "w' = (if 0 < snd (cursor w) then w\<lparr>cursor := (0, snd (cursor w) - 1)\<rparr>
     else w\<lparr>cursor := (0, 0), vga_rows := tl (vga_rows w) @ [blank_row (background (colour w))]\<rparr>)"
    using assms(3) new_line_run[OF assms(2), of chk] by simp
  then show "colour w' = colour w" by simp
  have k: "Suc (length (sheet p)) - RESOLUTION_Y = Suc (length (sheet p) - RESOLUTION_Y)"
    using assms(1) by (simp add: shows_paper_def Suc_diff_le)
  have z: "Suc 0 - RESOLUTION_Y = 0" by (simp add: RESOLUTION_Y_def)
  show "shows_paper (paper_line (background (colour w)) p) w'"
    using assms(1) tl[of "length (sheet p) - RESOLUTION_Y" "sheet p"] k z unfolding w'
    by (auto simp: shows_paper_def paper_line_def)
qed

lemma shows_put_char:
  assumes "shows_paper p w" and "vga_inv w"
  shows "shows_paper (p\<lparr>sheet := (sheet p)[prow p := (sheet p ! prow p)[pcol p :=
            vga_char_new (vga_colour_from col) (ucast c)]], pcol := pcol p + 1\<rparr>) (put_char c col w)"
proof -
  let ?k = "length (sheet p) - RESOLUTION_Y" and ?y = "RESOLUTION_Y - 1 - snd (cursor w)"
  have y: "prow p = ?k + ?y"
    using assms by (auto simp: shows_paper_def vga_inv_def RESOLUTION_Y_def)
  have len: "RESOLUTION_Y \<le> length (sheet p)" and rows: "vga_rows w = drop ?k (sheet p)"
    using assms(1) by (auto simp: shows_paper_def)
  have "vga_rows w ! ?y = sheet p ! prow p" using rows len y by simp
  moreover have "(drop ?k (sheet p))[?y := r] = drop ?k ((sheet p)[prow p := r])" for r
    unfolding y by (simp add: drop_update_swap)
  ultimately show ?thesis using assms(1) rows by (auto simp: shows_paper_def put_char_def Let_def)
qed

lemma write_coloured_refines:
  assumes "shows_paper p w" and "vga_inv w"
  shows "\<exists>w'. write_coloured chk c col w = Inr ((), w') \<and> vga_inv w' \<and> colour w' = colour w \<and>
    shows_paper (paper_char (background (colour w)) col c p) w'"
proof -
  let ?q = "p\<lparr>sheet := (sheet p)[prow p := (sheet p ! prow p)[pcol p :=
            vga_char_new (vga_colour_from col) (ucast c)]], pcol := pcol p + 1\<rparr>"
  have rows: "rows_ok (vga_rows w)" and cur: "snd (cursor w) < RESOLUTION_Y"
    using assms(2) by (simp_all add: vga_inv_def)
  note q = shows_put_char[OF assms, of col c] and pc = put_char_ok[OF assms(2), of c col]
  have col: "colour (put_char c col w) = colour w" by (simp add: put_char_def Let_def)
  have x: "pcol p = fst (cursor w)" using assms(1) by (simp add: shows_paper_def)
  show ?thesis
  proof (cases "c = 10")
    case True
    obtain w' where w': "new_line chk w = Inr ((), w')" using new_line_run[OF rows] by blast
    with shows_new_line[OF assms(1) rows w'] vga_inv_new_line[OF rows cur w'] show ?thesis
      by (simp add: write_coloured_run[OF assms(2)] paper_char_def True)
  next
    case False
    show ?thesis
    proof (cases "fst (cursor w) + 1 < RESOLUTION_X")
      case True
      have "vga_inv (put_char c col w)" using pc True by (simp add: vga_inv_def put_char_def Let_def)
      with True False q col x show ?thesis
        by (simp add: write_coloured_run[OF assms(2)] paper_char_def Let_def)
    next
      case wrap: False
      obtain w' where w': "new_line chk (put_char c col w) = Inr ((), w')"
        using new_line_run[OF pc(1)] by blast
      with shows_new_line[OF q pc(1) w'] vga_inv_new_line[OF pc w'] False wrap x col show ?thesis
        by (simp add: write_coloured_run[OF assms(2)] paper_char_def Let_def)
    qed
  qed
qed

lemma write_str_coloured_refines:
  assumes "shows_paper p w" and "vga_inv w"
  shows "\<exists>w'. write_str_coloured chk cs col w = Inr ((), w') \<and> vga_inv w' \<and> colour w' = colour w \<and>
    shows_paper (fold (paper_char (background (colour w)) col) cs p) w'"
  using assms
proof (induction cs arbitrary: p w)
  case Nil
  then show ?case by (simp add: write_str_coloured_def ret_def)
next
  case (Cons c cs)
  obtain w1 where w1: "write_coloured chk c col w = Inr ((), w1)" "vga_inv w1" "colour w1 = colour w"
    "shows_paper (paper_char (background (colour w)) col c p) w1"
    using write_coloured_refines[OF Cons.prems] by blast
  from Cons.IH[OF w1(4,2)] w1(1,3) show ?case by (auto simp: write_str_coloured_def run_simps)
qed

section \<open>Properties\<close>

text \<open>C15: the terminal refines a sheet of paper without end: \<open>write_str\<close> never stops, keeps
  the cursor on the screen, and afterwards the screen shows the last 25 rows of the sheet to which the
  text has been written, with lines broken at column 80.\<close>

theorem write_str_refines_paper:
  assumes "shows_paper p w" and "vga_inv w"
  shows "\<exists>w'. write_str chk cs w = Inr ((), w') \<and> vga_inv w' \<and> colour w' = colour w \<and>
    shows_paper (fold (paper_char (background (colour w)) (colour w)) cs p) w'"
  using write_str_coloured_refines[OF assms, of chk cs "colour w"] by (simp add: write_str_def run_simps)

lemma writer_new_ok: "vga_inv (vga_writer_new (replicate 25 (blank_row Black)))"
  by (simp add: vga_inv_def vga_writer_new_def rows_ok_def blank_row_def RESOLUTION_X_def RESOLUTION_Y_def)

theorem write_str_refines_paper_witness:
  "\<exists>w'. write_str True [72, 105, 10] (vga_writer_new (replicate 25 (blank_row Black))) = Inr ((), w') \<and>
    vga_inv w'"
proof -
  let ?w = "vga_writer_new (replicate 25 (blank_row Black))"
  have "shows_paper \<lparr>sheet = replicate 25 (blank_row Black), prow = 0, pcol = 0\<rparr> ?w"
    by (simp add: shows_paper_def vga_writer_new_def RESOLUTION_Y_def)
  from write_str_refines_paper[OF this writer_new_ok, of True "[72, 105, 10]"] show ?thesis by blast
qed

text \<open>The colour byte of a cell holds both colours: the background in the upper four bits, the
  foreground in the lower four, so that different pairs give different bytes.\<close>

lemma vga_colour_roundtrip:
  "drop_bit 4 (vga_colour fg bg) = colour_code bg \<and> vga_colour fg bg AND 0x0F = colour_code fg \<and>
   (vga_colour fg bg = vga_colour fg' bg') = (fg = fg' \<and> bg = bg')"
proof -
  have "drop_bit 4 (vga_colour a b) = colour_code b" for a b
    by (cases a; cases b; simp add: vga_colour_def)
  moreover have "vga_colour a b AND 0x0F = colour_code a" for a b
    by (cases a; cases b; simp add: vga_colour_def)
  moreover have "colour_code a = colour_code b \<longleftrightarrow> a = b" for a b
    by (cases a; cases b; simp)
  ultimately show ?thesis by metis
qed

end
