(* ===== verification/Ports.thy ===== *)
theory Ports
  imports Prelude
begin

text \<open>
  The devices behind the I/O ports the kernel uses: two 8259 interrupt controllers, channel 0 of the
  8253 timer and the port that is written to pass time.  This is hardware, like the MMU of
  \<open>Machine\<close>; it follows the data sheets as far as the kernel's commands reach.  Everything
  else goes to a log of writes.
\<close>

section \<open>The 8259\<close>

text \<open>\<open>icw\<close> is the number of the initialisation word the chip expects next on its data port, 0
  when it is initialised; \<open>read_isr\<close> tells which register a read of the command port gives.\<close>

record i8259 =
  imr :: u8
  isr :: u8
  irr :: u8
  vector_base :: u8
  cascade :: u8
  pic_mode :: u8
  icw :: nat
  read_isr :: bool

text \<open>A command: an initialisation word (bit 4), the choice of the register to read (bit 3), or an
  end of interrupt, which clears the in-service bit of the highest priority, the lowest one set.\<close>

definition i8259_command :: "u8 \<Rightarrow> i8259 \<Rightarrow> i8259" where
  "i8259_command v p =
     (if bit v 4 then p\<lparr>imr := 0, icw := 2, read_isr := False\<rparr>
      else if bit v 3 then (if bit v 1 then p\<lparr>read_isr := bit v 0\<rparr> else p)
      else if bit v 5 \<and> \<not> bit v 6 then p\<lparr>isr := isr p AND (isr p - 1)\<rparr>
      else p)"

definition i8259_data :: "u8 \<Rightarrow> i8259 \<Rightarrow> i8259" where
  "i8259_data v p =
     (if icw p = 2 then p\<lparr>vector_base := v AND 0xF8, icw := 3\<rparr>
      else if icw p = 3 then p\<lparr>cascade := v, icw := 4\<rparr>
      else if icw p = 4 then p\<lparr>pic_mode := v, icw := 0\<rparr>
      else p\<lparr>imr := v\<rparr>)"

section \<open>Ports\<close>

record i8253 =
  pit_control :: u8
  pit_bytes :: "u8 list"

record io =
  pic1 :: i8259
  pic2 :: i8259
  pit0 :: i8253
  io_log :: "(u16 \<times> u8) list"

definition port_write :: "u16 \<Rightarrow> u8 \<Rightarrow> ('z io_scheme, unit) comp" where
  "port_write port v = modify (\<lambda>s.
     if port = 0x20 then s\<lparr>pic1 := i8259_command v (pic1 s)\<rparr>
     else if port = 0x21 then s\<lparr>pic1 := i8259_data v (pic1 s)\<rparr>
     else if port = 0xA0 then s\<lparr>pic2 := i8259_command v (pic2 s)\<rparr>
     else if port = 0xA1 then s\<lparr>pic2 := i8259_data v (pic2 s)\<rparr>
     else if port = 0x43 then s\<lparr>pit0 := \<lparr>pit_control = v, pit_bytes = []\<rparr>\<rparr>
     else if port = 0x40 then s\<lparr>pit0 := (pit0 s)\<lparr>pit_bytes := pit_bytes (pit0 s) @ [v]\<rparr>\<rparr>
     else s\<lparr>io_log := io_log s @ [(port, v)]\<rparr>)"

definition port_read :: "u16 \<Rightarrow> ('z io_scheme, u8) comp" where
  "port_read port = gets (\<lambda>s.
     if port = 0x20 then (if read_isr (pic1 s) then isr (pic1 s) else irr (pic1 s))
     else if port = 0x21 then imr (pic1 s)
     else if port = 0xA0 then (if read_isr (pic2 s) then isr (pic2 s) else irr (pic2 s))
     else if port = 0xA1 then imr (pic2 s)
     else 0xFF)"

lemmas port_defs = port_write_def port_read_def i8259_command_def i8259_data_def

end
