(* ===== verification/Pic.thy ===== *)
theory Pic
  imports Ports
begin

text \<open>
  \<open>kernel/src/interrupts/pic.rs\<close>: the driver of the two chained interrupt controllers, over the
  chips of \<open>Ports\<close>.  \<open>ChainedPics\<close> has no state of its own but its constants, so that its methods
  act on the ports alone; \<open>chk\<close> tells whether overflow checks are compiled in.
\<close>

section \<open>\<open>Pic\<close>\<close>

definition IO_WAIT_PORT :: u16 where "IO_WAIT_PORT = 0x80"
definition COMMAND_INIT :: u8 where "COMMAND_INIT = 0x11"
definition COMMAND_END_OF_INTERRUPT :: u8 where "COMMAND_END_OF_INTERRUPT = 0x20"
definition COMMAND_READ_IRR :: u8 where "COMMAND_READ_IRR = 0x0A"
definition COMMAND_READ_ISR :: u8 where "COMMAND_READ_ISR = 0x0B"

record pic =
  pic_offset :: u8
  command_port :: u16
  data_port :: u16

definition write_command :: "pic \<Rightarrow> u8 \<Rightarrow> ('z io_scheme, unit) comp" where
  "write_command p c = bind (port_write (command_port p) c) (\<lambda>_. port_write IO_WAIT_PORT 0)"

definition write_data :: "pic \<Rightarrow> u8 \<Rightarrow> ('z io_scheme, unit) comp" where
  "write_data p v = bind (port_write (data_port p) v) (\<lambda>_. port_write IO_WAIT_PORT 0)"

definition read_data :: "pic \<Rightarrow> ('z io_scheme, u8) comp" where
  "read_data p =
     bind (port_read (data_port p)) (\<lambda>v. bind (port_write IO_WAIT_PORT 0) (\<lambda>_. ret v))"

definition pic_initialize :: "pic \<Rightarrow> ('z io_scheme, unit) comp" where
  "pic_initialize p = bind (write_command p COMMAND_INIT) (\<lambda>_. write_data p (pic_offset p))"

definition end_of_interrupt :: "pic \<Rightarrow> ('z io_scheme, unit) comp" where
  "end_of_interrupt p = write_command p COMMAND_END_OF_INTERRUPT"

definition pic_enable_line :: "bool \<Rightarrow> pic \<Rightarrow> u8 \<Rightarrow> ('z io_scheme, unit) comp" where
  "pic_enable_line chk p irq =
     bind (read_data p) (\<lambda>m. bind (shl_ck chk 1 (unat irq)) (\<lambda>b. write_data p (m AND NOT b)))"

definition pic_disable_line :: "bool \<Rightarrow> pic \<Rightarrow> u8 \<Rightarrow> ('z io_scheme, unit) comp" where
  "pic_disable_line chk p irq =
     bind (read_data p) (\<lambda>m. bind (shl_ck chk 1 (unat irq)) (\<lambda>b. write_data p (m OR b)))"

definition pic_irr :: "pic \<Rightarrow> ('z io_scheme, u8) comp" where
  "pic_irr p = bind (write_command p COMMAND_READ_IRR) (\<lambda>_. port_read (command_port p))"

definition pic_isr :: "pic \<Rightarrow> ('z io_scheme, u8) comp" where
  "pic_isr p = bind (write_command p COMMAND_READ_ISR) (\<lambda>_. port_read (command_port p))"

definition is_spurious :: "bool \<Rightarrow> pic \<Rightarrow> u8 \<Rightarrow> ('z io_scheme, bool) comp" where
  "is_spurious chk p irq =
     bind (pic_isr p) (\<lambda>v. bind (shl_ck chk 1 (unat irq)) (\<lambda>b. ret (v AND b = 0)))"

section \<open>\<open>ChainedPics\<close>\<close>

definition master :: pic where
  "master = \<lparr>pic_offset = 0x20, command_port = 0x20, data_port = 0x21\<rparr>"

definition slave :: pic where
  "slave = \<lparr>pic_offset = 0x28, command_port = 0xA0, data_port = 0xA1\<rparr>"

definition init_and_remap :: "('z io_scheme, unit) comp" where
  "init_and_remap =
     bind (read_data master) (\<lambda>master_mask.
     bind (read_data slave) (\<lambda>slave_mask.
     bind (port_write IO_WAIT_PORT 0) (\<lambda>_.
     bind (pic_initialize master) (\<lambda>_.
     bind (pic_initialize slave) (\<lambda>_.
     bind (write_data master 4) (\<lambda>_.
     bind (write_data slave 2) (\<lambda>_.
     bind (write_data master 1) (\<lambda>_.
     bind (write_data slave 1) (\<lambda>_.
     bind (write_data master master_mask) (\<lambda>_.
     write_data slave slave_mask))))))))))"

definition pics_disable :: "('z io_scheme, unit) comp" where
  "pics_disable = bind (write_data master 0xFF) (\<lambda>_. write_data slave 0xFF)"

datatype IrqDestination = Master u8 | Slave u8

definition destination :: "u8 \<Rightarrow> ('z io_scheme, IrqDestination) comp" where
  "destination irq =
     (if irq < 8 then ret (Master (irq AND 7))
      else if irq < 16 then ret (Slave (irq AND 7))
      else stop_with (Panic ''irq out of bounds, expected range 0-15''))"

definition handle_interrupt :: "bool \<Rightarrow> u8 \<Rightarrow> ('z io_scheme, unit) comp \<Rightarrow> ('z io_scheme, unit) comp" where
  "handle_interrupt chk irq handler =
     bind (destination irq) (\<lambda>d. case d of
       Master _ \<Rightarrow>
         bind (is_spurious chk master irq) (\<lambda>spurious.
           if \<not> spurious then bind handler (\<lambda>_. end_of_interrupt master) else ret ())
     | Slave _ \<Rightarrow>
         bind (is_spurious chk slave irq) (\<lambda>spurious.
           if \<not> spurious then bind handler (\<lambda>_. end_of_interrupt slave)
           else end_of_interrupt master))"

definition enable_line :: "bool \<Rightarrow> u8 \<Rightarrow> ('z io_scheme, unit) comp" where
  "enable_line chk irq =
     bind (destination irq) (\<lambda>d. case d of
       Master local_irq \<Rightarrow> pic_enable_line chk master local_irq
     | Slave local_irq \<Rightarrow> pic_enable_line chk slave local_irq)"

definition disable_line :: "bool \<Rightarrow> u8 \<Rightarrow> ('z io_scheme, unit) comp" where
  "disable_line chk irq =
     bind (destination irq) (\<lambda>d. case d of
       Master local_irq \<Rightarrow> pic_disable_line chk master local_irq
     | Slave local_irq \<Rightarrow> pic_disable_line chk slave local_irq)"

section \<open>The chips after each operation\<close>

text \<open>Both chips are initialised.\<close>

definition pics_ready :: "'z io_scheme \<Rightarrow> bool" where
  "pics_ready s \<longleftrightarrow> icw (pic1 s) = 0 \<and> icw (pic2 s) = 0"

text \<open>The mask of the sixteen lines.\<close>

definition line_masked :: "'z io_scheme \<Rightarrow> u8 \<Rightarrow> bool" where
  "line_masked s irq = (if irq < 8 then bit (imr (pic1 s)) (unat irq) else bit (imr (pic2 s)) (unat irq - 8))"

lemmas pic_defs = write_command_def write_data_def read_data_def pic_initialize_def end_of_interrupt_def
  pic_enable_line_def pic_disable_line_def pic_isr_def is_spurious_def master_def slave_def
  IO_WAIT_PORT_def COMMAND_INIT_def COMMAND_END_OF_INTERRUPT_def COMMAND_READ_ISR_def

lemma destination_run:
  "irq < 8 \<Longrightarrow> destination irq s = Inr (Master (irq AND 7), s)"
  "\<not> irq < 8 \<Longrightarrow> irq < 16 \<Longrightarrow> destination irq s = Inr (Slave (irq AND 7), s)"
  "\<not> irq < 16 \<Longrightarrow> destination irq s = Inl (Panic ''irq out of bounds, expected range 0-15'')"
  by (auto simp: destination_def run_simps word_less_nat_alt)

lemma irq_enum:
  assumes "irq < (16 :: u8)"
  shows "irq \<in> {0, 1, 2, 3, 4, 5, 6, 7} \<or> irq \<in> {8, 9, 10, 11, 12, 13, 14, 15}"
proof -
  have "unat irq < 16" using assms by (simp add: word_less_nat_alt)
  then have "unat irq \<in> {0, 1, 2, 3, 4, 5, 6, 7, 8, 9, 10, 11, 12, 13, 14, 15}"
    by (simp add: less_Suc_eq numeral_eq_Suc)
  then have "irq \<in> of_nat ` {0, 1, 2, 3, 4, 5, 6, 7, 8, 9, 10, 11, 12, 13, 14, 15}"
    by (intro image_eqI[of irq of_nat "unat irq"]) simp_all
  then show ?thesis by auto
qed

lemma is_spurious_master_run:
  assumes "irq < 8"
  shows "\<exists>s'. is_spurious chk master irq s = Inr (\<not> bit (isr (pic1 s)) (unat irq), s') \<and>
    pic1 s' = (pic1 s)\<lparr>read_isr := True\<rparr> \<and> pic2 s' = pic2 s \<and> io.more s' = io.more s"
proof -
  have "unat irq < 8" using assms by (simp add: word_less_nat_alt)
  moreover have "v AND push_bit n 1 = 0 \<longleftrightarrow> \<not> bit v n" for v :: u8 and n
    by (simp add: push_bit_eq_mult and_exp_eq_0_iff_not_bit)
  ultimately show ?thesis by (simp add: pic_defs port_defs run_simps)
qed

lemma end_of_interrupt_master_run:
  "\<exists>s'. end_of_interrupt master s = Inr ((), s') \<and>
    pic1 s' = (pic1 s)\<lparr>isr := isr (pic1 s) AND (isr (pic1 s) - 1)\<rparr> \<and> pic2 s' = pic2 s \<and>
    io.more s' = io.more s"
  by (simp add: pic_defs port_defs run_simps)

lemma local_irq:
  assumes "irq < (16 :: u8)"
  shows "unat (irq AND 7) = (if irq < 8 then unat irq else unat irq - 8)"
  using irq_enum[OF assms] by auto

lemma enable_line_run:
  assumes "pics_ready s" and "irq < 16"
  shows "\<exists>s'. enable_line chk irq s = Inr ((), s') \<and> pics_ready s' \<and>
    imr (pic1 s') = (if irq < 8 then imr (pic1 s) AND NOT (push_bit (unat irq) 1) else imr (pic1 s)) \<and>
    imr (pic2 s') = (if irq < 8 then imr (pic2 s) else imr (pic2 s) AND NOT (push_bit (unat irq - 8) 1))"
proof -
  have "unat (irq AND 7) < 8" using assms(2) local_irq[OF assms(2)] by (auto simp: word_less_nat_alt)
  then show ?thesis
    using assms local_irq[OF assms(2)]
    by (cases "irq < 8") (simp_all add: enable_line_def destination_run pics_ready_def pic_defs port_defs run_simps)
qed

lemma disable_line_run:
  assumes "pics_ready s" and "irq < 16"
  shows "\<exists>s'. disable_line chk irq s = Inr ((), s') \<and> pics_ready s' \<and>
    imr (pic1 s') = (if irq < 8 then imr (pic1 s) OR push_bit (unat irq) 1 else imr (pic1 s)) \<and>
    imr (pic2 s') = (if irq < 8 then imr (pic2 s) else imr (pic2 s) OR push_bit (unat irq - 8) 1)"
proof -
  have "unat (irq AND 7) < 8" using assms(2) local_irq[OF assms(2)] by (auto simp: word_less_nat_alt)
  then show ?thesis
    using assms local_irq[OF assms(2)]
    by (cases "irq < 8") (simp_all add: disable_line_def destination_run pics_ready_def pic_defs port_defs run_simps)
qed

section \<open>Properties\<close>

text \<open>\<open>init_and_remap\<close> leaves both controllers initialised, with the vectors from 0x20 and
  0x28, the slave on line 2 of the master, in 8086 mode, and with the line masks they had.\<close>

lemma init_and_remap_correct:
  assumes "pics_ready s"
  shows "\<exists>s'. init_and_remap s = Inr ((), s') \<and> pics_ready s' \<and>
    vector_base (pic1 s') = 0x20 \<and> vector_base (pic2 s') = 0x28 \<and>
    cascade (pic1 s') = 4 \<and> cascade (pic2 s') = 2 \<and> pic_mode (pic1 s') = 1 \<and> pic_mode (pic2 s') = 1 \<and>
    imr (pic1 s') = imr (pic1 s) \<and> imr (pic2 s') = imr (pic2 s)"
  using assms by (simp add: pics_ready_def init_and_remap_def pic_defs port_defs run_simps)

definition sample_pic :: i8259 where
  "sample_pic = \<lparr>imr = 0xB8, isr = 1, irr = 0, vector_base = 8, cascade = 0, pic_mode = 0, icw = 0,
     read_isr = False\<rparr>"

definition sample_io :: io where
  "sample_io = \<lparr>pic1 = sample_pic, pic2 = sample_pic, pit0 = \<lparr>pit_control = 0, pit_bytes = []\<rparr>, io_log = []\<rparr>"

text \<open>\<open>enable_line\<close> and \<open>disable_line\<close> clear and set the mask of exactly the given line of the
  sixteen.\<close>

lemma enable_disable_line_exact:
  assumes "pics_ready s" and "irq < 16" and "other < 16"
  shows "(\<exists>s'. enable_line chk irq s = Inr ((), s') \<and> pics_ready s' \<and>
      line_masked s' other = (line_masked s other \<and> other \<noteq> irq)) \<and>
    (\<exists>s'. disable_line chk irq s = Inr ((), s') \<and> pics_ready s' \<and>
      line_masked s' other = (line_masked s other \<or> other = irq))"
proof -
  have n: "unat irq < 16" "unat other < 16" using assms(2,3) by (simp_all add: word_less_nat_alt)
  have b: "bit (w AND NOT (push_bit i 1)) k = (bit w k \<and> k \<noteq> i)" "bit (w OR push_bit i 1) k = (bit w k \<or> k = i)"
    if "k < 8" for w :: u8 and i k using that by (auto simp: bit_simps)
  have eq: "other = irq \<longleftrightarrow> unat other = unat irq" by (simp add: word_unat_eq_iff)
  have lt: "x < 8 \<longleftrightarrow> unat x < 8" for x :: u8 by (simp add: word_less_nat_alt)
  obtain s1 where s1: "enable_line chk irq s = Inr ((), s1)" "pics_ready s1"
    "imr (pic1 s1) = (if irq < 8 then imr (pic1 s) AND NOT (push_bit (unat irq) 1) else imr (pic1 s))"
    "imr (pic2 s1) = (if irq < 8 then imr (pic2 s) else imr (pic2 s) AND NOT (push_bit (unat irq - 8) 1))"
    using enable_line_run[OF assms(1,2), of chk] by blast
  obtain s2 where s2: "disable_line chk irq s = Inr ((), s2)" "pics_ready s2"
    "imr (pic1 s2) = (if irq < 8 then imr (pic1 s) OR push_bit (unat irq) 1 else imr (pic1 s))"
    "imr (pic2 s2) = (if irq < 8 then imr (pic2 s) else imr (pic2 s) OR push_bit (unat irq - 8) 1)"
    using disable_line_run[OF assms(1,2), of chk] by blast
  have k: "unat other - 8 < 8" using n by simp
  have neq: "unat other - 8 = unat irq - 8 \<longleftrightarrow> other = irq" if "\<not> unat irq < 8" "\<not> unat other < 8"
    using that eq by auto
  have "line_masked s1 other = (line_masked s other \<and> other \<noteq> irq)"
    using k neq unfolding line_masked_def s1(3,4) lt
    by (cases "unat irq < 8"; cases "unat other < 8") (auto simp only: if_True if_False b eq)
  moreover have "line_masked s2 other = (line_masked s other \<or> other = irq)"
    using k neq unfolding line_masked_def s2(3,4) lt
    by (cases "unat irq < 8"; cases "unat other < 8") (auto simp only: if_True if_False b eq)
  ultimately show ?thesis using s1(1,2) s2(1,2) by blast
qed



text \<open>C34: an interrupt of the slave is never handled completely.  With overflow checks the kernel
  panics, because the test for a spurious interrupt shifts a byte by the number of the line, which is
  at least 8; without them the handler runs, but the end of the interrupt is signalled to the
  slave alone, so that line 2 of the master, through which the interrupt came, stays in
  service.\<close>

theorem slave_interrupt_incomplete:
  assumes "\<not> irq < 8" and "irq < 16"
    and "\<forall>s. \<exists>s'. handler s = Inr ((), s') \<and> pic1 s' = pic1 s \<and> pic2 s' = pic2 s"
    and "bit (isr (pic2 s)) (unat irq - 8)"
  shows "handle_interrupt True irq handler s = Inl Overflow \<and>
    (\<exists>s'. handle_interrupt False irq handler s = Inr ((), s') \<and> isr (pic1 s') = isr (pic1 s) \<and>
      isr (pic2 s') = isr (pic2 s) AND (isr (pic2 s) - 1))"
proof -
  have u: "8 \<le> unat irq" "unat irq < 16"
    using assms(1,2) by (simp_all add: word_less_nat_alt not_less)
  then have m: "unat irq mod 8 = unat irq - 8" by (simp add: mod_if)
  have b: "isr (pic2 s) AND push_bit (unat irq mod 8) 1 \<noteq> 0"
    using assms(4) unfolding m by (simp add: push_bit_eq_mult and_exp_eq_0_iff_not_bit)
  let ?s1 = "s\<lparr>pic2 := (pic2 s)\<lparr>read_isr := True\<rparr>, io_log := io_log s @ [(0x80, 0)]\<rparr>"
  have "handle_interrupt True irq handler s = Inl Overflow"
    using u assms(1,2)
    by (simp add: handle_interrupt_def destination_run run_simps pic_defs port_defs shl_ck_def)
  moreover have "is_spurious False slave irq s = Inr (False, ?s1)"
    using b by (simp add: run_simps pic_defs port_defs shl_ck_def)
  moreover obtain s2 where "handler ?s1 = Inr ((), s2)" "pic1 s2 = pic1 ?s1" "pic2 s2 = pic2 ?s1"
    using assms(3) by blast
  ultimately show ?thesis
    using assms(1,2)
    by (simp add: handle_interrupt_def destination_run run_simps end_of_interrupt_def write_command_def
        port_defs slave_def COMMAND_END_OF_INTERRUPT_def IO_WAIT_PORT_def)
qed

theorem slave_interrupt_incomplete_witness:
  "handle_interrupt True 8 (ret ()) sample_io = Inl Overflow"
proof -
  have "\<forall>s :: io. \<exists>s'. ret () s = Inr ((), s') \<and> pic1 s' = pic1 s \<and> pic2 s' = pic2 s" by (simp add: ret_def)
  from slave_interrupt_incomplete[of 8 "ret ()" sample_io, OF _ _ this] show ?thesis
    by (simp add: sample_io_def sample_pic_def)
qed

end
