(* ===== verification/Interrupts.thy ===== *)
theory Interrupts
  imports Pic
begin

text \<open>
  \<open>kernel/src/interrupts.rs\<close> and \<open>kernel/src/interrupts/exceptions.rs\<close>: the interrupt descriptor
  table, the listeners of the sixteen lines and the exception handlers.  A listener is a \<open>fn()\<close>;
  the type \<open>'f\<close> stands for these functions and the argument \<open>run\<close> tells what calling
  one does.  The table itself is a map from vectors to handlers and stack indices.
\<close>

section \<open>Exception handlers\<close>

text \<open>The handlers, with the messages they panic with (the stack frame, which follows the message, is
  not modelled).\<close>

datatype exception_handler =
    divide_by_zero | debug | nmi | breakpoint | overflow | out_of_bounds | invalid_opcode
  | device_not_available | double_fault | invalid_tss | segment_not_present | stack_segment_fault
  | general_protection_fault | page_fault | x87_floating_point | alignment_check | machine_check
  | simd_floating_point | virtualization | security_exception

primrec exception_message :: "exception_handler \<Rightarrow> string" where
  "exception_message divide_by_zero = ''cpuex: divide by zero''"
| "exception_message debug = ''cpuex: debug''"
| "exception_message nmi = ''cpuex: nmi''"
| "exception_message breakpoint = ''cpuex: breakpoint''"
| "exception_message overflow = ''cpuex: overflow''"
| "exception_message out_of_bounds = ''cpuex: out of bounds''"
| "exception_message invalid_opcode = ''cpuex: invalid opcode ''"
| "exception_message device_not_available = ''cpuex: device not available''"
| "exception_message double_fault = ''cpuex: double fault''"
| "exception_message invalid_tss = ''cpuex: invalid tss''"
| "exception_message segment_not_present = ''cpuex: segment not present''"
| "exception_message stack_segment_fault = ''cpuex: stack segment fault''"
| "exception_message general_protection_fault = ''cpuex: general protection fault''"
| "exception_message page_fault = ''cpuex: page fault''"
| "exception_message x87_floating_point = ''cpuex: x87 floating point''"
| "exception_message alignment_check = ''cpuex: alignment check''"
| "exception_message machine_check = ''cpuex: machine check''"
| "exception_message simd_floating_point = ''cpuex: simd floating point''"
| "exception_message virtualization = ''cpuex: virtualization''"
| "exception_message security_exception = ''cpuex: security exception''"

section \<open>Listeners\<close>

record 'f irq_state = io +
  listeners :: "'f list list"
  interrupt_flag :: bool

datatype Irq = Pit | Ps2Keyboard | Ps2Mouse

primrec irq_into :: "Irq \<Rightarrow> u8" where
  "irq_into Pit = 0"
| "irq_into Ps2Keyboard = 1"
| "irq_into Ps2Mouse = 12"

definition listen :: "u8 \<Rightarrow> 'f \<Rightarrow> (('f, 'z) irq_state_scheme, unit) comp" where
  "listen irq f =
     bind (gets listeners) (\<lambda>ls.
       if unat irq < length ls
       then modify (\<lambda>s. s\<lparr>listeners := ls[unat irq := ls ! unat irq @ [f]]\<rparr>)
       else stop_with Out_of_bounds)"

definition dispatch_irq :: "('f \<Rightarrow> (('f, 'z) irq_state_scheme, unit) comp) \<Rightarrow> u8
    \<Rightarrow> (('f, 'z) irq_state_scheme, unit) comp" where
  "dispatch_irq run irq =
     bind (gets listeners) (\<lambda>ls.
       if unat irq < length ls then for_each (ls ! unat irq) run else stop_with Out_of_bounds)"

definition interrupts_init :: "(('f, 'z) irq_state_scheme, unit) comp" where
  "interrupts_init = init_and_remap"

definition interrupts_enable :: "(('f, 'z) irq_state_scheme, unit) comp" where
  "interrupts_enable = modify (\<lambda>s. s\<lparr>interrupt_flag := True\<rparr>)"

definition interrupts_disable :: "(('f, 'z) irq_state_scheme, unit) comp" where
  "interrupts_disable = modify (\<lambda>s. s\<lparr>interrupt_flag := False\<rparr>)"

definition enable_irq :: "bool \<Rightarrow> Irq \<Rightarrow> (('f, 'z) irq_state_scheme, unit) comp" where
  "enable_irq chk irq = enable_line chk (irq_into irq)"

definition disable_irq :: "bool \<Rightarrow> Irq \<Rightarrow> (('f, 'z) irq_state_scheme, unit) comp" where
  "disable_irq chk irq = disable_line chk (irq_into irq)"

text \<open>The handler that the macro \<open>init_irq_handlers\<close> makes for a line.\<close>

definition handle_irq :: "bool \<Rightarrow> ('f \<Rightarrow> (('f, 'z) irq_state_scheme, unit) comp) \<Rightarrow> u8
    \<Rightarrow> (('f, 'z) irq_state_scheme, unit) comp" where
  "handle_irq chk run irq = handle_interrupt chk irq (dispatch_irq run irq)"

section \<open>The interrupt descriptor table\<close>

definition DOUBLE_FAULT_IST_INDEX :: u16 where "DOUBLE_FAULT_IST_INDEX = 0"
definition PANICKING_EXCEPTION_IST_INDEX :: u16 where "PANICKING_EXCEPTION_IST_INDEX = 1"
definition IRQ_IST_INDEX :: u16 where "IRQ_IST_INDEX = 2"
definition NMI_IST_INDEX :: u16 where "NMI_IST_INDEX = 3"

datatype idt_handler = Exception exception_handler | Irq_handler u8

record idt_entry =
  idt_handler :: idt_handler
  stack_index :: "u16 option"

type_synonym idt = "nat \<Rightarrow> idt_entry option"

text \<open>\<open>idt.<field>.set_handler_fn(h).set_stack_index(i)\<close>; the vectors of the fields are those of the
  architecture.\<close>

definition set_exception :: "nat \<Rightarrow> exception_handler \<Rightarrow> u16 \<Rightarrow> idt \<Rightarrow> idt" where
  "set_exception v h i t = t(v \<mapsto> \<lparr>idt_handler = Exception h, stack_index = Some i\<rparr>)"

definition init_irq_handlers :: "u8 list \<Rightarrow> idt \<Rightarrow> idt" where
  "init_irq_handlers irqs t = fold (\<lambda>irq t. t(unat irq + 32 \<mapsto>
     \<lparr>idt_handler = Irq_handler irq, stack_index = None\<rparr>)) irqs t"

definition init_interrupt_handlers :: "idt \<Rightarrow> idt" where
  "init_interrupt_handlers t0 =
     (let t1 = set_exception 0 divide_by_zero PANICKING_EXCEPTION_IST_INDEX t0;
          t2 = set_exception 1 debug PANICKING_EXCEPTION_IST_INDEX t1;
          t3 = set_exception 2 nmi NMI_IST_INDEX t2;
          t4 = set_exception 3 breakpoint PANICKING_EXCEPTION_IST_INDEX t3;
          t5 = set_exception 4 overflow PANICKING_EXCEPTION_IST_INDEX t4;
          t6 = set_exception 5 out_of_bounds PANICKING_EXCEPTION_IST_INDEX t5;
          t7 = set_exception 6 invalid_opcode PANICKING_EXCEPTION_IST_INDEX t6;
          t8 = set_exception 7 device_not_available PANICKING_EXCEPTION_IST_INDEX t7;
          t9 = set_exception 8 double_fault DOUBLE_FAULT_IST_INDEX t8;
          t10 = set_exception 10 invalid_tss PANICKING_EXCEPTION_IST_INDEX t9;
          t11 = set_exception 11 segment_not_present PANICKING_EXCEPTION_IST_INDEX t10;
          t12 = set_exception 12 stack_segment_fault PANICKING_EXCEPTION_IST_INDEX t11;
          t13 = set_exception 13 general_protection_fault PANICKING_EXCEPTION_IST_INDEX t12;
          t14 = set_exception 14 page_fault PANICKING_EXCEPTION_IST_INDEX t13;
          t15 = set_exception 16 x87_floating_point PANICKING_EXCEPTION_IST_INDEX t14;
          t16 = set_exception 17 alignment_check PANICKING_EXCEPTION_IST_INDEX t15;
          t17 = set_exception 18 machine_check PANICKING_EXCEPTION_IST_INDEX t16;
          t18 = set_exception 19 simd_floating_point PANICKING_EXCEPTION_IST_INDEX t17;
          t19 = set_exception 20 virtualization PANICKING_EXCEPTION_IST_INDEX t18;
          t20 = set_exception 30 security_exception PANICKING_EXCEPTION_IST_INDEX t19
      in init_irq_handlers [0, 1, 2, 3, 4, 5, 6, 7, 8, 9, 10, 11, 12, 13, 14, 15] t20)"

definition IDT :: idt where
  "IDT = init_interrupt_handlers (\<lambda>_. None)"

text \<open>What the processor does for a vector: it runs the handler of the table; a gate that is not
  present is itself the exception \<open>segment_not_present\<close>.\<close>

definition run_vector :: "bool \<Rightarrow> ('f \<Rightarrow> (('f, 'z) irq_state_scheme, unit) comp) \<Rightarrow> nat
    \<Rightarrow> (('f, 'z) irq_state_scheme, unit) comp" where
  "run_vector chk run v = (case IDT v of
       None \<Rightarrow> stop_with (Panic (exception_message segment_not_present))
     | Some e \<Rightarrow> (case idt_handler e of
         Exception h \<Rightarrow> stop_with (Panic (exception_message h))
       | Irq_handler irq \<Rightarrow> handle_irq chk run irq))"

text \<open>The vector at which the controllers raise a line.\<close>

definition line_vector :: "'z io_scheme \<Rightarrow> u8 \<Rightarrow> nat" where
  "line_vector s irq =
     (if irq < 8 then unat (vector_base (pic1 s)) + unat irq
      else unat (vector_base (pic2 s)) + (unat irq - 8))"

lemma IDT_irq:
  assumes "irq < 16"
  shows "IDT (unat irq + 32) = Some \<lparr>idt_handler = Irq_handler irq, stack_index = None\<rparr>"
  using irq_enum[OF assms]
  by (auto simp: IDT_def init_interrupt_handlers_def Let_def init_irq_handlers_def)

section \<open>Properties\<close>

text \<open>C29: once the controllers are remapped, an interrupt on any of the sixteen lines arrives at the
  handler of the same line, and at none of the vectors of the processor's exceptions.\<close>

theorem irq_reaches_its_handler:
  assumes "pics_ready s" and "irq < 16"
  shows "\<exists>s'. interrupts_init s = Inr ((), s') \<and> 32 \<le> line_vector s' irq \<and>
    run_vector chk run (line_vector s' irq) = handle_irq chk run irq"
proof -
  obtain s' where s': "init_and_remap s = Inr ((), s')" "vector_base (pic1 s') = 0x20" "vector_base (pic2 s') = 0x28"
    using assms(1) by (simp add: pics_ready_def init_and_remap_def pic_defs port_defs run_simps)
  have "line_vector s' irq = unat irq + 32"
    using s'(2,3) by (simp add: line_vector_def word_less_nat_alt)
  with s'(1) IDT_irq[OF assms(2)] show ?thesis by (simp add: interrupts_init_def run_vector_def)
qed

definition sample_irq_state :: "unit irq_state" where
  "sample_irq_state = io.extend sample_io \<lparr>listeners = replicate 16 [], interrupt_flag = False\<rparr>"

theorem irq_reaches_its_handler_witness:
  "\<exists>s'. interrupts_init sample_irq_state = Inr ((), s') \<and>
    run_vector True (\<lambda>_. ret ()) (line_vector s' 12) = handle_irq True (\<lambda>_. ret ()) 12"
proof -
  have "pics_ready sample_irq_state"
    by (simp add: pics_ready_def sample_irq_state_def sample_io_def sample_pic_def io.extend_def)
  from irq_reaches_its_handler[OF this, of 12 True "\<lambda>_. ret ()"] show ?thesis by auto
qed



end
