(* ===== verification/Pit.thy ===== *)
theory Pit
  imports Interrupts
begin

text \<open>
  \<open>kernel/src/pit.rs\<close>: the timer.  \<open>COUNTER\<close> is a field added to the state of the interrupts;
  the only listener of the kernel is \<open>tick\<close>.  In \<open>sleep\<close> the processor halts until an
  interrupt; how many timer ticks have been handled by the time it goes on is the argument
  \<open>ticks\<close>, one number per \<open>hlt\<close>, and the loop, which may run forever, is a partial function.
\<close>

section \<open>Definitions\<close>

record 'f pit_state = "'f irq_state" +
  counter :: u64

definition BASE_FREQUENCY_HZ :: u64 where "BASE_FREQUENCY_HZ = 1193182"
definition FREQUENCY_HZ :: u64 where "FREQUENCY_HZ = 1000"

definition compute_reload :: "u64 \<Rightarrow> u16" where
  "compute_reload frequency = ucast (BASE_FREQUENCY_HZ div frequency)"

definition RELOAD_VALUE :: u16 where "RELOAD_VALUE = compute_reload FREQUENCY_HZ"

text \<open>\<open>fetch_add\<close> wraps around.\<close>

definition tick :: "(('f, 'z) pit_state_scheme, unit) comp" where
  "tick = modify (\<lambda>s. s\<lparr>counter := counter s + 1\<rparr>)"

definition time_ms :: "(('f, 'z) pit_state_scheme, u64) comp" where
  "time_ms = gets counter"

partial_function (option) sleep_loop :: "(nat \<Rightarrow> u64) \<Rightarrow> nat \<Rightarrow> u64 \<Rightarrow> u64 \<Rightarrow> (nat \<times> u64) option" where
  "sleep_loop ticks k c wake_time =
     (if c < wake_time then sleep_loop ticks (Suc k) (c + ticks k) wake_time else Some (k, c))"

text \<open>\<^const>\<open>None\<close> when the processor never wakes up often enough.\<close>

definition sleep :: "bool \<Rightarrow> (nat \<Rightarrow> u64) \<Rightarrow> u64 \<Rightarrow> (('f, 'z) pit_state_scheme, (nat \<times> u64) option) comp" where
  "sleep chk ticks ms =
     bind (gets counter) (\<lambda>c.
     bind (add_ck chk c ms) (\<lambda>wake_time.
     let r = sleep_loop ticks 0 c wake_time in
     bind (modify (\<lambda>s. case r of None \<Rightarrow> s | Some (_, c') \<Rightarrow> s\<lparr>counter := c'\<rparr>)) (\<lambda>_. ret r)))"

datatype OperatingMode =
    InterruptOnTerminalCount | HardwareReTriggerableOneShot | RateGenerator
  | SquareWaveGenerator | SoftwareTriggeredStrobe | HardwareTriggeredStrobe

primrec operating_mode_code :: "OperatingMode \<Rightarrow> u8" where
  "operating_mode_code InterruptOnTerminalCount = 0"
| "operating_mode_code HardwareReTriggerableOneShot = 1"
| "operating_mode_code RateGenerator = 2"
| "operating_mode_code SquareWaveGenerator = 3"
| "operating_mode_code SoftwareTriggeredStrobe = 4"
| "operating_mode_code HardwareTriggeredStrobe = 5"

datatype AccessMode = LobyteOnly | HibyteOnly | LobyteHibyte

primrec access_mode_code :: "AccessMode \<Rightarrow> u8" where
  "access_mode_code LobyteOnly = 1"
| "access_mode_code HibyteOnly = 2"
| "access_mode_code LobyteHibyte = 3"

definition pit_configure :: "u8 \<Rightarrow> OperatingMode \<Rightarrow> AccessMode \<Rightarrow> ('z io_scheme, unit) comp" where
  "pit_configure channel operating_mode access_mode =
     port_write 0x43 (push_bit 6 channel OR push_bit 4 (access_mode_code access_mode)
       OR push_bit 1 (operating_mode_code operating_mode))"

definition set_reload_value :: "u16 \<Rightarrow> ('z io_scheme, unit) comp" where
  "set_reload_value reload_value =
     (let lower = ucast (reload_value AND 0xFF); upper = ucast (drop_bit 8 reload_value AND 0xFF) in
      bind (port_write 0x40 lower) (\<lambda>_. port_write 0x40 upper))"

datatype listener = Tick

primrec run_listener :: "listener \<Rightarrow> ((listener, 'z) pit_state_scheme, unit) comp" where
  "run_listener Tick = tick"

definition pit_initialize :: "((listener, 'z) pit_state_scheme, unit) comp" where
  "pit_initialize =
     bind (pit_configure 0 RateGenerator LobyteHibyte) (\<lambda>_.
     bind (modify (\<lambda>s. s\<lparr>counter := 0\<rparr>)) (\<lambda>_.
     bind (listen (irq_into Pit) Tick) (\<lambda>_.
     set_reload_value RELOAD_VALUE)))"

text \<open>What the chip counts down from, once both bytes have arrived.\<close>

definition pit_reload :: "i8253 \<Rightarrow> u16 option" where
  "pit_reload p = (case pit_bytes p of [lo, hi] \<Rightarrow> Some (ucast lo OR push_bit 8 (ucast hi)) | _ \<Rightarrow> None)"

lemma reload_bytes: "(ucast (ucast (w AND 0xFF) :: u8) :: u16) OR push_bit 8 (ucast (ucast (drop_bit 8 w AND 0xFF) :: u8)) = w"
proof (rule bit_word_eqI)
  fix n assume n: "n < LENGTH(16)"
  have m: "bit (0xFF :: u16) k = (k < 8)" for k
    using bit_mask_iff[of 8 k, where 'a = u16] by (auto simp: mask_eq_exp_minus_1 dest: bit_imp_le_length)
  show "bit ((ucast (ucast (w AND 0xFF) :: u8) :: u16) OR push_bit 8 (ucast (ucast (drop_bit 8 w AND 0xFF) :: u8))) n = bit w n"
    using n by (cases "n < 8") (auto simp: bit_simps m simp del: bit_numeral_word_iff)
qed

text \<open>The loop of \<open>sleep\<close> goes on until the next tick.\<close>

lemma sleep_loop_tick:
  assumes "\<forall>k. ticks k = 0 \<or> ticks k = 1" and "ticks j = 1" and "k \<le> j" and "c < wake_time"
  shows "\<exists>k'. sleep_loop ticks k c wake_time = sleep_loop ticks k' (c + 1) wake_time"
  using assms(3)
proof (induction "j - k" arbitrary: k)
  case 0
  then have "k = j" by simp
  then have "sleep_loop ticks k c wake_time = sleep_loop ticks (Suc k) (c + 1) wake_time"
    using assms(2,4) by (subst sleep_loop.simps) simp
  then show ?case by blast
next
  case (Suc n)
  then have "\<exists>k'. sleep_loop ticks (Suc k) c wake_time = sleep_loop ticks k' (c + 1) wake_time"
    by (intro Suc.hyps(1)) auto
  moreover have "sleep_loop ticks k c wake_time = sleep_loop ticks (Suc k) (c + ticks k) wake_time"
    using assms(4) by (subst sleep_loop.simps) simp
  moreover have "ticks k = 0 \<or> ticks k = 1" using assms(1) by blast
  ultimately show ?case by auto
qed

lemma sleep_loop_returns:
  assumes "\<forall>k. ticks k = 0 \<or> ticks k = 1" and "\<forall>k. \<exists>j \<ge> k. ticks j = 1"
    and "unat c + d < 2 ^ 64"
  shows "\<exists>k'. sleep_loop ticks k c (c + of_nat d) = Some (k', c + of_nat d)"
  using assms(3)
proof (induction d arbitrary: k c)
  case 0
  then show ?case by (subst sleep_loop.simps) simp
next
  case (Suc d)
  have "unat (c + of_nat (Suc d)) = unat c + Suc d"
    using Suc.prems by (simp add: unat_word_ariths unat_of_nat take_bit_nat_eq_self del: of_nat_Suc)
  then have lt: "c < c + of_nat (Suc d)" by (simp add: word_less_nat_alt)
  have d: "c + of_nat (Suc d) = c + 1 + of_nat d" by simp
  obtain j where j: "k \<le> j" "ticks j = 1" using assms(2) by blast
  obtain k' where "sleep_loop ticks k c (c + of_nat (Suc d)) = sleep_loop ticks k' (c + 1) (c + of_nat (Suc d))"
    using sleep_loop_tick[OF assms(1) j(2,1) lt] by blast
  moreover have "unat (c + 1) + d < 2 ^ 64" using Suc.prems by (simp add: unat_word_ariths)
  ultimately show ?case using Suc.IH[of "c + 1" k'] unfolding d by simp
qed

section \<open>Properties\<close>

text \<open>\<open>initialize\<close> programs channel 0 as a rate generator with the reload value that divides
  the base frequency to 1000 Hz, starts the count at 0 and registers \<open>tick\<close> for the timer's line, after
  the listeners that were there.\<close>

lemma pit_initialize_correct:
  assumes "length (listeners s) = 16"
  shows "\<exists>s'. pit_initialize s = Inr ((), s') \<and> counter s' = 0 \<and> pit_control (pit0 s') = 0x34 \<and>
    pit_reload (pit0 s') = Some 1193 \<and> BASE_FREQUENCY_HZ div 1193 = FREQUENCY_HZ \<and>
    listeners s' = (listeners s)[0 := listeners s ! 0 @ [Tick]]"
proof -
  obtain l ls where "listeners s = l # ls" using assms by (cases "listeners s") auto
  then show ?thesis
    by (simp add: pit_initialize_def pit_configure_def set_reload_value_def listen_def run_simps port_write_def
        Let_def pit_reload_def RELOAD_VALUE_def compute_reload_def BASE_FREQUENCY_HZ_def FREQUENCY_HZ_def
        bind_assoc)
qed

definition sample_pit_state :: "listener pit_state" where
  "sample_pit_state = \<lparr>pic1 = sample_pic, pic2 = sample_pic, pit0 = \<lparr>pit_control = 0, pit_bytes = []\<rparr>,
     io_log = [], listeners = replicate 16 [], interrupt_flag = False, counter = 7\<rparr>"

text \<open>The two bytes that \<open>set_reload_value\<close> sends are put together by the chip to the value that
  was given.\<close>

lemma set_reload_value_roundtrip:
  assumes "pit_bytes (pit0 s) = []"
  shows "\<exists>s'. set_reload_value v s = Inr ((), s') \<and> pit_reload (pit0 s') = Some v"
  using assms reload_bytes[of v]
  by (simp add: set_reload_value_def run_simps port_write_def Let_def pit_reload_def)

text \<open>C28: a timer interrupt that is in service advances the clock by one and is signalled as ended; it
  goes from the controller through the table and the listeners to \<open>tick\<close>.\<close>

theorem timer_interrupt_ticks:
  assumes "listeners s = [Tick] # ls" and "bit (isr (pic1 s)) 0"
  shows "\<exists>s'. run_vector chk run_listener 32 s = Inr ((), s') \<and> counter s' = counter s + 1 \<and>
    isr (pic1 s') = isr (pic1 s) AND (isr (pic1 s) - 1) \<and> pic2 s' = pic2 s"
proof -
  have "run_vector chk run_listener 32 s = handle_irq chk run_listener 0 s"
    using IDT_irq[of 0] by (simp add: run_vector_def)
  moreover have "isr (pic1 s) AND 1 \<noteq> 0" using assms(2) by (simp add: bit_0 and_one_eq odd_iff_mod_2_eq_one)
  ultimately show ?thesis using assms(1)
    by (simp add: handle_irq_def handle_interrupt_def destination_run dispatch_irq_def tick_def pic_defs
        port_defs run_simps)
qed

theorem timer_interrupt_ticks_witness:
  "\<exists>s'. run_vector True run_listener 32 (sample_pit_state\<lparr>listeners := [[Tick]]\<rparr>) = Inr ((), s') \<and> counter s' = 8"
  using timer_interrupt_ticks[of "sample_pit_state\<lparr>listeners := [[Tick]]\<rparr>" "[]" True]
  by (auto simp: sample_pit_state_def sample_pic_def)

text \<open>C27: \<open>sleep\<close> returns if the timer keeps ticking, however many other interrupts wake the processor in
  between: the loop ends, at the first moment at which the given number of milliseconds has
  passed, so long as the clock does not reach the end of its range.\<close>

theorem sleep_returns:
  assumes "\<forall>k. ticks k = 0 \<or> ticks k = 1" and "\<forall>k. \<exists>j \<ge> k. ticks j = 1"
    and "unat (counter s) + unat ms < 2 ^ 64"
  shows "\<exists>k s'. sleep chk ticks ms s = Inr (Some (k, counter s + ms), s') \<and> counter s' = counter s + ms"
proof -
  obtain k where "sleep_loop ticks 0 (counter s) (counter s + ms) = Some (k, counter s + ms)"
    using sleep_loop_returns[OF assms(1,2), of "counter s" "unat ms" 0] assms(3) by auto
  then show ?thesis using assms(3) by (simp add: sleep_def run_simps Let_def)
qed

theorem sleep_returns_witness:
  "\<exists>k s'. sleep True (\<lambda>k. of_nat (k mod 2)) 5 sample_pit_state = Inr (Some (k, 12), s')"
proof -
  have "\<forall>k. (of_nat (k mod 2) :: u64) = 0 \<or> (of_nat (k mod 2) :: u64) = 1"
  proof
    fix k :: nat
    have "k mod 2 = 0 \<or> k mod 2 = 1" by auto
    then show "(of_nat (k mod 2) :: u64) = 0 \<or> (of_nat (k mod 2) :: u64) = 1" by auto
  qed
  moreover have "\<forall>k. \<exists>j \<ge> k. (of_nat (j mod 2) :: u64) = 1"
  proof
    fix k :: nat
    show "\<exists>j \<ge> k. (of_nat (j mod 2) :: u64) = 1" by (intro exI[of _ "2 * k + 1"]) simp
  qed
  ultimately show ?thesis
    using sleep_returns[of "\<lambda>k. of_nat (k mod 2)" sample_pit_state 5 True]
    by (auto simp: sample_pit_state_def)
qed

end
