(* ===== verification/Gdt.thy ===== *)
theory Gdt
  imports Tss
begin

text \<open>
  \<open>kernel/src/gdt.rs\<close>: the global descriptor table.  The table type and its descriptors are those
  of the \<open>x86_64\<close> crate: the record \<open>gdt_crate\<close> holds what the source uses of it, and
  \<open>gdt_contract\<close> what the crate documents about \<open>add_entry\<close>, that entries are put one after the
  other behind the null descriptor, a system segment taking two slots, and that the selector of an
  entry is its byte offset with the entry's privilege level.
\<close>

section \<open>Definitions\<close>

datatype descriptor = UserSegment u64 | SystemSegment u64 u64

record 'g gdt_crate =
  gdt_new :: 'g
  gdt_slots :: "'g \<Rightarrow> nat"
  add_entry :: "'g \<Rightarrow> descriptor \<Rightarrow> (u16 \<times> 'g) option"
  kernel_code_segment :: descriptor
  tss_segment_with_iomap :: "task_state_segment \<Rightarrow> u8 list \<Rightarrow> descriptor option"

text \<open>Bits of a descriptor.\<close>

definition GDT_WRITABLE :: u64 where "GDT_WRITABLE = push_bit 41 1"
definition GDT_EXECUTABLE :: u64 where "GDT_EXECUTABLE = push_bit 43 1"
definition USER_SEGMENT :: u64 where "USER_SEGMENT = push_bit 44 1"
definition DPL_RING_3 :: u64 where "DPL_RING_3 = push_bit 45 3"
definition GDT_PRESENT :: u64 where "GDT_PRESENT = push_bit 47 1"
definition LONG_MODE :: u64 where "LONG_MODE = push_bit 53 1"

record selectors =
  kernel_cs :: u16
  kernel_ds :: u16
  user_cs :: u16
  user_ds :: u16
  tss_selector :: u16

record 'g gdt =
  gdt_table :: 'g
  gdt_selectors :: selectors

definition add_gdt_entry :: "'g gdt_crate \<Rightarrow> 'g \<Rightarrow> descriptor \<Rightarrow> ('s, u16 \<times> 'g) comp" where
  "add_gdt_entry G g d = expect (add_entry G g d) ''GDT full''"

text \<open>The initialiser of \<open>GDT\<close>.\<close>

definition build_gdt :: "'g gdt_crate \<Rightarrow> tss option \<Rightarrow> ('s, 'g gdt) comp" where
  "build_gdt G static_tss =
     bind (expect static_tss ''called Option::unwrap() on a None value'') (\<lambda>t.
     bind (expect (tss_segment_with_iomap G (tss_segment t) (iopb_as_slice (tss_iomap t)))
            ''called Result::unwrap() on an Err value'') (\<lambda>d.
     bind (add_gdt_entry G (gdt_new G) d) (\<lambda>(ts, g1).
     bind (add_gdt_entry G g1 (kernel_code_segment G)) (\<lambda>(kcs, g2).
     bind (add_gdt_entry G g2 (UserSegment ((USER_SEGMENT OR GDT_PRESENT) OR push_bit 41 1))) (\<lambda>(kds, g3).
     bind (add_gdt_entry G g3
            (UserSegment (USER_SEGMENT OR GDT_PRESENT OR DPL_RING_3 OR GDT_WRITABLE))) (\<lambda>(uds, g4).
     bind (add_gdt_entry G g4
            (UserSegment (USER_SEGMENT OR GDT_PRESENT OR GDT_EXECUTABLE OR LONG_MODE OR DPL_RING_3))) (\<lambda>(ucs, g5).
     ret \<lparr>gdt_table = g5, gdt_selectors =
       \<lparr>kernel_cs = kcs, kernel_ds = kds, user_cs = ucs, user_ds = uds, tss_selector = ts\<rparr>\<rparr>)))))))"

text \<open>The registers that \<open>init\<close> loads.\<close>

record 'g segments =
  gdtr :: "'g option"
  seg_cs :: u16
  seg_ss :: u16
  seg_ds :: u16
  seg_es :: u16
  seg_fs :: u16
  seg_gs :: u16
  task_register :: u16

definition gdt_init :: "'g gdt \<Rightarrow> ('g segments, unit) comp" where
  "gdt_init gd =
     (let s = gdt_selectors gd in
      bind (modify (\<lambda>r. r\<lparr>gdtr := Some (gdt_table gd)\<rparr>)) (\<lambda>_.
      bind (modify (\<lambda>r. r\<lparr>seg_cs := kernel_cs s\<rparr>)) (\<lambda>_.
      bind (modify (\<lambda>r. r\<lparr>task_register := tss_selector s\<rparr>)) (\<lambda>_.
      modify (\<lambda>r. r\<lparr>seg_ss := kernel_ds s, seg_ds := kernel_ds s, seg_es := kernel_ds s,
        seg_fs := kernel_ds s, seg_gs := kernel_ds s\<rparr>)))))"

section \<open>What the crate documents\<close>

definition descriptor_slots :: "descriptor \<Rightarrow> nat" where
  "descriptor_slots d = (case d of UserSegment _ \<Rightarrow> 1 | SystemSegment _ _ \<Rightarrow> 2)"

definition descriptor_ring :: "descriptor \<Rightarrow> u16" where
  "descriptor_ring d =
     (case d of UserSegment v \<Rightarrow> if v AND DPL_RING_3 = DPL_RING_3 then 3 else 0 | SystemSegment _ _ \<Rightarrow> 0)"

definition gdt_contract :: "'g gdt_crate \<Rightarrow> bool" where
  "gdt_contract G \<longleftrightarrow>
     gdt_slots G (gdt_new G) = 1 \<and>
     (\<forall>g d. gdt_slots G g + descriptor_slots d \<le> 8 \<longrightarrow> (\<exists>g'.
        add_entry G g d = Some (of_nat (gdt_slots G g) * 8 OR descriptor_ring d, g') \<and>
        gdt_slots G g' = gdt_slots G g + descriptor_slots d)) \<and>
     (\<exists>v. kernel_code_segment G = UserSegment v \<and> v AND DPL_RING_3 \<noteq> DPL_RING_3) \<and>
     (\<forall>t m. length m = 8193 \<and> m ! 8192 = 0xFF \<longrightarrow>
        (\<exists>lo hi. tss_segment_with_iomap G t m = Some (SystemSegment lo hi)))"

lemma add_gdt_entry_run:
  assumes "gdt_contract G" and "gdt_slots G g + descriptor_slots d \<le> 8"
  obtains g' where "add_gdt_entry G g d s = Inr ((of_nat (gdt_slots G g) * 8 OR descriptor_ring d, g'), s)"
    and "gdt_slots G g' = gdt_slots G g + descriptor_slots d"
proof -
  from assms(1) have "\<forall>g d. gdt_slots G g + descriptor_slots d \<le> 8 \<longrightarrow> (\<exists>g'.
      add_entry G g d = Some (of_nat (gdt_slots G g) * 8 OR descriptor_ring d, g') \<and>
      gdt_slots G g' = gdt_slots G g + descriptor_slots d)"
    unfolding gdt_contract_def by (elim conjE)
  with assms(2) obtain g' where "add_entry G g d = Some (of_nat (gdt_slots G g) * 8 OR descriptor_ring d, g')"
    "gdt_slots G g' = gdt_slots G g + descriptor_slots d" by blast
  then show thesis by (intro that) (simp_all add: add_gdt_entry_def expect_run)
qed

text \<open>The five selectors follow from the order of the entries alone.\<close>

lemma build_gdt_run:
  assumes G: "gdt_contract G" and "length (iomap (iopb (tss_iomap t))) = 8192" and "always_ff (iopb (tss_iomap t)) = 0xFF"
  obtains g where "build_gdt G (Some t) s = Inr (\<lparr>gdt_table = g, gdt_selectors =
    \<lparr>kernel_cs = 0x18, kernel_ds = 0x20, user_cs = 0x33, user_ds = 0x2B, tss_selector = 0x08\<rparr>\<rparr>, s)"
proof -
  have "length (iopb_as_slice (tss_iomap t)) = 8193" "iopb_as_slice (tss_iomap t) ! 8192 = 0xFF"
    using assms(2,3) by (simp_all add: iopb_as_slice_def nth_append)
  then obtain lo hi where d: "tss_segment_with_iomap G (tss_segment t) (iopb_as_slice (tss_iomap t)) = Some (SystemSegment lo hi)"
    using G unfolding gdt_contract_def by blast
  obtain v where v: "kernel_code_segment G = UserSegment v" "v AND DPL_RING_3 \<noteq> DPL_RING_3"
    using G unfolding gdt_contract_def by blast
  have n: "gdt_slots G (gdt_new G) = 1" using G unfolding gdt_contract_def by blast
  note ring = descriptor_slots_def descriptor_ring_def DPL_RING_3_def USER_SEGMENT_def GDT_PRESENT_def
    GDT_WRITABLE_def GDT_EXECUTABLE_def LONG_MODE_def
  obtain g1 where g1: "add_gdt_entry G (gdt_new G) (SystemSegment lo hi) s = Inr ((8, g1), s)" "gdt_slots G g1 = 3"
    by (rule add_gdt_entry_run[OF G, of "gdt_new G" "SystemSegment lo hi" s]) (auto simp: n ring)
  obtain g2 where g2: "add_gdt_entry G g1 (UserSegment v) s = Inr ((0x18, g2), s)" "gdt_slots G g2 = 4"
    by (rule add_gdt_entry_run[OF G, of g1 "UserSegment v" s]) (use v(2) in \<open>auto simp: g1 ring\<close>)
  let ?k = "UserSegment ((USER_SEGMENT OR GDT_PRESENT) OR push_bit 41 1)"
  obtain g3 where g3: "add_gdt_entry G g2 ?k s = Inr ((0x20, g3), s)" "gdt_slots G g3 = 5"
    by (rule add_gdt_entry_run[OF G, of g2 ?k s]) (auto simp: g2 ring)
  let ?u = "UserSegment (USER_SEGMENT OR GDT_PRESENT OR DPL_RING_3 OR GDT_WRITABLE)"
  obtain g4 where g4: "add_gdt_entry G g3 ?u s = Inr ((0x2B, g4), s)" "gdt_slots G g4 = 6"
    by (rule add_gdt_entry_run[OF G, of g3 ?u s]) (auto simp: g3 ring)
  let ?c = "UserSegment (USER_SEGMENT OR GDT_PRESENT OR GDT_EXECUTABLE OR LONG_MODE OR DPL_RING_3)"
  obtain g5 where g5: "add_gdt_entry G g4 ?c s = Inr ((0x33, g5), s)"
    by (rule add_gdt_entry_run[OF G, of g4 ?c s]) (auto simp: g4 ring)
  show thesis
    by (rule that[of g5]) (simp add: build_gdt_def expect_run run_simps d v(1) g1 g2 g3 g3(1)[simplified] g4 g5)
qed

end
