(* ===== verification/Kernel_State.thy ===== *)
theory Kernel_State
  imports Memory_Setup Vga Pit Gdt
begin

text \<open>
  The state of the whole kernel: the machine and the statics of the memory subsystem, extended by
  the terminal \<open>VGA_WRITER\<close>, what was sent to the serial port, the process table, the devices and
  the registers that the start-up code programs.  Operations of the components run on their part of
  the state.  The type \<open>'d\<close> is the concurrent map of the \<open>dashmap\<close> crate that holds the processes and
  \<open>'g\<close> the descriptor table of the \<open>x86_64\<close> crate.
\<close>

section \<open>Text\<close>

text \<open>A \<open>str\<close> is the list of its code points.  \<open>str\<close> is the text of a literal of the source, and
  \<open>decimal\<close> is how \<open>format_args!\<close> prints an unsigned number.\<close>

type_synonym rstr = "32 word list"

definition str :: "string \<Rightarrow> rstr" where
  "str s = map of_char s"

fun decimal :: "nat \<Rightarrow> rstr" where
  "decimal n = (if n < 10 then [of_nat (48 + n)] else decimal (n div 10) @ [of_nat (48 + n mod 10)])"

declare decimal.simps [simp del]

section \<open>The state\<close>

text \<open>A process, and what the kernel uses of the map of processes.\<close>

record process =
  page_tables :: inactive_page_map
  stack_ptr :: u64
  instruction_ptr :: u64
  io_port_ranges :: "(u16 \<times> u16) list"
  new_process :: bool

record 'd process_map =
  pm_insert :: "u64 \<Rightarrow> process \<Rightarrow> 'd \<Rightarrow> 'd"
  pm_get :: "u64 \<Rightarrow> 'd \<Rightarrow> process option"
  pm_update :: "u64 \<Rightarrow> process \<Rightarrow> 'd \<Rightarrow> 'd"

text \<open>The documented behaviour: inserting binds the key, a write through the guard of \<open>get_mut\<close>
  changes the value of a key that is bound, and other keys are not affected.\<close>

definition process_map_contract :: "'d process_map \<Rightarrow> bool" where
  "process_map_contract D \<longleftrightarrow>
     (\<forall>p q x d. pm_get D q (pm_insert D p x d) = (if q = p then Some x else pm_get D q d)) \<and>
     (\<forall>p q x d. pm_get D p d \<noteq> None \<longrightarrow>
        pm_get D q (pm_update D p x d) = (if q = p then Some x else pm_get D q d))"

text \<open>The registers of the processor that a system call uses, and those that \<open>setup_syscall\<close> and
  \<open>enable_features\<close> program.\<close>

record cpu =
  rax :: u64
  rcx :: u64
  rdx :: u64
  rsi :: u64
  rdi :: u64
  r11 :: u64
  rsp :: u64
  rip :: u64
  rflags :: u64
  efer :: u64
  lstar :: u64
  star :: u64
  sfmask :: u64
  cr0_flags :: u64
  cr4_flags :: u64

record ('t, 'd, 'g) kernel = "'t mem_state" +
  vga :: vga_writer
  serial_out :: "rstr list"
  processes :: 'd
  next_pid :: u64
  user_rsp :: u64
  syscall_stack :: u64
  cpu :: cpu
  segs :: "'g segments"
  static_gdt :: "'g gdt option"
  devices :: "listener pit_state"

section \<open>Running the operations of a part\<close>

definition on_vga :: "(vga_writer, 'a) comp \<Rightarrow> (('t, 'd, 'g, 'z) kernel_scheme, 'a) comp" where
  "on_vga f k = (case f (vga k) of Inl e \<Rightarrow> Inl e | Inr (x, w) \<Rightarrow> Inr (x, k\<lparr>vga := w\<rparr>))"

definition on_devices :: "(listener pit_state, 'a) comp \<Rightarrow> (('t, 'd, 'g, 'z) kernel_scheme, 'a) comp" where
  "on_devices f k = (case f (devices k) of Inl e \<Rightarrow> Inl e | Inr (x, s) \<Rightarrow> Inr (x, k\<lparr>devices := s\<rparr>))"

definition on_segments :: "('g segments, 'a) comp \<Rightarrow> (('t, 'd, 'g, 'z) kernel_scheme, 'a) comp" where
  "on_segments f k = (case f (segs k) of Inl e \<Rightarrow> Inl e | Inr (x, s) \<Rightarrow> Inr (x, k\<lparr>segs := s\<rparr>))"

definition set_cpu :: "(cpu \<Rightarrow> cpu) \<Rightarrow> (('t, 'd, 'g, 'z) kernel_scheme, unit) comp" where
  "set_cpu f = modify (\<lambda>k. k\<lparr>cpu := f (cpu k)\<rparr>)"

lemma on_vga_run [run_simps]:
  "f (vga k) = Inr (x, w) \<Longrightarrow> on_vga f k = Inr (x, k\<lparr>vga := w\<rparr>)"
  "f (vga k) = Inl e \<Longrightarrow> on_vga f k = Inl e"
  by (simp_all add: on_vga_def)

lemma on_devices_run [run_simps]:
  "f (devices k) = Inr (x, s) \<Longrightarrow> on_devices f k = Inr (x, k\<lparr>devices := s\<rparr>)"
  by (simp add: on_devices_def)

lemma on_segments_run [run_simps]:
  "f (segs k) = Inr (x, s) \<Longrightarrow> on_segments f k = Inr (x, k\<lparr>segs := s\<rparr>)"
  by (simp add: on_segments_def)

text \<open>\<open>TSS.wait().unwrap()\<close>\<close>

definition the_tss :: "(('t, 'z) mem_state_scheme, tss) comp" where
  "the_tss = bind (gets tss_cell) (\<lambda>t. expect t unwrap_none)"

text \<open>An operation on the I/O bitmap of the task state segment.\<close>

definition on_iomap :: "(iopb_lock, 'a) comp \<Rightarrow> (('t, 'z) mem_state_scheme, 'a) comp" where
  "on_iomap f =
     bind the_tss (\<lambda>t m. case f (tss_iomap t) of
       Inl e \<Rightarrow> Inl e
     | Inr (x, l) \<Rightarrow> Inr (x, m\<lparr>tss_cell := Some (t\<lparr>tss_iomap := l\<rparr>)\<rparr>))"

text \<open>The lazily initialised static \<open>GDT\<close>.\<close>

definition the_gdt :: "'g gdt_crate \<Rightarrow> (('t, 'd, 'g, 'z) kernel_scheme, 'g gdt) comp" where
  "the_gdt G =
     bind (gets static_gdt) (\<lambda>g. case g of
       Some gd \<Rightarrow> ret gd
     | None \<Rightarrow>
         bind (gets tss_cell) (\<lambda>t.
         bind (build_gdt G t) (\<lambda>gd.
         bind (modify (\<lambda>k. k\<lparr>static_gdt := Some gd\<rparr>)) (\<lambda>_. ret gd))))"

text \<open>\<open>halt\<close> of \<open>lib.rs\<close>: interrupts off, then \<open>hlt\<close> forever.\<close>

definition halt :: "('s, 'a) comp" where
  "halt = stop_with Halted"

end
