(* ===== verification/Logging.thy ===== *)
theory Logging
  imports Kernel_State
begin

text \<open>
  \<open>kernel/src/log.rs\<close>, \<open>kernel/src/lang.rs\<close> and \<open>serial1_print\<close> of \<open>kernel/src/lib.rs\<close>: messages on the
  terminal and the serial port, and the handlers of panics and of exhausted heap memory.  What a
  message consists of after formatting is an argument.  The \<open>uart_16550\<close> crate enters through the
  result of \<open>write_str\<close>, which its documentation says is always \<open>Ok\<close>; the features of the build are
  arguments too.
\<close>

section \<open>The serial port\<close>

record uart_crate =
  uart_write_ok :: "rstr \<Rightarrow> bool"

definition serial_write :: "uart_crate \<Rightarrow> rstr \<Rightarrow> (('t, 'd, 'g, 'z) kernel_scheme, bool) comp" where
  "serial_write U t =
     bind (modify (\<lambda>k. k\<lparr>serial_out := serial_out k @ [t]\<rparr>)) (\<lambda>_. ret (uart_write_ok U t))"

definition unwrap_ok :: "bool \<Rightarrow> ('s, unit) comp" where
  "unwrap_ok ok = panic_unless ok ''called Result::unwrap() on an Err value''"

definition serial1_print :: "uart_crate \<Rightarrow> rstr \<Rightarrow> (('t, 'd, 'g, 'z) kernel_scheme, unit) comp" where
  "serial1_print U args = bind (serial_write U args) unwrap_ok"

section \<open>The macros\<close>

record features =
  feature_debug :: bool
  feature_trace :: bool

definition on_black :: "Colour \<Rightarrow> colour_pair" where
  "on_black c = \<lparr>foreground = c, background = Black\<rparr>"

text \<open>The body that the five macros share.\<close>

definition message :: "bool \<Rightarrow> uart_crate \<Rightarrow> string \<Rightarrow> Colour \<Rightarrow> rstr
    \<Rightarrow> (('t, 'd, 'g, 'z) kernel_scheme, unit) comp" where
  "message chk U label c args =
     bind (on_vga (write_str_coloured chk (str label) (on_black c))) (\<lambda>_.
     bind (on_vga (write_str chk (args @ [10]))) (\<lambda>_.
     bind (serial1_print U (str label)) (\<lambda>_.
     bind (serial1_print U args) (\<lambda>_.
     serial1_print U [10]))))"

definition log_error :: "bool \<Rightarrow> uart_crate \<Rightarrow> rstr \<Rightarrow> (('t, 'd, 'g, 'z) kernel_scheme, unit) comp" where
  "log_error chk U = message chk U ''[error] '' Red"

definition log_warn :: "bool \<Rightarrow> uart_crate \<Rightarrow> rstr \<Rightarrow> (('t, 'd, 'g, 'z) kernel_scheme, unit) comp" where
  "log_warn chk U = message chk U ''[warn]  '' LightRed"

definition log_info :: "bool \<Rightarrow> uart_crate \<Rightarrow> rstr \<Rightarrow> (('t, 'd, 'g, 'z) kernel_scheme, unit) comp" where
  "log_info chk U = message chk U ''[info]  '' LightBlue"

definition log_debug :: "features \<Rightarrow> bool \<Rightarrow> uart_crate \<Rightarrow> rstr
    \<Rightarrow> (('t, 'd, 'g, 'z) kernel_scheme, unit) comp" where
  "log_debug F chk U args =
     (if feature_debug F then message chk U ''[debug] '' Cyan args else ret ())"

definition log_trace :: "features \<Rightarrow> bool \<Rightarrow> uart_crate \<Rightarrow> rstr
    \<Rightarrow> (('t, 'd, 'g, 'z) kernel_scheme, unit) comp" where
  "log_trace F chk U args =
     (if feature_trace F then message chk U ''[trace] '' White args else ret ())"

section \<open>\<open>Logger\<close>\<close>

text \<open>The levels of the \<open>log\<close> crate, in its order.\<close>

datatype Level = Error | Warn | Info | Debug | Trace

primrec level_rank :: "Level \<Rightarrow> nat" where
  "level_rank Error = 1"
| "level_rank Warn = 2"
| "level_rank Info = 3"
| "level_rank Debug = 4"
| "level_rank Trace = 5"

definition log_level :: "features \<Rightarrow> Level" where
  "log_level F = (if feature_trace F then Trace else if feature_debug F then Debug else Info)"

definition log_enabled :: "features \<Rightarrow> Level \<Rightarrow> bool" where
  "log_enabled F level \<longleftrightarrow> level_rank level \<le> level_rank (log_level F)"

primrec level_label :: "Level \<Rightarrow> string \<times> colour_pair" where
  "level_label Trace = (''[trace] '', on_black White)"
| "level_label Debug = (''[debug] '', on_black Cyan)"
| "level_label Info = (''[info]  '', on_black LightBlue)"
| "level_label Warn = (''[warn]  '', on_black LightRed)"
| "level_label Error = (''[error] '', on_black Red)"

definition logger_log :: "features \<Rightarrow> bool \<Rightarrow> uart_crate \<Rightarrow> Level \<Rightarrow> rstr \<Rightarrow> rstr
    \<Rightarrow> (('t, 'd, 'g, 'z) kernel_scheme, unit) comp" where
  "logger_log F chk U level record_target args =
     (if log_enabled F level then
        let (label, col) = level_label level; msg = record_target @ str '': '' @ args @ [10] in
        bind (on_vga (write_str_coloured chk (str label) col)) (\<lambda>_.
        bind (on_vga (write_str chk msg)) (\<lambda>_.
        bind (bind (serial_write U (str label)) unwrap_ok) (\<lambda>_.
        bind (serial_write U msg) unwrap_ok)))
      else ret ())"

text \<open>\<open>init\<close>; \<open>set_logger\<close> tells whether the \<open>log\<close> crate accepted the logger.  The result is the
  maximum level that is set.\<close>

definition log_init :: "features \<Rightarrow> bool \<Rightarrow> ('s, Level) comp" where
  "log_init F set_logger =
     (if set_logger then ret (log_level F) else stop_with (Panic ''Error setting logger!''))"

section \<open>Panics\<close>

record panic_info =
  panic_message :: "rstr option"
  panic_location :: "(rstr \<times> nat) option"

definition panic_text :: "panic_info \<Rightarrow> rstr" where
  "panic_text info =
     (let arguments = (case panic_message info of Some args \<Rightarrow> args | None \<Rightarrow> str ''undefined'') in
      case panic_location info of
        Some (file, line) \<Rightarrow>
          str ''Panicked at '' @ [34] @ arguments @ [34] @ str '', '' @ file @ [58] @ decimal line
      | None \<Rightarrow> str ''Panicked at '' @ [34] @ arguments @ [34] @ str '' at an undefined location'')"

text \<open>What \<open>panic_fmt\<close> prints before it halts.  It makes a new writer on the same buffer, in
  red, and a new serial port, so that no lock is needed; results are ignored.\<close>

definition panic_print :: "bool \<Rightarrow> uart_crate \<Rightarrow> panic_info \<Rightarrow> (('t, 'd, 'g, 'z) kernel_scheme, unit) comp" where
  "panic_print chk U info =
     bind (modify (\<lambda>k. k\<lparr>vga := (vga_writer_new (vga_rows (vga k)))\<lparr>colour := on_black Red\<rparr>\<rparr>)) (\<lambda>_.
     bind (on_vga (write_str chk (panic_text info))) (\<lambda>_.
     bind (serial_write U (panic_text info)) (\<lambda>_.
     ret ())))"

definition panic_fmt :: "bool \<Rightarrow> uart_crate \<Rightarrow> panic_info \<Rightarrow> (('t, 'd, 'g, 'z) kernel_scheme, 'a) comp" where
  "panic_fmt chk U info = bind (panic_print chk U info) (\<lambda>_. halt)"

definition oom :: "('s, 'a) comp" where
  "oom = stop_with (Panic ''Ran out of kernel heap memory'')"

section \<open>\<open>enable_features\<close>\<close>

text \<open>The bits of the flag types of the \<open>x86_64\<close> crate are those of the architecture.\<close>

definition EMULATE_COPROCESSOR :: u64 where "EMULATE_COPROCESSOR = 4"
definition MONITOR_COPROCESSOR :: u64 where "MONITOR_COPROCESSOR = 2"
definition OSFXSR :: u64 where "OSFXSR = 0x200"
definition OSXMMEXCPT_ENABLE :: u64 where "OSXMMEXCPT_ENABLE = 0x400"

definition enable_features :: "(('t, 'd, 'g, 'z) kernel_scheme, unit) comp" where
  "enable_features =
     bind (set_cpu (\<lambda>c. c\<lparr>cr0_flags := (cr0_flags c AND NOT EMULATE_COPROCESSOR) OR MONITOR_COPROCESSOR\<rparr>)) (\<lambda>_.
     set_cpu (\<lambda>c. c\<lparr>cr4_flags := cr4_flags c OR (OSFXSR OR OSXMMEXCPT_ENABLE)\<rparr>))"

end
