(* ===== verification/Byte_Access.thy ===== *)
theory Byte_Access
  imports Machine
begin

text \<open>
  Kernel-mode accesses to single bytes of virtual memory, which the kernel uses for the memory of
  its processes: the bytes of an ELF segment are copied one by one, and the bytes of a user's buffer
  are read.  Physical memory holds 64-bit words; byte \<open>k\<close> of a word has the bits from \<open>8 * k\<close>.
\<close>

section \<open>Bytes of a word\<close>

definition byte_of :: "u64 \<Rightarrow> nat \<Rightarrow> u8" where
  "byte_of w k = ucast (drop_bit (8 * k) w)"

definition put_byte :: "u64 \<Rightarrow> nat \<Rightarrow> u8 \<Rightarrow> u64" where
  "put_byte w k b = (w AND NOT (push_bit (8 * k) 0xFF)) OR push_bit (8 * k) (ucast b)"

lemma bit_255: "bit (0xFF :: u64) n = (n < 8)"
  using bit_mask_iff[of 8 n, where 'a = u64] by (auto simp: mask_eq_exp_minus_1 dest: bit_imp_le_length)

lemma byte_of_put_byte:
  assumes "j < 8" and "k < 8"
  shows "byte_of (put_byte w k b) j = (if j = k then b else byte_of w j)"
proof (rule bit_word_eqI)
  fix n assume n: "n < LENGTH(8)"
  have lt: "8 * j + n < 64" using n assms(1) by simp
  have in_k: "8 * k \<le> 8 * j + n \<and> 8 * j + n - 8 * k < 8 \<longleftrightarrow> j = k" using n by auto
  have "bit (byte_of (put_byte w k b) j) n = bit (put_byte w k b) (8 * j + n)"
    using n by (simp add: byte_of_def bit_simps)
  also have "\<dots> = (if 8 * k \<le> 8 * j + n \<and> 8 * j + n - 8 * k < 8 then bit b (8 * j + n - 8 * k) else bit w (8 * j + n))"
    using lt unfolding put_byte_def
    by (auto simp: bit_or_iff bit_and_iff bit_not_iff bit_push_bit_iff bit_255 bit_ucast_iff simp del: bit_numeral_word_iff
        dest: bit_imp_le_length)
  finally show "bit (byte_of (put_byte w k b) j) n = bit (if j = k then b else byte_of w j) n"
    using n unfolding in_k by (simp add: byte_of_def bit_simps)
qed

section \<open>Accesses\<close>

definition vread_byte :: "u64 \<Rightarrow> (('t, 'z) machine_scheme, u8) comp" where
  "vread_byte va m = (case mmu_translate m va of
       None \<Rightarrow> Inl (Page_fault va)
     | Some (f, _, _) \<Rightarrow> Inr (byte_of (pmem m f (va_word va)) (unat (va AND 7)), m))"

definition vwrite_byte :: "u64 \<Rightarrow> u8 \<Rightarrow> (('t, 'z) machine_scheme, unit) comp" where
  "vwrite_byte va b m = (case mmu_translate m va of
       None \<Rightarrow> Inl (Page_fault va)
     | Some (f, w, _) \<Rightarrow>
         if cr0_wp m \<and> \<not> w then Inl (Page_fault va)
         else Inr ((), write_word f (va_word va) (put_byte (pmem m f (va_word va)) (unat (va AND 7)) b) m))"

text \<open>A slice of memory, read byte by byte, and \<open>copy_from_slice\<close>.\<close>

primrec read_slice :: "u64 \<Rightarrow> nat \<Rightarrow> (('t, 'z) machine_scheme, u8 list) comp" where
  "read_slice va 0 = ret []"
| "read_slice va (Suc n) =
     bind (vread_byte va) (\<lambda>b. bind (read_slice (va + 1) n) (\<lambda>bs. ret (b # bs)))"

primrec write_slice :: "u64 \<Rightarrow> u8 list \<Rightarrow> (('t, 'z) machine_scheme, unit) comp" where
  "write_slice va [] = ret ()"
| "write_slice va (b # bs) = bind (vwrite_byte va b) (\<lambda>_. write_slice (va + 1) bs)"

lemma read_slice_state: "read_slice va n m = Inr (bs, m') \<Longrightarrow> m' = m \<and> length bs = n"
proof (induction n arbitrary: va bs)
  case 0
  then show ?case by (simp add: ret_def)
next
  case (Suc n)
  then obtain b bs' where "vread_byte va m = Inr (b, m)" "read_slice (va + 1) n m = Inr (bs', m')" "bs = b # bs'"
    by (auto simp: vread_byte_def ret_def elim!: bind_InrE split: option.splits)
  with Suc.IH[of "va + 1" bs'] show ?case by simp
qed

text \<open>The bytes at an address, when all of them can be read.\<close>

definition byte_at :: "('t, 'z) machine_scheme \<Rightarrow> u64 \<Rightarrow> u8 option" where
  "byte_at m va = (case mmu_translate m va of
       None \<Rightarrow> None | Some (f, _, _) \<Rightarrow> Some (byte_of (pmem m f (va_word va)) (unat (va AND 7))))"

lemma read_slice_run:
  assumes "\<forall>i < length bs. byte_at m (va + of_nat i) = Some (bs ! i)"
  shows "read_slice va (length bs) m = Inr (bs, m)"
  using assms
proof (induction bs arbitrary: va)
  case Nil
  then show ?case by (simp add: ret_def)
next
  case (Cons b bs)
  have "byte_at m va = Some b" using Cons.prems[rule_format, of 0] by simp
  then have "vread_byte va m = Inr (b, m)"
    by (auto simp: byte_at_def vread_byte_def split: option.splits)
  moreover have "read_slice (va + 1) (length bs) m = Inr (bs, m)"
  proof (rule Cons.IH, intro allI impI)
    fix i assume "i < length bs"
    with Cons.prems[rule_format, of "Suc i"] show "byte_at m (va + 1 + of_nat i) = Some (bs ! i)"
      by (simp add: ac_simps)
  qed
  ultimately show ?case by (simp add: run_simps)
qed

end
