(* ===== verification/Buffer.thy ===== *)
theory Buffer
  imports Sample_Machines Byte_Access
begin

text \<open>
  \<open>kernel/src/memory/buffer.rs\<close>: the check of a buffer that a user process passes to the kernel.  The
  element type \<open>T\<close> enters through its size and alignment; a \<open>BorrowedKernelBuffer\<close> is the pair of
  its address and its length, and the only implementation of \<open>PlainOldData\<close>, for \<open>u8\<close>, reads the
  bytes as they are.
\<close>

section \<open>Definitions\<close>

datatype InvalidBufferError = OverlapsKernelSpace | InvalidLen | Unaligned | Unmapped | Null

text \<open>\<open>.map(walk_page_table).all(..)\<close>, which stops at the first page that is not mapped for user
  mode.\<close>

primrec all_user :: "'t crates \<Rightarrow> page list \<Rightarrow> (('t, 'z) machine_scheme, bool) comp" where
  "all_user C [] = ret True"
| "all_user C (p # ps) =
     bind (walk_page_table C p) (\<lambda>w.
       if (case w of Some (e, _) \<Rightarrow> contains (entry_flags e) USER_ACCESSIBLE | None \<Rightarrow> False)
       then all_user C ps else ret False)"

definition try_from_user :: "'t crates \<Rightarrow> u64 \<Rightarrow> u64 \<Rightarrow> u64 option \<Rightarrow> u64
    \<Rightarrow> (('t, 'z) machine_scheme, InvalidBufferError + (u64 \<times> u64)) comp" where
  "try_from_user C size_of_T align_of_T ptr len =
     (let chk = overflow_checks C in
      case ptr of None \<Rightarrow> ret (Inl Null) | Some ptr \<Rightarrow>
      if ptr mod align_of_T \<noteq> 0 then ret (Inl Unaligned)
      else if len = 0 \<or> 0x7FFFFFFFFFFFFFFF < len then ret (Inl InvalidLen)
      else
        bind (mul_ck chk len size_of_T) (\<lambda>bytes.
        bind (sub_ck chk bytes 1) (\<lambda>off.
        bind (page_add chk LAST_USABLE_PAGE 1) (\<lambda>limit_page.
        bind (start_address chk limit_page) (\<lambda>limit.
        bind (expect limit ''called Option::unwrap() on a None value'') (\<lambda>limit.
        case checked_add ptr off of
          None \<Rightarrow> ret (Inl InvalidLen)
        | Some buffer_end_byte \<Rightarrow>
            if \<not> buffer_end_byte < limit then ret (Inl OverlapsKernelSpace) else
            bind (all_user C (page_range (containing_address ptr) (containing_address buffer_end_byte))) (\<lambda>all_mapped.
              if \<not> all_mapped then ret (Inl Unmapped) else ret (Inr (ptr, len)))))))))"

section \<open>What the check establishes\<close>

declare bit_numeral_word_iff [simp del]

text \<open>The leaf entry of a page, if there is one that allows user mode.\<close>

definition user_page :: "('t, 'z) machine_scheme \<Rightarrow> page \<Rightarrow> bool" where
  "user_page m p \<longleftrightarrow> (\<exists>e sz. phys_walk m (cr3 m) p = Some (e, sz) \<and> pte_user e)"

lemma all_user_run:
  assumes x: "x86_64_contract C" and inv: "pt_inv ok free m (cr3 m)"
    and low: "\<forall>p \<in> set ps. p4_index p \<noteq> 510"
  shows "all_user C ps m = Inr (\<forall>p \<in> set ps. user_page m p, m)"
  using low
proof (induction ps)
  case Nil
  then show ?case by (simp add: ret_def)
next
  case (Cons p ps)
  have "walk_page_table C p m = Inr (phys_walk m (cr3 m) p, m)"
    using Cons.prems by (intro walk_page_table_phys[OF pt_invD(1)[OF inv] x pt_inv_walk_supported[OF inv]]) simp
  then show ?case
    using Cons by (auto simp: run_simps contains_flag(3) user_page_def split: option.splits)
qed

text \<open>The limit of the check, and the pages below it.\<close>

definition user_limit :: u64 where "user_limit = 0x7FFFFFFFF000"

lemma user_limit_run:
  "bind (page_add chk LAST_USABLE_PAGE 1) (\<lambda>p. bind (start_address chk p) (\<lambda>a. bind (expect a msg) g)) s = g user_limit s"
  by (simp add: page_add_def LAST_USABLE_PAGE_def containing_address_def start_address_def run_simps user_limit_def)

lemma below_user_limit:
  assumes "a < user_limit"
  shows "number (containing_address a) < 2 ^ 35" and "number (containing_address a) \<le> 0x7FFFFFFFE"
proof -
  have u: "unat a < 0x7FFFFFFFF000" using assms by (simp add: user_limit_def word_less_nat_alt)
  then show "number (containing_address a) < 2 ^ 35" "number (containing_address a) \<le> 0x7FFFFFFFE"
    by (simp_all add: containing_address_def word_less_nat_alt word_le_nat_alt unat_div)
qed

lemma set_page_range:
  "page_size p = Some Kib4 \<Longrightarrow> set (page_range p q) = nth_page ` {number p..number q}"
  by (cases p) (auto simp: page_range_def set_range_incl nth_page_def)

lemma containing_nth_page: "containing_address a = nth_page (a div 4096)"
  by (simp add: containing_address_def nth_page_def)

text \<open>The check for bytes, on the machine: it only looks at the page tables.\<close>

lemma try_from_user_run:
  assumes x: "x86_64_contract C" and inv: "pt_inv ok free m (cr3 m)"
  shows "try_from_user C 1 1 (Some ptr) len m =
    Inr (if len = 0 \<or> 0x7FFFFFFFFFFFFFFF < len then Inl InvalidLen
      else if 2 ^ 64 \<le> unat ptr + unat (len - 1) then Inl InvalidLen
      else if \<not> ptr + (len - 1) < user_limit then Inl OverlapsKernelSpace
      else if \<forall>no \<in> {ptr div 4096..(ptr + (len - 1)) div 4096}. user_page m (nth_page no) then Inr (ptr, len)
      else Inl Unmapped, m)"
proof (cases "len = 0 \<or> 0x7FFFFFFFFFFFFFFF < len")
  case True
  then show ?thesis by (auto simp: try_from_user_def run_simps)
next
  case False
  let ?last = "ptr + (len - 1)"
  have one: "1 \<le> len" using False by (simp add: word_le_nat_alt Suc_leI unat_gt_0)
  have ck: "bind (mul_ck (overflow_checks C) len 1) f m = f len m"
    "bind (sub_ck (overflow_checks C) len 1) f m = f (len - 1) m"
    for f :: "u64 \<Rightarrow> (('a, 'b) machine_scheme, InvalidBufferError + (u64 \<times> u64)) comp"
    using unat_bound[of len] one by (simp_all add: bind_run_Inr run_simps)
  have run: "try_from_user C 1 1 (Some ptr) len m = (case checked_add ptr (len - 1) of
      None \<Rightarrow> Inr (Inl InvalidLen, m)
    | Some e \<Rightarrow> if \<not> e < user_limit then Inr (Inl OverlapsKernelSpace, m) else
        bind (all_user C (page_range (containing_address ptr) (containing_address e)))
          (\<lambda>a. if \<not> a then ret (Inl Unmapped) else ret (Inr (ptr, len))) m)"
    using False
    by (simp add: try_from_user_def Let_def ck user_limit_run ret_run split: option.split)
  show ?thesis
  proof (cases "2 ^ 64 \<le> unat ptr + unat (len - 1)")
    case True
    with False run show ?thesis by (simp add: checked_add_def)
  next
    case small: False
    then have ca: "checked_add ptr (len - 1) = Some ?last" by (simp add: checked_add_def)
    show ?thesis
    proof (cases "?last < user_limit")
      case True
      let ?ps = "page_range (containing_address ptr) (containing_address ?last)"
      have set: "set ?ps = nth_page ` {ptr div 4096..?last div 4096}"
        by (subst set_page_range) (simp_all add: containing_address_def)
      have "p4_index (nth_page no) \<noteq> 510" if "no \<le> ?last div 4096" for no
      proof -
        have "no < 2 ^ 35"
          using order_le_less_trans[OF that] below_user_limit(1)[OF True] by (simp add: containing_address_def)
        from mappableD(4)[OF lower_half_mappable[OF this]] show ?thesis .
      qed
      then have "\<forall>p \<in> set ?ps. p4_index p \<noteq> 510" unfolding set by auto
      from all_user_run[OF x inv this] show ?thesis
        using False small True run unfolding ca set by (simp add: run_simps)
    next
      case over: False
      with False small run show ?thesis unfolding ca by simp
    qed
  qed
qed

text \<open>The pages of the range are the pages of the bytes.\<close>

lemma pages_of_bytes:
  assumes "0 < len" and "unat ptr + unat len \<le> 2 ^ 64 - 1"
  shows "(\<forall>no \<in> {ptr div 4096..(ptr + (len - 1)) div 4096}. P (nth_page no)) \<longleftrightarrow>
    (\<forall>i < unat len. P (containing_address (ptr + of_nat i)))"
proof -
  let ?last = "ptr + (len - 1)"
  have len1: "1 \<le> unat len" using assms(1) by (simp add: word_less_nat_alt Suc_leI)
  have at: "unat (ptr + of_nat i) = unat ptr + i" if "i < unat len" for i
    using that assms(2) by (simp add: unat_word_ariths unat_of_nat take_bit_nat_eq_self)
  have "unat (len - 1) = unat len - 1" using len1 by (simp add: unat_sub word_le_nat_alt)
  then have last: "unat ?last = unat ptr + unat len - 1"
    using len1 assms(2) by (simp add: unat_word_ariths)
  have "{ptr div 4096..?last div 4096} = (\<lambda>i. (ptr + of_nat i) div 4096) ` {..<unat len}"
  proof (intro equalityI subsetI)
    fix no assume "no \<in> {ptr div 4096..?last div 4096}"
    then have no: "unat ptr div 4096 \<le> unat no" "unat no \<le> (unat ptr + unat len - 1) div 4096"
      by (simp_all add: word_le_nat_alt unat_div last)
    define i where "i = max (unat ptr) (unat no * 4096) - unat ptr"
    have "unat no * 4096 \<le> unat ptr + unat len - 1" using no(2) by linarith
    then have i: "i < unat len" using len1 by (auto simp: i_def)
    have "(unat ptr + i) div 4096 = unat no"
    proof (cases "unat ptr \<le> unat no * 4096")
      case True
      then show ?thesis by (simp add: i_def)
    next
      case False
      then have "unat ptr div 4096 = unat no" using no(1) by linarith
      with False show ?thesis by (simp add: i_def)
    qed
    then have "(ptr + of_nat i) div 4096 = no" using at[OF i] by (simp add: word_unat_eq_iff unat_div)
    then show "no \<in> (\<lambda>i. (ptr + of_nat i) div 4096) ` {..<unat len}" using i by blast
  next
    fix no assume "no \<in> (\<lambda>i. (ptr + of_nat i) div 4096) ` {..<unat len}"
    then obtain i where i: "i < unat len" "no = (ptr + of_nat i) div 4096" by blast
    then show "no \<in> {ptr div 4096..?last div 4096}"
      using at[OF i(1)] by (auto simp: word_le_nat_alt unat_div last intro!: div_le_mono)
  qed
  then show ?thesis by (auto simp: containing_nth_page)
qed

text \<open>Below the limit, only the pages decide.\<close>

lemma try_from_user_below:
  assumes "x86_64_contract C" and "pt_inv ok free m (cr3 m)" and "0 < len"
    and "unat p + unat len \<le> unat user_limit"
  shows "try_from_user C 1 1 (Some p) len m =
    Inr (if \<forall>i < unat len. user_page m (containing_address (p + of_nat i)) then Inr (p, len) else Inl Unmapped, m)"
proof -
  have lim: "unat user_limit = 0x7FFFFFFFF000" by (simp add: user_limit_def)
  have len1: "1 \<le> unat len" using assms(3) by (simp add: word_less_nat_alt Suc_leI)
  have l1: "unat (len - 1) = unat len - 1" using len1 by (simp add: unat_sub word_le_nat_alt)
  have ok: "\<not> (len = 0 \<or> 0x7FFFFFFFFFFFFFFF < len)" "\<not> 2 ^ 64 \<le> unat p + unat (len - 1)"
    using assms(3,4) lim len1 l1 by (auto simp: word_less_nat_alt)
  have "unat (p + (len - 1)) = unat p + unat len - 1"
    using ok(2) len1 l1 by (simp add: unat_word_ariths)
  then have "p + (len - 1) < user_limit" using assms(4) len1 by (simp add: word_less_nat_alt)
  moreover have "(\<forall>no \<in> {p div 4096..(p + (len - 1)) div 4096}. user_page m (nth_page no)) \<longleftrightarrow>
      (\<forall>i < unat len. user_page m (containing_address (p + of_nat i)))"
    by (rule pages_of_bytes) (use assms(3,4) lim in auto)
  ultimately show ?thesis using ok unfolding try_from_user_run[OF assms(1,2)] by simp
qed

text \<open>The check as a whole.\<close>

lemma try_from_user_spec:
  assumes "x86_64_contract C" and "pt_inv ok free m (cr3 m)"
  shows "\<exists>res. try_from_user C 1 1 ptr len m = Inr (res, m) \<and>
    (\<forall>b. res = Inr b \<longleftrightarrow> ptr = Some (fst b) \<and> snd b = len \<and> 0 < len \<and>
       unat (fst b) + unat len \<le> unat user_limit \<and>
       (\<forall>i < unat len. user_page m (containing_address (fst b + of_nat i))))"
proof (cases ptr)
  case None
  then show ?thesis by (simp add: try_from_user_def run_simps)
next
  case (Some p)
  show ?thesis
  proof (cases "0 < len \<and> unat p + unat len \<le> unat user_limit")
    case True
    with try_from_user_below[OF assms, of len p] Some show ?thesis by auto
  next
    case False
    have "\<exists>e. try_from_user C 1 1 ptr len m = Inr (Inl e, m)"
    proof (cases "len = 0 \<or> 0x7FFFFFFFFFFFFFFF < len \<or> 2 ^ 64 \<le> unat p + unat (len - 1)")
      case True
      then show ?thesis unfolding Some try_from_user_run[OF assms] by auto
    next
      case small: False
      then have len1: "1 \<le> unat len" by (simp add: Suc_leI unat_gt_0)
      have l1: "unat (len - 1) = unat len - 1" using len1 by (simp add: unat_sub word_le_nat_alt)
      have "unat (p + (len - 1)) = unat p + unat len - 1" using small len1 l1 by (simp add: unat_word_ariths)
      then have "\<not> p + (len - 1) < user_limit"
        using False len1 small by (auto simp: word_less_nat_alt)
      then show ?thesis using small unfolding Some try_from_user_run[OF assms] by auto
    qed
    then show ?thesis using False Some by auto
  qed
qed

section \<open>Properties\<close>

text \<open>C13: the check of a user's buffer always returns and changes nothing.  It accepts exactly the
  non-empty buffers below the last page of the lower half of which every byte lies in a page
  mapped for user mode; a buffer it accepts is returned as it was given.\<close>

theorem try_from_user_exact:
  assumes "x86_64_contract C" and "pt_inv ok free m (cr3 m)"
  shows "\<exists>res. try_from_user C 1 1 ptr len m = Inr (res, m) \<and>
    (\<forall>b. res = Inr b \<longleftrightarrow> ptr = Some (fst b) \<and> snd b = len \<and> 0 < len \<and>
       unat (fst b) + unat len \<le> unat user_limit \<and>
       (\<forall>i < unat len. user_page m (containing_address (fst b + of_nat i))))"
  using assms by (rule try_from_user_spec)

theorem try_from_user_exact_witness:
  "try_from_user (sample_crates True) 1 1 (Some 0x400010) 32 mapped_machine = Inr (Inr (0x400010, 32), mapped_machine)"
proof -
  have inv: "pt_inv list_ok set mapped_machine (cr3 mapped_machine)" using mapped_inv by simp
  have "user_page mapped_machine (nth_page 0x400)"
    using mapped_walk by (simp add: user_page_def pte_user_def bit_numeral_word_iff)
  moreover have "containing_address (0x400010 + of_nat i) = nth_page 0x400" if "i < 32" for i
  proof -
    have "unat (0x400010 + of_nat i :: u64) = 0x400010 + i"
      using that by (simp add: unat_word_ariths unat_of_nat take_bit_nat_eq_self)
    then show ?thesis using that by (simp add: containing_nth_page nth_page_def word_unat_eq_iff unat_div)
  qed
  ultimately have "\<forall>i < unat (32 :: u64). user_page mapped_machine (containing_address (0x400010 + of_nat i))" by simp
  moreover obtain res where "try_from_user (sample_crates True) 1 1 (Some 0x400010) 32 mapped_machine = Inr (res, mapped_machine)"
    "\<forall>b. res = Inr b \<longleftrightarrow> Some 0x400010 = Some (fst b) \<and> snd b = 32 \<and> (0 :: u64) < 32 \<and>
       unat (fst b) + unat (32 :: u64) \<le> unat user_limit \<and>
       (\<forall>i < unat (32 :: u64). user_page mapped_machine (containing_address (fst b + of_nat i)))"
    using try_from_user_exact[OF sample_x86_64 inv, of True "Some 0x400010" 32] by blast
  ultimately show ?thesis by (simp add: user_limit_def)
qed

end
