(* ===== verification/Utf8.thy ===== *)
theory Utf8
  imports Prelude
begin

text \<open>
  The encoding of \<open>str\<close>: \<open>core::str::from_utf8\<close>, which the system call \<open>Print\<close> uses to check
  the bytes of a user's buffer, and the encoder that makes the bytes of a string.  A \<open>char\<close> is its
  code point, which is not a surrogate.  The decoder accepts exactly the sequences that the
  standard calls well-formed: no overlong forms, no surrogates, nothing above \<open>0x10FFFF\<close>.
\<close>

section \<open>Definitions\<close>

type_synonym code_point = "32 word"

definition is_char :: "code_point \<Rightarrow> bool" where
  "is_char c \<longleftrightarrow> c < 0xD800 \<or> 0xDFFF < c \<and> c \<le> 0x10FFFF"

text \<open>A continuation byte that carries the six bits of \<open>w\<close> from position \<open>n\<close>.\<close>

definition cont_byte :: "nat \<Rightarrow> code_point \<Rightarrow> u8" where
  "cont_byte n w = 0x80 + ucast (drop_bit n w AND 0x3F)"

definition utf8_encode_char :: "code_point \<Rightarrow> u8 list" where
  "utf8_encode_char c =
     (if c < 0x80 then [ucast c]
      else if c < 0x800 then [0xC0 + ucast (drop_bit 6 c), cont_byte 0 c]
      else if c < 0x10000 then [0xE0 + ucast (drop_bit 12 c), cont_byte 6 c, cont_byte 0 c]
      else [0xF0 + ucast (drop_bit 18 c), cont_byte 12 c, cont_byte 6 c, cont_byte 0 c])"

definition utf8_encode :: "code_point list \<Rightarrow> u8 list" where
  "utf8_encode cs = concat (map utf8_encode_char cs)"

definition is_cont :: "u8 \<Rightarrow> bool" where
  "is_cont b \<longleftrightarrow> 0x80 \<le> b \<and> b \<le> 0xBF"

text \<open>The six bits of a continuation byte, shifted into place.\<close>

definition cont_bits :: "nat \<Rightarrow> u8 \<Rightarrow> code_point" where
  "cont_bits n b = push_bit n (ucast b - 0x80)"

text \<open>\<open>from_utf8\<close>: the code points of a well-formed sequence.\<close>

fun from_utf8 :: "u8 list \<Rightarrow> code_point list option" where
  "from_utf8 [] = Some []"
| "from_utf8 (a # bs) =
     (if a < 0x80 then map_option ((#) (ucast a)) (from_utf8 bs)
      else if 0xC2 \<le> a \<and> a \<le> 0xDF then (case bs of
          b # bs' \<Rightarrow> if is_cont b
            then map_option ((#) (push_bit 6 (ucast a - 0xC0) + cont_bits 0 b)) (from_utf8 bs') else None
        | _ \<Rightarrow> None)
      else if 0xE0 \<le> a \<and> a \<le> 0xEF then (case bs of
          b # c # bs' \<Rightarrow> if is_cont b \<and> is_cont c \<and> (a = 0xE0 \<longrightarrow> 0xA0 \<le> b) \<and> (a = 0xED \<longrightarrow> b \<le> 0x9F)
            then map_option ((#) (push_bit 12 (ucast a - 0xE0) + cont_bits 6 b + cont_bits 0 c)) (from_utf8 bs')
            else None
        | _ \<Rightarrow> None)
      else if 0xF0 \<le> a \<and> a \<le> 0xF4 then (case bs of
          b # c # d # bs' \<Rightarrow> if is_cont b \<and> is_cont c \<and> is_cont d \<and> (a = 0xF0 \<longrightarrow> 0x90 \<le> b) \<and> (a = 0xF4 \<longrightarrow> b \<le> 0x8F)
            then map_option ((#) (push_bit 18 (ucast a - 0xF0) + cont_bits 12 b + cont_bits 6 c + cont_bits 0 d)) (from_utf8 bs')
            else None
        | _ \<Rightarrow> None)
      else None)"

declare from_utf8.simps(2) [simp del]

section \<open>Round trip\<close>

text \<open>Everything in terms of numbers: a byte of the encoding as a number.\<close>

lemma unat_drop_bit: "unat (drop_bit n (w :: 'a::len word)) = unat w div 2 ^ n"
proof -
  have "take_bit LENGTH('a) (unat w) = unat w" using unat_bound[of w] by (rule take_bit_nat_eq_self)
  then show ?thesis unfolding unsigned_drop_bit_eq by (simp add: drop_bit_eq_div)
qed

lemma unat_and_63: "unat ((w :: code_point) AND 0x3F) = unat w mod 64"
proof -
  have "w AND 0x3F = take_bit 6 w" by (simp add: take_bit_eq_mask mask_eq_exp_minus_1)
  then show ?thesis by (simp add: take_bit_eq_mod unat_mod)
qed

lemma unat_cont_byte: "unat (cont_byte n w) = 128 + unat w div 2 ^ n mod 64"
proof -
  have d: "unat (drop_bit n w AND 0x3F) = unat w div 2 ^ n mod 64"
    unfolding unat_and_63 unat_drop_bit ..
  then have "unat (ucast (drop_bit n w AND 0x3F) :: u8) = unat w div 2 ^ n mod 64"
    by (simp add: unsigned_ucast_eq take_bit_nat_eq_self del: ucast_drop_bit_eq)
  then show ?thesis by (simp add: cont_byte_def unat_word_ariths)
qed

lemma is_cont_cont_byte: "is_cont (cont_byte n w)"
  by (simp add: is_cont_def word_le_nat_alt unat_cont_byte)

lemma unat_lead_byte:
  assumes "unat k + unat (c :: code_point) div 2 ^ n < 256"
  shows "unat (k + ucast (drop_bit n c) :: u8) = unat k + unat c div 2 ^ n"
proof -
  have "unat (ucast (drop_bit n c) :: u8) = unat c div 2 ^ n"
    using assms by (simp add: unsigned_ucast_eq unat_drop_bit take_bit_nat_eq_self del: ucast_drop_bit_eq)
  then show ?thesis using assms by (simp add: unat_word_ariths)
qed

lemma unat_shifted_bits:
  assumes "k \<le> unat b" and "unat b < k + 64" and "n \<le> 18" and "unat (k' :: code_point) = k"
  shows "unat (push_bit n (ucast (b :: u8) - k') :: code_point) = (unat b - k) * 2 ^ n"
proof -
  have u: "unat (ucast b :: code_point) = unat b"
    using unat_bound[of b] by (simp add: unsigned_ucast_eq take_bit_nat_eq_self)
  then have d: "unat ((ucast b :: code_point) - k') = unat b - k"
    using assms(1,4) by (simp add: unat_sub word_le_nat_alt)
  have "(unat b - k) * 2 ^ n < 64 * 2 ^ 18"
    using assms(1-3) by (intro mult_less_le_imp_less power_increasing) auto
  then show ?thesis
    using assms(3) d by (simp add: push_bit_eq_mult unat_word_ariths unat_exp)
qed

lemma unat_cont_bits:
  "n \<le> 18 \<Longrightarrow> unat (cont_bits n (cont_byte k w)) = unat w div 2 ^ k mod 64 * 2 ^ n"
  unfolding cont_bits_def by (subst unat_shifted_bits[where k = 128]) (auto simp: unat_cont_byte)

lemma six_bits: "(n :: nat) div 64 * 64 + n mod 64 = n"
  "n div 4096 * 4096 + n div 64 mod 64 * 64 + n mod 64 = n"
  "n div 262144 * 262144 + n div 4096 mod 64 * 4096 + n div 64 mod 64 * 64 + n mod 64 = n"
proof -
  show 1: "m div 64 * 64 + m mod 64 = m" for m :: nat by simp
  have d: "n div 4096 = n div 64 div 64" "n div 262144 = n div 64 div 64 div 64" by (simp_all add: div_mult2_eq)
  show "n div 4096 * 4096 + n div 64 mod 64 * 64 + n mod 64 = n"
    unfolding d using 1[of "n div 64"] 1[of n] by linarith
  show "n div 262144 * 262144 + n div 4096 mod 64 * 4096 + n div 64 mod 64 * 64 + n mod 64 = n"
    unfolding d using 1[of "n div 64 div 64"] 1[of "n div 64"] 1[of n] by linarith
qed

lemma from_utf8_two:
  assumes "\<not> c < 0x80" and "c < 0x800"
  shows "from_utf8 (utf8_encode_char c @ bs) = map_option ((#) c) (from_utf8 bs)"
proof -
  let ?a = "0xC0 + ucast (drop_bit 6 c) :: u8" and ?b = "cont_byte 0 c"
  have n: "128 \<le> unat c" "unat c < 2048" using assms by (simp_all add: word_less_nat_alt)
  have a: "unat ?a = 192 + unat c div 64" using unat_lead_byte[of "0xC0" c 6] n by simp
  have r: "\<not> ?a < 0x80" "0xC2 \<le> ?a" "?a \<le> 0xDF"
    using a n by (simp_all add: word_less_nat_alt word_le_nat_alt del: ucast_drop_bit_eq)
  have "unat (push_bit 6 (ucast ?a - 0xC0) :: code_point) = unat c div 64 * 64"
    by (subst unat_shifted_bits[where k = 192]) (use a n in \<open>auto simp del: ucast_drop_bit_eq\<close>)
  then have "push_bit 6 (ucast ?a - 0xC0) + cont_bits 0 ?b = c"
    using unat_cont_bits[of 0 0 c] n six_bits(1)[of "unat c"]
    by (simp add: word_unat_eq_iff unat_word_ariths del: ucast_drop_bit_eq)
  then show ?thesis
    using assms r is_cont_cont_byte[of 0 c]
    by (simp add: utf8_encode_char_def from_utf8.simps(2) del: ucast_drop_bit_eq)
qed

lemma from_utf8_three:
  assumes "\<not> c < 0x800" and "c < 0x10000" and "is_char c"
  shows "from_utf8 (utf8_encode_char c @ bs) = map_option ((#) c) (from_utf8 bs)"
proof -
  let ?a = "0xE0 + ucast (drop_bit 12 c) :: u8" and ?b = "cont_byte 6 c" and ?c = "cont_byte 0 c"
  have n: "2048 \<le> unat c" "unat c < 65536" using assms by (simp_all add: word_less_nat_alt)
  have a: "unat ?a = 224 + unat c div 4096" using unat_lead_byte[of "0xE0" c 12] n by simp
  have b: "unat ?b = 128 + unat c div 64 mod 64" using unat_cont_byte[of 6 c] by simp
  have r: "\<not> ?a < 0x80" "\<not> ?a \<le> 0xDF" "0xE0 \<le> ?a" "?a \<le> 0xEF"
    using a n by (simp_all add: word_less_nat_alt word_le_nat_alt del: ucast_drop_bit_eq)
  have over: "0xA0 \<le> ?b" if "?a = 0xE0"
  proof -
    have "unat c div 4096 = 0" using a that by simp
    then have "unat c div 64 mod 64 = unat c div 64" by (simp add: div_mult2_eq[of _ 64 64, simplified])
    then show ?thesis using b n by (simp add: word_le_nat_alt)
  qed
  have surr: "?b \<le> 0x9F" if "?a = 0xED"
  proof -
    have "unat c div 4096 = 13" using a that by simp
    moreover have "unat c < 0xD800 \<or> 0xDFFF < unat c" using assms(3) by (auto simp: is_char_def word_less_nat_alt)
    ultimately have "unat c < 0xD800" by auto
    then have "unat c div 64 < 864" by simp
    moreover have "unat c div 64 = 832 + unat c div 64 mod 64"
      using \<open>unat c div 4096 = 13\<close> mult_div_mod_eq[of 64 "unat c div 64"] by (simp add: div_mult2_eq[of _ 64 64, simplified])
    ultimately show ?thesis using b by (simp add: word_le_nat_alt)
  qed
  have "unat (push_bit 12 (ucast ?a - 0xE0) :: code_point) = unat c div 4096 * 4096"
    by (subst unat_shifted_bits[where k = 224]) (use a n in \<open>auto simp del: ucast_drop_bit_eq\<close>)
  then have "push_bit 12 (ucast ?a - 0xE0) + cont_bits 6 ?b + cont_bits 0 ?c = c"
    using unat_cont_bits[of 0 0 c] unat_cont_bits[of 6 6 c] n six_bits(2)[of "unat c"]
    by (simp add: word_unat_eq_iff unat_word_ariths del: ucast_drop_bit_eq)
  then show ?thesis
    using assms r over surr is_cont_cont_byte[of 0 c] is_cont_cont_byte[of 6 c]
    by (simp add: utf8_encode_char_def from_utf8.simps(2) word_less_nat_alt del: ucast_drop_bit_eq)
qed

lemma from_utf8_four:
  assumes "\<not> c < 0x10000" and "is_char c"
  shows "from_utf8 (utf8_encode_char c @ bs) = map_option ((#) c) (from_utf8 bs)"
proof -
  let ?a = "0xF0 + ucast (drop_bit 18 c) :: u8"
    and ?b = "cont_byte 12 c" and ?c = "cont_byte 6 c" and ?d = "cont_byte 0 c"
  have n: "65536 \<le> unat c" "unat c \<le> 0x10FFFF"
    using assms by (auto simp: word_less_nat_alt word_le_nat_alt is_char_def)
  have a: "unat ?a = 240 + unat c div 262144" using unat_lead_byte[of "0xF0" c 18] n by simp
  have b: "unat ?b = 128 + unat c div 4096 mod 64" using unat_cont_byte[of 12 c] by simp
  have split: "unat c div 4096 = unat c div 262144 * 64 + unat c div 4096 mod 64"
    using div_mult_mod_eq[of "unat c div 4096" 64] by (simp add: div_mult2_eq[of _ 4096 64, simplified])
  have r: "\<not> ?a < 0x80" "\<not> ?a \<le> 0xDF" "\<not> ?a \<le> 0xEF" "0xF0 \<le> ?a" "?a \<le> 0xF4"
    using a n by (simp_all add: word_less_nat_alt word_le_nat_alt del: ucast_drop_bit_eq)
  have over: "0x90 \<le> ?b" if "?a = 0xF0"
    using a b n split that by (simp add: word_le_nat_alt)
  have top: "?b \<le> 0x8F" if "?a = 0xF4"
    using a b n split that by (simp add: word_le_nat_alt)
  have "unat (push_bit 18 (ucast ?a - 0xF0) :: code_point) = unat c div 262144 * 262144"
    by (subst unat_shifted_bits[where k = 240]) (use a n in \<open>auto simp del: ucast_drop_bit_eq\<close>)
  then have "push_bit 18 (ucast ?a - 0xF0) + cont_bits 12 ?b + cont_bits 6 ?c + cont_bits 0 ?d = c"
    using unat_cont_bits[of 0 0 c] unat_cont_bits[of 6 6 c] unat_cont_bits[of 12 12 c] n six_bits(3)[of "unat c"]
    by (simp add: word_unat_eq_iff unat_word_ariths del: ucast_drop_bit_eq)
  then show ?thesis
    using assms r over top is_cont_cont_byte[of 0 c] is_cont_cont_byte[of 6 c] is_cont_cont_byte[of 12 c]
    by (simp add: utf8_encode_char_def from_utf8.simps(2) word_less_nat_alt del: ucast_drop_bit_eq)
qed

lemma from_utf8_char:
  assumes "is_char c"
  shows "from_utf8 (utf8_encode_char c @ bs) = map_option ((#) c) (from_utf8 bs)"
proof -
  have "from_utf8 (utf8_encode_char c @ bs) = map_option ((#) c) (from_utf8 bs)" if "c < 0x80"
  proof -
    have "unat c < 128" using that by (simp add: word_less_nat_alt)
    then have "unat (ucast c :: u8) = unat c" by (simp add: unsigned_ucast_eq take_bit_nat_eq_self)
    moreover from this \<open>unat c < 128\<close> have "ucast (ucast c :: u8) = c"
      by (simp add: word_unat_eq_iff unsigned_ucast_eq take_bit_eq_mod unat_mod)
    ultimately show ?thesis using that \<open>unat c < 128\<close>
      by (simp add: utf8_encode_char_def from_utf8.simps(2) word_less_nat_alt)
  qed
  then show ?thesis using assms from_utf8_two from_utf8_three from_utf8_four by blast
qed

lemma from_utf8_encode: "\<forall>c \<in> set cs. is_char c \<Longrightarrow> from_utf8 (utf8_encode cs) = Some cs"
  by (induction cs) (simp_all add: utf8_encode_def from_utf8_char)

end
