(* ===== verification/Syscall.thy ===== *)
theory Syscall
  imports Logging Buffer Utf8
begin

text \<open>
  \<open>kernel/src/syscall.rs\<close>: system calls.  \<open>syscall_handler\<close> reads its arguments from the kernel stack
  as the code does; \<open>syscall_callback\<close> is the assembly around it, instruction by
  instruction, whose pushes and pops go through the MMU.  The instructions \<open>syscall\<close> and
  \<open>sysretq\<close> follow the architecture.  Interrupts that arrive while the handler runs are not
  modelled.  \<open>Star::write\<close> of the \<open>x86_64\<close> crate is an argument.
\<close>

section \<open>Numbers and codes\<close>

datatype Syscall = Halt | Map | Unmap | Print

definition syscall_from_u64 :: "u64 \<Rightarrow> Syscall option" where
  "syscall_from_u64 v =
     (if v = 0 then Some Halt else if v = 1 then Some Map else if v = 2 then Some Unmap
      else if v = 3 then Some Print else None)"

datatype SysError = InvalidBuffer | InvalidUtf8 | InvalidPage | InvalidPagesLength | SysOutOfMemory

primrec sys_error_code :: "SysError \<Rightarrow> u64" where
  "sys_error_code InvalidBuffer = - 1"
| "sys_error_code InvalidUtf8 = - 2"
| "sys_error_code InvalidPage = - 3"
| "sys_error_code InvalidPagesLength = - 4"
| "sys_error_code SysOutOfMemory = - 5"

definition USER_WRITABLE :: u64 where "USER_WRITABLE = 1"
definition USER_EXECUTABLE :: u64 where "USER_EXECUTABLE = 2"

definition user_flags_from_bits_truncate :: "u64 \<Rightarrow> u64" where
  "user_flags_from_bits_truncate b = b AND (USER_WRITABLE OR USER_EXECUTABLE)"

definition entry_flags_from_user :: "u64 \<Rightarrow> u64" where
  "entry_flags_from_user user =
     (let f0 = PRESENT OR USER_ACCESSIBLE;
          f1 = (if contains user USER_WRITABLE then f0 OR WRITABLE else f0)
      in if \<not> contains user USER_EXECUTABLE then f1 OR NO_EXECUTE else f1)"

section \<open>The handler\<close>

text \<open>\<open>from_raw_parts(argv, argc)\<close>: the words from \<open>argv\<close>, read when they are used.\<close>

definition read_arg :: "u64 \<Rightarrow> u64 \<Rightarrow> u64 \<Rightarrow> (('t, 'z) machine_scheme, u64) comp" where
  "read_arg argv argc i = (if i < argc then vread (argv + 8 * i) else stop_with Out_of_bounds)"

definition syscall_map :: "'t crates \<Rightarrow> u64 \<Rightarrow> u64 \<Rightarrow> u64 \<Rightarrow> (('t, 'z) machine_scheme, u64) comp" where
  "syscall_map C addr_begin len flags =
     (let chk = overflow_checks C in
      if addr_begin AND 0xFFF \<noteq> 0 then ret (sys_error_code InvalidPage)
      else if len = 0 then ret (sys_error_code InvalidPagesLength)
      else
        bind (sub_ck chk len 1) (\<lambda>n.
        bind (page_add chk (containing_address addr_begin) n) (\<lambda>page_end.
        bind (try_map_user_range C (containing_address addr_begin) page_end
               (entry_flags_from_user (user_flags_from_bits_truncate flags)) Invalidate False Zero) (\<lambda>res.
        ret (case res of Inr _ \<Rightarrow> 0 | Inl _ \<Rightarrow> sys_error_code InvalidPage)))))"

definition syscall_unmap :: "u64 \<Rightarrow> u64 \<Rightarrow> ('s, u64) comp" where
  "syscall_unmap addr_begin len =
     (if addr_begin AND 0xFFF \<noteq> 0 then ret (sys_error_code InvalidPage)
      else if len = 0 then ret (sys_error_code InvalidPagesLength)
      else stop_with (Panic ''not yet implemented''))"

definition syscall_print :: "'t crates \<Rightarrow> u64 \<Rightarrow> u64 \<Rightarrow> (('t, 'd, 'g, 'z) kernel_scheme, u64) comp" where
  "syscall_print C ptr len =
     bind (try_from_user C 1 1 (if ptr = 0 then None else Some ptr) len) (\<lambda>res. case res of
       Inl _ \<Rightarrow> ret (sys_error_code InvalidBuffer)
     | Inr (p, n) \<Rightarrow>
         bind (read_slice p (unat n)) (\<lambda>bytes. case from_utf8 bytes of
           None \<Rightarrow> ret (sys_error_code InvalidUtf8)
         | Some string \<Rightarrow> bind (on_vga (write_str (overflow_checks C) string)) (\<lambda>_. ret 0)))"

definition syscall_handler :: "'t crates \<Rightarrow> uart_crate \<Rightarrow> u64 \<Rightarrow> u64 \<Rightarrow> u64
    \<Rightarrow> (('t, 'd, 'g, 'z) kernel_scheme, u64) comp" where
  "syscall_handler C U number_of_call argv argc =
     bind (expect (syscall_from_u64 number_of_call) unwrap_none) (\<lambda>call. case call of
       Halt \<Rightarrow> bind (log_info (overflow_checks C) U (str ''Got system call halt'')) (\<lambda>_. halt)
     | Map \<Rightarrow>
         bind (read_arg argv argc 0) (\<lambda>addr_begin.
         bind (read_arg argv argc 1) (\<lambda>len.
         bind (read_arg argv argc 2) (\<lambda>flags.
         syscall_map C addr_begin len flags)))
     | Unmap \<Rightarrow>
         bind (read_arg argv argc 0) (\<lambda>addr_begin.
         bind (read_arg argv argc 1) (\<lambda>len.
         syscall_unmap addr_begin len))
     | Print \<Rightarrow>
         bind (read_arg argv argc 0) (\<lambda>ptr.
         bind (read_arg argv argc 1) (\<lambda>len.
         syscall_print C ptr len)))"

section \<open>Entry and exit\<close>

definition push_reg :: "(cpu \<Rightarrow> u64) \<Rightarrow> (('t, 'd, 'g, 'z) kernel_scheme, unit) comp" where
  "push_reg r =
     bind (gets (\<lambda>k. r (cpu k))) (\<lambda>v.
     bind (gets (\<lambda>k. rsp (cpu k) - 8)) (\<lambda>sp.
     bind (vwrite sp v) (\<lambda>_. set_cpu (\<lambda>c. c\<lparr>rsp := sp\<rparr>))))"

definition pop_reg :: "(u64 \<Rightarrow> cpu \<Rightarrow> cpu) \<Rightarrow> (('t, 'd, 'g, 'z) kernel_scheme, unit) comp" where
  "pop_reg upd =
     bind (gets (\<lambda>k. rsp (cpu k))) (\<lambda>sp.
     bind (vread sp) (\<lambda>v. set_cpu (\<lambda>c. (upd v c)\<lparr>rsp := sp + 8\<rparr>)))"

definition INTERRUPT_FLAG :: u64 where "INTERRUPT_FLAG = 0x200"

text \<open>The instruction \<open>syscall\<close>: the return address and the flags are saved in \<open>rcx\<close> and \<open>r11\<close>, the
  flags of \<open>SFMASK\<close> are cleared.  \<open>sysretq\<close> restores both.\<close>

definition syscall_instruction :: "(('t, 'd, 'g, 'z) kernel_scheme, unit) comp" where
  "syscall_instruction = set_cpu (\<lambda>c. c\<lparr>rcx := rip c, r11 := rflags c, rip := lstar c,
     rflags := rflags c AND NOT (sfmask c)\<rparr>)"

definition sysretq :: "(('t, 'd, 'g, 'z) kernel_scheme, unit) comp" where
  "sysretq = set_cpu (\<lambda>c. c\<lparr>rip := rcx c, rflags := r11 c\<rparr>)"

text \<open>\<open>left\<close> holds what the compiled handler leaves in the registers it need not preserve; its frames
  on the kernel stack, below the arguments, are not modelled.\<close>

definition syscall_callback :: "'t crates \<Rightarrow> uart_crate \<Rightarrow> cpu
    \<Rightarrow> (('t, 'd, 'g, 'z) kernel_scheme, unit) comp" where
  "syscall_callback C U left =
     bind (modify (\<lambda>k. k\<lparr>user_rsp := rsp (cpu k)\<rparr>)) (\<lambda>_.
     bind (modify (\<lambda>k. k\<lparr>cpu := (cpu k)\<lparr>rsp := syscall_stack k\<rparr>\<rparr>)) (\<lambda>_.
     bind (push_reg rcx) (\<lambda>_.
     bind (push_reg r11) (\<lambda>_.
     bind (push_reg rdx) (\<lambda>_.
     bind (push_reg rsi) (\<lambda>_.
     bind (push_reg rdi) (\<lambda>_.
     bind (set_cpu (\<lambda>c. c\<lparr>rflags := rflags c OR INTERRUPT_FLAG\<rparr>)) (\<lambda>_.
     bind (set_cpu (\<lambda>c. c\<lparr>rsi := rsp c\<rparr>)) (\<lambda>_.
     bind (set_cpu (\<lambda>c. c\<lparr>rdx := 3\<rparr>)) (\<lambda>_.
     bind (set_cpu (\<lambda>c. c\<lparr>rdi := rax c\<rparr>)) (\<lambda>_.
     bind (gets cpu) (\<lambda>c.
     bind (syscall_handler C U (rdi c) (rsi c) (rdx c)) (\<lambda>r.
     bind (set_cpu (\<lambda>c. c\<lparr>rax := r, rcx := rcx left, rdx := rdx left, rsi := rsi left, rdi := rdi left,
       r11 := r11 left, rflags := rflags left\<rparr>)) (\<lambda>_.
     bind (pop_reg (\<lambda>v c. c\<lparr>rdi := v\<rparr>)) (\<lambda>_.
     bind (pop_reg (\<lambda>v c. c\<lparr>rsi := v\<rparr>)) (\<lambda>_.
     bind (pop_reg (\<lambda>v c. c\<lparr>rdx := v\<rparr>)) (\<lambda>_.
     bind (pop_reg (\<lambda>v c. c\<lparr>r11 := v\<rparr>)) (\<lambda>_.
     bind (pop_reg (\<lambda>v c. c\<lparr>rcx := v\<rparr>)) (\<lambda>_.
     bind (modify (\<lambda>k. k\<lparr>cpu := (cpu k)\<lparr>rsp := user_rsp k\<rparr>\<rparr>)) (\<lambda>_.
     sysretq))))))))))))))))))))"

section \<open>\<open>setup_syscall\<close>\<close>

text \<open>\<open>Star::write\<close> gives the value of the register, or an error.\<close>

definition setup_syscall :: "'g gdt_crate \<Rightarrow> (u16 \<Rightarrow> u16 \<Rightarrow> u16 \<Rightarrow> u16 \<Rightarrow> u64 option) \<Rightarrow> 't crates \<Rightarrow> u64
    \<Rightarrow> (('t, 'd, 'g, 'z) kernel_scheme, unit) comp" where
  "setup_syscall G star_write C callback =
     bind the_tss (\<lambda>t.
     bind (if 0 < length (privilege_stack_table (tss_segment t)) then ret () else stop_with Out_of_bounds) (\<lambda>_.
     bind (modify (\<lambda>k. k\<lparr>syscall_stack := privilege_stack_table (tss_segment t) ! 0\<rparr>)) (\<lambda>_.
     bind (set_cpu (\<lambda>c. c\<lparr>efer := efer c OR 1\<rparr>)) (\<lambda>_.
     bind (expect (virt_addr_try_new C callback) ''address passed to VirtAddr::new is not canonical'') (\<lambda>a.
     bind (set_cpu (\<lambda>c. c\<lparr>lstar := a\<rparr>)) (\<lambda>_.
     bind (the_gdt G) (\<lambda>gd.
     let s = gdt_selectors gd in
     bind (expect (star_write (user_cs s) (user_ds s) (kernel_cs s) (kernel_ds s))
            ''called Result::unwrap() on an Err value'') (\<lambda>v.
     bind (set_cpu (\<lambda>c. c\<lparr>star := v\<rparr>)) (\<lambda>_.
     set_cpu (\<lambda>c. c\<lparr>sfmask := INTERRUPT_FLAG\<rparr>))))))))))"

end
