(* ===== verification/Process.thy ===== *)
theory Process
  imports Syscall
begin

text \<open>
  \<open>kernel/src/process.rs\<close>: starting and running processes.  \<open>Elf::parse\<close> of the \<open>goblin\<close> crate
  is an argument \<open>elf_parse\<close>; what the kernel reads of a parsed file is the record \<open>elf\<close>.  The
  memory that the crates themselves take from the heap is not modelled.  Entering user mode ends in
  the state in which the first instruction of the process runs.
\<close>

section \<open>Process identifiers\<close>

definition next_process_id :: "(('t, 'd, 'g, 'z) kernel_scheme, u64) comp" where
  "next_process_id =
     bind (gets next_pid) (\<lambda>pid.
     bind (modify (\<lambda>k. k\<lparr>next_pid := pid + 1\<rparr>)) (\<lambda>_.
     bind (panic_unless (pid < - 1) ''Ran out of process ids. This should never happen'') (\<lambda>_.
     ret pid)))"

section \<open>Loading an ELF file\<close>

datatype ElfLaunchError =
    NotExecutable | Not64Bit | NotStaticallyLinked | LaunchInvalidPage TryMapError
  | InvalidEntryPoint u64 | ParseError string | InvalidHeaderRange u64 u64

text \<open>The ranges that \<open>vm_range\<close> and \<open>file_range\<close> of a program header give.\<close>

record program_header =
  p_type :: "32 word"
  vm_start :: u64
  vm_end :: u64
  file_start :: u64
  file_end :: u64
  is_executable :: bool
  is_write :: bool

record elf =
  is_lib :: bool
  entry_point :: u64
  is_64 :: bool
  libraries :: "string list"
  program_headers :: "program_header list"

definition PT_LOAD :: "32 word" where "PT_LOAD = 1"

definition segment_flags :: "program_header \<Rightarrow> u64" where
  "segment_flags h =
     (let f0 = USER_ACCESSIBLE;
          f1 = (if \<not> is_executable h then f0 OR NO_EXECUTE else f0)
      in if is_write h then f1 OR WRITABLE else f1)"

text \<open>\<open>data.get(a..b)\<close>\<close>

definition get_range :: "'a list \<Rightarrow> u64 \<Rightarrow> u64 \<Rightarrow> 'a list option" where
  "get_range data a b =
     (if a \<le> b \<and> unat b \<le> length data then Some (take (unat b - unat a) (drop (unat a) data)) else None)"

text \<open>The body of the loop over the program headers.\<close>

definition load_header :: "'t crates \<Rightarrow> u8 list \<Rightarrow> program_header
    \<Rightarrow> (('t, 'z) machine_scheme, ElfLaunchError + unit) comp" where
  "load_header C data h =
     (if p_type h \<noteq> PT_LOAD then ret (Inr ()) else
      if vm_start h \<le> 0 \<and> 0 < vm_end h
      then ret (Inl (LaunchInvalidPage (InvalidAddress (containing_address 0)))) else
      let page_start = containing_address (vm_start h) in
      bind (sub_ck (overflow_checks C) (vm_end h) 1) (\<lambda>last_byte.
      let page_end = containing_address last_byte in
      bind (try_map_user_range C page_start page_end WRITABLE NoInvalidate True NoZero) (\<lambda>r. case r of
        Inl e \<Rightarrow> ret (Inl (LaunchInvalidPage e))
      | Inr _ \<Rightarrow> (case get_range data (file_start h) (file_end h) of
            None \<Rightarrow> ret (Inl (InvalidHeaderRange (file_start h) (file_end h)))
          | Some src_slice \<Rightarrow>
              if unat (vm_end h) - unat (vm_start h) \<noteq> length src_slice
              then ret (Inl (InvalidHeaderRange (file_start h) (file_end h)))
              else
                bind (write_slice (vm_start h) src_slice) (\<lambda>_.
                bind (set_flags C page_start page_end (segment_flags h) NoInvalidate) (\<lambda>_.
                ret (Inr ())))))))"

definition new_process_page_tables :: "'t crates \<Rightarrow> (('t, 'z) machine_scheme, inactive_page_map) comp" where
  "new_process_page_tables C =
     bind (temporary_page_new C) (\<lambda>temp.
     bind (phys_allocate C 0) (\<lambda>f.
     bind (expect f ''no more frames'') (\<lambda>frame.
     bind (gets cr3_flags) (\<lambda>flags.
     bind (inactive_page_map_new C frame flags temp) (\<lambda>new_table.
     bind (read_entry P4 511) (\<lambda>kernel_pml4_entry.
     bind (map_table_frame C temp frame) (\<lambda>table.
     bind (write_entry table 511 kernel_pml4_entry) (\<lambda>_.
     bind (temporary_page_unmap C temp) (\<lambda>_.
     bind (temporary_page_drop C temp) (\<lambda>_.
     ret new_table))))))))))"

text \<open>The checks of the file before anything is allocated.\<close>

definition elf_error :: "elf \<Rightarrow> ElfLaunchError option" where
  "elf_error e =
     (if is_lib e \<or> entry_point e = 0 then Some NotExecutable
      else if \<not> is_64 e then Some Not64Bit
      else if libraries e \<noteq> [] then Some NotStaticallyLinked
      else None)"

definition spawn_from_elf :: "'t crates \<Rightarrow> 'd process_map \<Rightarrow> (u8 list \<Rightarrow> string + elf) \<Rightarrow> u8 list
    \<Rightarrow> (('t, 'd, 'g, 'z) kernel_scheme, ElfLaunchError + u64) comp" where
  "spawn_from_elf C D elf_parse data = (case elf_parse data of
       Inl e \<Rightarrow> ret (Inl (ParseError e))
     | Inr elf \<Rightarrow> (case elf_error elf of
         Some e \<Rightarrow> ret (Inl e)
       | None \<Rightarrow>
           bind (new_process_page_tables C) (\<lambda>tables0.
           bind_res (with_inactive tables0 (for_each_res (program_headers elf) (load_header C data))) (\<lambda>tables.
             if drop_bit 63 (entry_point elf) = 1 \<or> virt_addr_try_new C (entry_point elf) = None
             then ret (Inl (InvalidEntryPoint (entry_point elf)))
             else
               bind (expect (virt_addr_try_new C (entry_point elf))
                      ''address passed to VirtAddr::new is not canonical'') (\<lambda>ip.
               bind next_process_id (\<lambda>pid.
               bind (modify (\<lambda>k. k\<lparr>processes := pm_insert D pid \<lparr>page_tables = tables, stack_ptr = STACK_TOP,
                      instruction_ptr = ip, io_port_ranges = [], new_process = True\<rparr> (processes k)\<rparr>)) (\<lambda>_.
               ret (Inr pid))))))))"

section \<open>Running a process\<close>

text \<open>\<open>setup\<close>: the user stack.\<close>

definition process_setup :: "'t crates \<Rightarrow> (('t, 'z) machine_scheme, OutOfMemory + unit) comp" where
  "process_setup C =
     map_range C (containing_address STACK_BOTTOM) (containing_address STACK_TOP)
       (WRITABLE OR USER_ACCESSIBLE OR NO_EXECUTE) NoInvalidate Zero"

text \<open>\<open>iretq\<close> pops the instruction pointer, the code segment, the flags, the stack pointer and the
  stack segment.\<close>

definition iretq :: "(('t, 'd, 'g, 'z) kernel_scheme, unit) comp" where
  "iretq =
     bind (gets (\<lambda>k. rsp (cpu k))) (\<lambda>sp.
     bind (vread sp) (\<lambda>ip.
     bind (vread (sp + 8)) (\<lambda>cs.
     bind (vread (sp + 16)) (\<lambda>fl.
     bind (vread (sp + 24)) (\<lambda>usp.
     bind (vread (sp + 32)) (\<lambda>ss.
     bind (set_cpu (\<lambda>c. c\<lparr>rip := ip, rflags := fl, rsp := usp\<rparr>)) (\<lambda>_.
     on_segments (modify (\<lambda>s. s\<lparr>seg_cs := ucast cs, seg_ss := ucast ss\<rparr>)))))))))"

definition jump_usermode :: "u64 \<Rightarrow> u64 \<Rightarrow> (('t, 'd, 'g, 'z) kernel_scheme, unit) comp" where
  "jump_usermode sp ip =
     bind (on_segments (modify (\<lambda>s. s\<lparr>seg_ds := 0x2B, seg_es := 0x2B, seg_fs := 0x2B, seg_gs := 0x2B\<rparr>))) (\<lambda>_.
     bind (push_reg (\<lambda>_. 0x2B)) (\<lambda>_.
     bind (push_reg (\<lambda>_. sp)) (\<lambda>_.
     bind (push_reg rflags) (\<lambda>_.
     bind (push_reg (\<lambda>_. 0x33)) (\<lambda>_.
     bind (push_reg (\<lambda>_. ip)) (\<lambda>_.
     iretq))))))"

definition run_by_pid :: "'t crates \<Rightarrow> 'd process_map \<Rightarrow> u64
    \<Rightarrow> (('t, 'd, 'g, 'z) kernel_scheme, OutOfMemory + unit) comp" where
  "run_by_pid C D pid =
     bind (gets (\<lambda>k. pm_get D pid (processes k))) (\<lambda>p.
     bind (expect p unwrap_none) (\<lambda>this.
     bind (switch (page_tables this)) (\<lambda>_.
     bind_res (if new_process this then
         bind_res (process_setup C) (\<lambda>_.
         bind (modify (\<lambda>k. k\<lparr>processes := pm_update D pid (this\<lparr>new_process := False\<rparr>) (processes k)\<rparr>)) (\<lambda>_.
         ret (Inr ())))
       else ret (Inr ())) (\<lambda>_.
     bind (on_iomap (lock_or_panic (set_port_range_usable (atomic_bitfield C) 0x3F8 (0x3F8 + 7) True))) (\<lambda>_.
     bind (jump_usermode (stack_ptr this) (instruction_ptr this)) (\<lambda>_.
     ret (Inr ())))))))"

end
