(* ===== verification/Physical_Mapping.thy ===== *)
theory Physical_Mapping
  imports Kernel_Heap
begin

text \<open>
  \<open>kernel/src/memory/physical_mapping.rs\<close>: physical regions mapped into the kernel heap.  The type
  parameter \<open>T\<close> is a phantom, a pointer is its address.
\<close>

record physical_mapping =
  physical_start :: u64
  virtual_start :: u64
  mapped_length :: u64
  mutable :: bool

definition map_physical_region :: "'t crates \<Rightarrow> u64 \<Rightarrow> u64 \<Rightarrow> bool
    \<Rightarrow> (('t, 'z) machine_scheme, physical_mapping) comp" where
  "map_physical_region C addr region_size mut =
     (let chk = overflow_checks C; physical_begin_frame = addr div 4096 in
      bind (round_up_divide chk region_size 4096) (\<lambda>frames.
      bind (alloc_specific C physical_begin_frame frames) (\<lambda>alloc_ptr.
      bind (panic_unless (alloc_ptr \<noteq> 0) ''Ran out of heap memory!'') (\<lambda>_.
      bind (add_ck chk alloc_ptr addr) (\<lambda>a.
      bind (mul_ck chk physical_begin_frame 4096) (\<lambda>start.
      bind (sub_ck chk a start) (\<lambda>obj_ptr.
      bind (panic_unless (obj_ptr \<noteq> 0) ''Ran out of heap memory!'') (\<lambda>_.
      bind (mul_ck chk frames 4096) (\<lambda>len.
      ret \<lparr>physical_start = start, virtual_start = obj_ptr, mapped_length = len, mutable = mut\<rparr>)))))))))"

text \<open>\<open>deref\<close> and \<open>deref_mut\<close> give the pointer to the object.\<close>

definition deref :: "physical_mapping \<Rightarrow> u64" where
  "deref p = virtual_start p"

definition deref_mut :: "physical_mapping \<Rightarrow> u64 option" where
  "deref_mut p = (if mutable p then Some (virtual_start p) else None)"

definition physical_mapping_drop :: "'t crates \<Rightarrow> physical_mapping \<Rightarrow> (('t, 'z) machine_scheme, unit) comp" where
  "physical_mapping_drop C p =
     (let page_begin = virtual_start p AND NOT 0xFFF in
      dealloc_specific C page_begin (mapped_length p div 4096))"

text \<open>The mapping type of the \<open>acpi\<close> crate; \<open>into_acpi\<close> forgets its argument, so that
  nothing is unmapped.\<close>

record acpi_mapping =
  acpi_physical_start :: u64
  acpi_virtual_start :: u64
  acpi_region_length :: u64
  acpi_mapped_length :: u64

definition into_acpi :: "physical_mapping \<Rightarrow> acpi_mapping" where
  "into_acpi p = \<lparr>acpi_physical_start = physical_start p, acpi_virtual_start = virtual_start p,
     acpi_region_length = mapped_length p, acpi_mapped_length = mapped_length p\<rparr>"

section \<open>\<open>WolffiaAcpiHandler\<close>\<close>

text \<open>The methods of the handler in \<open>kernel/src/acpi_handler.rs\<close>.\<close>

definition acpi_map_physical_region :: "'t crates \<Rightarrow> u64 \<Rightarrow> u64 \<Rightarrow> (('t, 'z) machine_scheme, acpi_mapping) comp" where
  "acpi_map_physical_region C addr region_size =
     bind (map_physical_region C addr region_size False) (\<lambda>region. ret (into_acpi region))"

definition acpi_unmap_physical_region :: "'t crates \<Rightarrow> acpi_mapping \<Rightarrow> (('t, 'z) machine_scheme, unit) comp" where
  "acpi_unmap_physical_region C region =
     (let page_begin = acpi_virtual_start region AND NOT 0xFFF in
      dealloc_specific C page_begin (acpi_mapped_length region div 4096))"

end
