(* ===== verification/Kmain.thy ===== *)
theory Kmain
  imports Process Physical_Mapping
begin

text \<open>
  \<open>acpi_init\<close> of \<open>kernel/src/acpi_handler.rs\<close> and \<open>kmain\<close> of \<open>kernel/src/lib.rs\<close>: the start of the
  kernel, from the entry by the assembly to the first instruction of the first process.  The
  search for the tables of the \<open>acpi\<close> crate is an argument that gets the methods of the kernel's
  handler.
\<close>

text \<open>An error of the \<open>acpi\<close> crate is its debug output.\<close>

definition acpi_init :: "'t crates \<Rightarrow> uart_crate
    \<Rightarrow> ((u64 \<Rightarrow> u64 \<Rightarrow> (('t, 'd, 'g, 'z) kernel_scheme, acpi_mapping) comp)
        \<Rightarrow> (acpi_mapping \<Rightarrow> (('t, 'd, 'g, 'z) kernel_scheme, unit) comp)
        \<Rightarrow> (('t, 'd, 'g, 'z) kernel_scheme, rstr + 'a) comp)
    \<Rightarrow> (('t, 'd, 'g, 'z) kernel_scheme, rstr + 'a) comp" where
  "acpi_init C U search_for_rsdp_bios =
     (let chk = overflow_checks C in
      bind (log_info chk U (str ''acpi: initializing'')) (\<lambda>_.
      bind (search_for_rsdp_bios (acpi_map_physical_region C) (acpi_unmap_physical_region C)) (\<lambda>r. case r of
        Inr found \<Rightarrow> bind (log_info chk U (str ''acpi: init successful'')) (\<lambda>_. ret (Inr found))
      | Inl e \<Rightarrow> bind (log_error chk U (str ''acpi: init unsuccessful '' @ e)) (\<lambda>_. ret (Inl e)))))"

text \<open>What the kernel is linked with: the crates, the boot information, the address of
  \<open>syscall_callback\<close> and the file \<open>INIT_ELF\<close>; \<open>show_error\<close> is the derived debug output.\<close>

record ('t, 'd, 'g) linked =
  crates_of :: "'t crates"
  uart_of :: uart_crate
  gdt_of :: "'g gdt_crate"
  process_map_of :: "'d process_map"
  star_write_of :: "u16 \<Rightarrow> u16 \<Rightarrow> u16 \<Rightarrow> u16 \<Rightarrow> u64 option"
  elf_parse_of :: "u8 list \<Rightarrow> string + elf"
  set_logger_of :: bool
  features_of :: features
  size_of_tss :: u64
  callback_addr :: u64
  init_elf :: "u8 list"
  show_error :: "ElfLaunchError \<Rightarrow> string"

definition kmain :: "('t, 'd, 'g) linked
    \<Rightarrow> ((u64 \<Rightarrow> u64 \<Rightarrow> (('t, 'd, 'g, 'z) kernel_scheme, acpi_mapping) comp)
        \<Rightarrow> (acpi_mapping \<Rightarrow> (('t, 'd, 'g, 'z) kernel_scheme, unit) comp)
        \<Rightarrow> (('t, 'd, 'g, 'z) kernel_scheme, rstr + 'a) comp)
    \<Rightarrow> boot_info \<Rightarrow> u64 \<Rightarrow> (('t, 'd, 'g, 'z) kernel_scheme, unit) comp" where
  "kmain L search_for_rsdp_bios mb_info guard_page_addr =
     (let C = crates_of L; U = uart_of L; D = process_map_of L;
          info = (\<lambda>s. log_info (overflow_checks C) U (str s)) in
      bind (on_vga vga_clear) (\<lambda>_.
      bind (log_init (features_of L) (set_logger_of L)) (\<lambda>_.
      bind (init_memory C (size_of_tss L) mb_info guard_page_addr) (\<lambda>_.
      bind (the_gdt (gdt_of L)) (\<lambda>gd.
      bind (on_segments (gdt_init gd)) (\<lambda>_.
      bind (on_devices interrupts_init) (\<lambda>_.
      bind (on_devices interrupts_enable) (\<lambda>_.
      bind (info ''interrupts: ready'') (\<lambda>_.
      bind enable_features (\<lambda>_.
      bind (info ''cpu features: enabled'') (\<lambda>_.
      bind (on_devices pit_initialize) (\<lambda>_.
      bind (info ''pit: ready'') (\<lambda>_.
      bind (acpi_init C U search_for_rsdp_bios) (\<lambda>_.
      bind (setup_syscall (gdt_of L) (star_write_of L) C (callback_addr L)) (\<lambda>_.
      bind (info ''init: loading'') (\<lambda>_.
      bind (spawn_from_elf C D (elf_parse_of L) (init_elf L)) (\<lambda>r. case r of
        Inl e \<Rightarrow> stop_with (Panic (show_error L e))
      | Inr pid \<Rightarrow>
          bind (info ''init: launching'') (\<lambda>_.
          bind (run_by_pid C D pid) (\<lambda>res. case res of
            Inl _ \<Rightarrow> stop_with (Panic ''Out of physical memory'')
          | Inr _ \<Rightarrow> ret ())))))))))))))))))))"

end
