(* ===== verification/Libwolffia.thy ===== *)
theory Libwolffia
  imports Syscall
begin

text \<open>
  The library of user programs, \<open>userspace/libwolffia\<close> with its attribute macro, and the first
  program, \<open>userspace/init\<close>.  A system call is the instruction \<open>syscall\<close> on the same machine:
  it runs the kernel's \<open>syscall_callback\<close>.  A \<open>&str\<close> of a user program is the pair of its address and
  its length; its bytes are in the memory of the process.  Formatting hands a list of such
  pieces to \<open>write_str\<close>.
\<close>

section \<open>\<open>syscall.rs\<close>\<close>

datatype UserSyscall = UHalt | UMap | UUnmap | UPrint

primrec user_syscall_number :: "UserSyscall \<Rightarrow> u64" where
  "user_syscall_number UHalt = 0"
| "user_syscall_number UMap = 1"
| "user_syscall_number UUnmap = 2"
| "user_syscall_number UPrint = 3"

datatype SyscallError =
    UInvalidBuffer | UInvalidUtf8 | UInvalidPage | UInvalidPagesLength | UOutOfMemory | UnknownError u64

text \<open>The code is an \<open>i64\<close>.\<close>

definition res_from_code :: "u64 \<Rightarrow> SyscallError + u64" where
  "res_from_code code =
     (if 0 \<le> sint code then Inr code
      else if code = - 1 then Inl UInvalidBuffer
      else if code = - 2 then Inl UInvalidUtf8
      else if code = - 3 then Inl UInvalidPagesLength
      else if code = - 4 then Inl UOutOfMemory
      else Inl (UnknownError code))"

text \<open>The functions that the macro \<open>syscall_raw!\<close> makes: the registers are loaded, the instruction is
  executed, and the result is in \<open>rax\<close>.\<close>

definition syscall_raw :: "'t crates \<Rightarrow> uart_crate \<Rightarrow> cpu \<Rightarrow> UserSyscall \<Rightarrow> (cpu \<Rightarrow> cpu)
    \<Rightarrow> (('t, 'd, 'g, 'z) kernel_scheme, u64) comp" where
  "syscall_raw C U left call load_args =
     bind (set_cpu (\<lambda>c. (load_args c)\<lparr>rax := user_syscall_number call\<rparr>)) (\<lambda>_.
     bind syscall_instruction (\<lambda>_.
     bind (syscall_callback C U left) (\<lambda>_.
     gets (\<lambda>k. rax (cpu k)))))"

definition syscall_0 :: "'t crates \<Rightarrow> uart_crate \<Rightarrow> cpu \<Rightarrow> UserSyscall
    \<Rightarrow> (('t, 'd, 'g, 'z) kernel_scheme, SyscallError + u64) comp" where
  "syscall_0 C U left call = bind (syscall_raw C U left call (\<lambda>c. c)) (\<lambda>r. ret (res_from_code r))"

definition syscall_1 :: "'t crates \<Rightarrow> uart_crate \<Rightarrow> cpu \<Rightarrow> UserSyscall \<Rightarrow> u64
    \<Rightarrow> (('t, 'd, 'g, 'z) kernel_scheme, SyscallError + u64) comp" where
  "syscall_1 C U left call arg1 =
     bind (syscall_raw C U left call (\<lambda>c. c\<lparr>rdi := arg1\<rparr>)) (\<lambda>r. ret (res_from_code r))"

definition syscall_2 :: "'t crates \<Rightarrow> uart_crate \<Rightarrow> cpu \<Rightarrow> UserSyscall \<Rightarrow> u64 \<Rightarrow> u64
    \<Rightarrow> (('t, 'd, 'g, 'z) kernel_scheme, SyscallError + u64) comp" where
  "syscall_2 C U left call arg1 arg2 =
     bind (syscall_raw C U left call (\<lambda>c. c\<lparr>rdi := arg1, rsi := arg2\<rparr>)) (\<lambda>r. ret (res_from_code r))"

type_synonym user_str = "u64 \<times> u64"

definition user_print :: "'t crates \<Rightarrow> uart_crate \<Rightarrow> cpu \<Rightarrow> user_str
    \<Rightarrow> (('t, 'd, 'g, 'z) kernel_scheme, SyscallError + unit) comp" where
  "user_print C U left s =
     bind (syscall_2 C U left UPrint (fst s) (snd s)) (\<lambda>r.
     ret (case r of Inl e \<Rightarrow> Inl e | Inr _ \<Rightarrow> Inr ()))"

text \<open>\<open>unreachable!\<close> panics; the panic of a user program is \<open>user_panic_fmt\<close> below, which halts
  in turn.\<close>

definition user_halt :: "'t crates \<Rightarrow> uart_crate \<Rightarrow> cpu \<Rightarrow> (('t, 'd, 'g, 'z) kernel_scheme, 'a) comp" where
  "user_halt C U left =
     bind (syscall_0 C U left UHalt) (\<lambda>_. stop_with (Panic ''internal error: entered unreachable code''))"

section \<open>\<open>lib.rs\<close>\<close>

text \<open>\<open>Stdout::write_str\<close>; an error of \<open>print\<close> becomes \<open>fmt::Error\<close>.\<close>

definition stdout_write_str :: "'t crates \<Rightarrow> uart_crate \<Rightarrow> cpu \<Rightarrow> user_str
    \<Rightarrow> (('t, 'd, 'g, 'z) kernel_scheme, unit + unit) comp" where
  "stdout_write_str C U left s =
     bind (user_print C U left s) (\<lambda>r. ret (case r of Inl _ \<Rightarrow> Inl () | Inr _ \<Rightarrow> Inr ()))"

text \<open>\<open>write!\<close>, whose pieces are written one after the other up to the first error.\<close>

definition stdout_write_fmt :: "'t crates \<Rightarrow> uart_crate \<Rightarrow> cpu \<Rightarrow> user_str list
    \<Rightarrow> (('t, 'd, 'g, 'z) kernel_scheme, unit + unit) comp" where
  "stdout_write_fmt C U left pieces = for_each_res pieces (stdout_write_str C U left)"

text \<open>The panic handler prints the pieces of its message, ignoring errors, and halts.\<close>

definition user_panic_fmt :: "'t crates \<Rightarrow> uart_crate \<Rightarrow> cpu \<Rightarrow> user_str list
    \<Rightarrow> (('t, 'd, 'g, 'z) kernel_scheme, 'a) comp" where
  "user_panic_fmt C U left pieces = bind (stdout_write_fmt C U left pieces) (\<lambda>_. user_halt C U left)"

text \<open>The macro \<open>print!\<close>; \<open>panic_pieces\<close> is the message of its \<open>unwrap\<close>.\<close>

definition print_macro :: "'t crates \<Rightarrow> uart_crate \<Rightarrow> cpu \<Rightarrow> user_str list \<Rightarrow> user_str list
    \<Rightarrow> (('t, 'd, 'g, 'z) kernel_scheme, unit) comp" where
  "print_macro C U left panic_pieces pieces =
     bind (stdout_write_fmt C U left pieces) (\<lambda>r. case r of
       Inl _ \<Rightarrow> user_panic_fmt C U left panic_pieces
     | Inr _ \<Rightarrow> ret ())"

section \<open>Programs\<close>

text \<open>The function \<open>_start\<close> that the attribute \<open>main\<close> makes.\<close>

definition start_main :: "'t crates \<Rightarrow> uart_crate \<Rightarrow> cpu \<Rightarrow> (('t, 'd, 'g, 'z) kernel_scheme, unit) comp
    \<Rightarrow> (('t, 'd, 'g, 'z) kernel_scheme, 'a) comp" where
  "start_main C U left main = bind main (\<lambda>_. user_halt C U left)"

text \<open>\<open>main\<close> of \<open>userspace/init\<close>, with the addresses of its two literals.\<close>

definition init_main :: "'t crates \<Rightarrow> uart_crate \<Rightarrow> cpu \<Rightarrow> user_str list \<Rightarrow> user_str \<Rightarrow> user_str
    \<Rightarrow> (('t, 'd, 'g, 'z) kernel_scheme, unit) comp" where
  "init_main C U left panic_pieces hello halting =
     bind (print_macro C U left panic_pieces [hello]) (\<lambda>_.
     bind (set_cpu (\<lambda>c. c\<lparr>rax := 0\<rparr>)) (\<lambda>_.
     print_macro C U left panic_pieces [halting]))"

end
