(* ===== verification/Stack_Access.thy ===== *)
theory Stack_Access
  imports Process Libwolffia
begin

text \<open>
  Data accesses through the MMU that leave the page tables alone: the translation of every address is
  kept by writes to frames that hold no table, and the words of a stack page can be pushed and
  popped.  The entry of system calls and the jump to user mode are proved with these lemmas.
\<close>

declare bit_numeral_word_iff [simp del]

section \<open>Translations under writes to data\<close>

lemma mmu_data:
  assumes data: "\<forall>f \<in> tables m (cr3 m). pmem m' f = pmem m f" and same: "cr3 m' = cr3 m"
    and low: "va_p4 va \<noteq> 510"
  shows "mmu_translate m' va = mmu_translate m va"
proof -
  let ?e4 = "pmem m (cr3 m) (va_p4 va)"
  have lt: "va_p4 va < 512" "va_p3 va < 512" "va_p2 va < 512"
    by (simp_all add: va_p4_def va_p3_def va_p2_def order_le_less_trans[OF word_and_le1])
  have t4: "pmem m' (cr3 m) = pmem m (cr3 m)" using data tables_root by blast
  have t3: "pmem m' (pte_frame ?e4) = pmem m (pte_frame ?e4)" if "pte_present ?e4" "\<not> pte_huge ?e4"
  proof -
    have "phys_table m (cr3 m) [va_p4 va] = Some (pte_frame ?e4)" using that by (simp add: phys_next_def)
    moreover have "tree_path [va_p4 va]" using lt low by (simp add: tree_path_def path_ok_def)
    ultimately show ?thesis using data tablesI by blast
  qed
  let ?e3 = "pmem m (pte_frame ?e4) (va_p3 va)"
  have t2: "pmem m' (pte_frame ?e3) = pmem m (pte_frame ?e3)"
    if "pte_present ?e4" "\<not> pte_huge ?e4" "pte_present ?e3" "\<not> pte_huge ?e3"
  proof -
    have "phys_table m (cr3 m) [va_p4 va, va_p3 va] = Some (pte_frame ?e3)" using that by (simp add: phys_next_def)
    moreover have "tree_path [va_p4 va, va_p3 va]" using lt low by (simp add: tree_path_def path_ok_def)
    ultimately show ?thesis using data tablesI by blast
  qed
  let ?e2 = "pmem m (pte_frame ?e3) (va_p2 va)"
  have t1: "pmem m' (pte_frame ?e2) = pmem m (pte_frame ?e2)"
    if "pte_present ?e4" "\<not> pte_huge ?e4" "pte_present ?e3" "\<not> pte_huge ?e3" "pte_present ?e2" "\<not> pte_huge ?e2"
  proof -
    have "phys_table m (cr3 m) [va_p4 va, va_p3 va, va_p2 va] = Some (pte_frame ?e2)" using that by (simp add: phys_next_def)
    moreover have "tree_path [va_p4 va, va_p3 va, va_p2 va]" using lt low by (simp add: tree_path_def path_ok_def)
    ultimately show ?thesis using data tablesI by blast
  qed
  show ?thesis
    by (simp add: mmu_translate_def Let_def same t4 t3 t2 t1)
qed

section \<open>A page of the kernel's stack\<close>

text \<open>A page mapped writable to a frame \<open>f\<close> that holds no table.\<close>

definition stack_page :: "('t \<Rightarrow> bool) \<Rightarrow> ('t \<Rightarrow> u64 set) \<Rightarrow> page \<Rightarrow> u64 \<Rightarrow> ('t, 'z) machine_scheme \<Rightarrow> bool" where
  "stack_page ok free page f m \<longleftrightarrow>
     pt_inv ok free m (cr3 m) \<and> mappable page \<and> f \<notin> tables m (cr3 m) \<and>
     (\<exists>e. phys_walk m (cr3 m) page = Some (e, Kib4) \<and> pte_writable e \<and> pte_frame e = f)"

lemma stack_page_cong:
  assumes "stack_page ok free page f m" and "pmem m' = pmem m" and "cr3 m' = cr3 m" and "phys_trees m' = phys_trees m"
  shows "stack_page ok free page f m'"
proof -
  have t: "tables m' r = tables m r" for r by (simp only: tables_def phys_table_cong[OF assms(2)])
  have "pt_inv ok free m (cr3 m)" using assms(1) by (simp add: stack_page_def)
  then have "pt_inv ok free m' (cr3 m)"
    using assms(2-4) by (rule_tac pt_inv_cong) (auto simp: phys_ok_def phys_free_def pt_inv_def)
  with assms(1,3) show ?thesis by (simp add: stack_page_def t phys_walk_cong[OF assms(2)])
qed

lemma stack_access:
  assumes "stack_page ok free page f m" and "i < 512"
  shows "vread (number page * 4096 + 8 * i) m = Inr (pmem m f i, m)"
    and "vwrite (number page * 4096 + 8 * i) v m = Inr ((), write_word f i v m)"
    and "stack_page ok free page f (write_word f i v m)"
proof -
  from assms(1) obtain e where inv: "pt_inv ok free m (cr3 m)" and page: "mappable page"
    and f: "f \<notin> tables m (cr3 m)" and w: "phys_walk m (cr3 m) page = Some (e, Kib4)" "pte_writable e" "pte_frame e = f"
    by (auto simp: stack_page_def)
  from w(1) obtain p1 where t: "phys_table m (cr3 m) (page_path page) = Some p1"
    "pmem m p1 (p1_index page) = e" "pte_present e" by (rule walk_tables)
  have pw: "path_writable m (cr3 m) (page_path page)"
    using pt_invD(4)[OF inv] tree_path_page(3)[OF mappableD(4)[OF page]] t(1)
    unfolding tables_writable_def by blast
  obtain u where tr: "mmu_translate m (number page * 4096 + 8 * i) = Some (f, True, u)"
    using mmu_page[OF page refl assms(2) t] pw w(2,3) by auto
  have vw: "va_word (number page * 4096 + 8 * i) = i" by (rule va_page_word(5)[OF assms(2)])
  show "vread (number page * 4096 + 8 * i) m = Inr (pmem m f i, m)" by (simp add: vread_def tr vw)
  show "vwrite (number page * 4096 + 8 * i) v m = Inr ((), write_word f i v m)" by (simp add: vwrite_def tr vw)
  let ?m = "write_word f i v m"
  have "f \<noteq> cr3 m" using f tables_root by metis
  then have d: "\<forall>g \<in> insert (cr3 m) (tables m (cr3 m)). pmem ?m g = pmem m g" using f by auto
  note D = data_write[OF inv d write_word_same(1,5)]
  show "stack_page ok free page f ?m"
    using D(1) D(2) D(3)[OF mappableD(4)[OF page]] page f w by (simp add: stack_page_def)
qed

section \<open>Pushing and popping\<close>

text \<open>The address of word \<open>j\<close> of a page.\<close>

definition slot :: "page \<Rightarrow> nat \<Rightarrow> u64" where
  "slot page j = number page * 4096 + 8 * of_nat j"

lemma slot_Suc: "slot page (Suc j) = slot page j + 8"
  by (simp add: slot_def ring_distribs)

lemma slot_index: "j < 512 \<Longrightarrow> (of_nat j :: u64) < 512"
  by (simp add: word_less_nat_alt unat_of_nat take_bit_nat_eq_self)

lemma slot_inject: "i < 512 \<Longrightarrow> j < 512 \<Longrightarrow> (of_nat i :: u64) = of_nat j \<longleftrightarrow> i = j"
  by (auto simp: word_unat_eq_iff unat_of_nat take_bit_nat_eq_self)

lemma stack_kernel [simp]:
  "stack_page ok free page f (k\<lparr>cpu := c\<rparr>) = stack_page ok free page f k"
  "stack_page ok free page f (k\<lparr>vga := w\<rparr>) = stack_page ok free page f k"
  "stack_page ok free page f (k\<lparr>user_rsp := u\<rparr>) = stack_page ok free page f k"
  "stack_page ok free page f (k\<lparr>segs := s\<rparr>) = stack_page ok free page f k"
  "stack_page ok free page f (k\<lparr>processes := d\<rparr>) = stack_page ok free page f k"
  by (auto elim!: stack_page_cong)

text \<open>Updates of the memory come first.\<close>

lemma kernel_pmem [simp]:
  "k\<lparr>cpu := c, pmem := P\<rparr> = k\<lparr>pmem := P, cpu := c\<rparr>"
  "k\<lparr>vga := w, pmem := P\<rparr> = k\<lparr>pmem := P, vga := w\<rparr>"
  "k\<lparr>user_rsp := u, pmem := P\<rparr> = k\<lparr>pmem := P, user_rsp := u\<rparr>"
  "k\<lparr>segs := s, pmem := P\<rparr> = k\<lparr>pmem := P, segs := s\<rparr>"
  "k\<lparr>processes := d, pmem := P\<rparr> = k\<lparr>pmem := P, processes := d\<rparr>"
  by (simp_all add: kernel.equality)

lemma push_reg_run:
  assumes "stack_page ok free page f k" and "j < 512" and "rsp (cpu k) = slot page (Suc j)"
  shows "push_reg r k = Inr ((), (write_word f (of_nat j) (r (cpu k)) k)\<lparr>cpu := (cpu k)\<lparr>rsp := slot page j\<rparr>\<rparr>)"
proof -
  have "rsp (cpu k) - 8 = number page * 4096 + 8 * of_nat j" using assms(3) by (simp add: slot_Suc slot_def)
  then show ?thesis
    using stack_access(2)[OF assms(1) slot_index[OF assms(2)]]
    by (simp add: push_reg_def run_simps set_cpu_def write_word_def slot_def)
qed

lemma pop_reg_run:
  assumes "stack_page ok free page f k" and "j < 512" and "rsp (cpu k) = slot page j"
  shows "pop_reg upd k = Inr ((), k\<lparr>cpu := (upd (pmem k f (of_nat j)) (cpu k))\<lparr>rsp := slot page (Suc j)\<rparr>\<rparr>)"
proof -
  have "vread (rsp (cpu k)) k = Inr (pmem k f (of_nat j), k)"
    using stack_access(1)[OF assms(1) slot_index[OF assms(2)]] assms(3) by (simp add: slot_def)
  then show ?thesis by (simp add: pop_reg_def run_simps set_cpu_def slot_Suc assms(3))
qed

text \<open>A sequence of pushes: the values lie in the stack frame below the old top, nothing
  else changes.\<close>

definition ignores_rsp :: "(cpu \<Rightarrow> u64) \<Rightarrow> bool" where
  "ignores_rsp r \<longleftrightarrow> (\<forall>c v. r (c\<lparr>rsp := v\<rparr>) = r c)"

lemma push_regs_run:
  assumes "stack_page ok free page f k" and "j \<le> 512" and "length rs \<le> j" and "rsp (cpu k) = slot page j"
    and "\<forall>r \<in> set rs. ignores_rsp r"
  obtains P where "for_each rs push_reg k = Inr ((), k\<lparr>pmem := P, cpu := (cpu k)\<lparr>rsp := slot page (j - length rs)\<rparr>\<rparr>)"
    and "stack_page ok free page f (k\<lparr>pmem := P\<rparr>)" and "\<And>g. g \<noteq> f \<Longrightarrow> P g = pmem k g"
    and "\<And>i. i < length rs \<Longrightarrow> P f (of_nat (j - 1 - i)) = (rs ! i) (cpu k)"
proof -
  have "\<exists>P. for_each rs push_reg k = Inr ((), k\<lparr>pmem := P, cpu := (cpu k)\<lparr>rsp := slot page (j - length rs)\<rparr>\<rparr>) \<and>
    stack_page ok free page f (k\<lparr>pmem := P\<rparr>) \<and> (\<forall>g. g \<noteq> f \<longrightarrow> P g = pmem k g) \<and>
    (\<forall>i < length rs. P f (of_nat (j - 1 - i)) = (rs ! i) (cpu k)) \<and>
    (\<forall>i < 512. j \<le> i \<longrightarrow> P f (of_nat i) = pmem k f (of_nat i))"
    using assms
  proof (induction rs arbitrary: k j)
    case Nil
    then show ?case by (intro exI[of _ "pmem k"]) (simp add: ret_def)
  next
    case (Cons r rs)
    obtain l where l: "j = Suc l" using Cons.prems(3) by (cases j) auto
    let ?w = "write_word f (of_nat l) (r (cpu k)) k"
    let ?k = "?w\<lparr>cpu := (cpu k)\<lparr>rsp := slot page l\<rparr>\<rparr>"
    have run: "push_reg r k = Inr ((), ?k)"
      using Cons.prems l by (intro push_reg_run[OF Cons.prems(1)]) auto
    have sp: "stack_page ok free page f ?k"
      using stack_access(3)[OF Cons.prems(1) slot_index] Cons.prems(2) l by simp
    have "l \<le> 512" "length rs \<le> l" "rsp (cpu ?k) = slot page l" "\<forall>r \<in> set rs. ignores_rsp r"
      using Cons.prems l by auto
    from Cons.IH[OF sp this] obtain P where P: "for_each rs push_reg ?k = Inr ((), ?k\<lparr>pmem := P, cpu := (cpu ?k)\<lparr>rsp := slot page (l - length rs)\<rparr>\<rparr>)"
      "stack_page ok free page f (?k\<lparr>pmem := P\<rparr>)" "\<forall>g. g \<noteq> f \<longrightarrow> P g = pmem ?k g"
      "\<forall>i < length rs. P f (of_nat (l - 1 - i)) = (rs ! i) (cpu ?k)"
      "\<forall>i < 512. l \<le> i \<longrightarrow> P f (of_nat i) = pmem ?k f (of_nat i)"
      by blast
    have "for_each (r # rs) push_reg k = Inr ((), k\<lparr>pmem := P, cpu := (cpu k)\<lparr>rsp := slot page (j - length (r # rs))\<rparr>\<rparr>)"
      using run P(1) by (simp add: run_simps l write_word_def)
    moreover have "stack_page ok free page f (k\<lparr>pmem := P\<rparr>)" using P(2) by (rule stack_page_cong) (simp_all add: write_word_def)
    moreover have "P f (of_nat (j - 1 - i)) = ((r # rs) ! i) (cpu k)" if "i < length (r # rs)" for i
    proof (cases i)
      case 0
      then show ?thesis using P(5) Cons.prems(2) l by simp
    next
      case (Suc i')
      have "rs ! i' \<in> set rs" using that Suc by simp
      then have "(rs ! i') (cpu ?k) = (rs ! i') (cpu k)" using Cons.prems(5) by (simp add: ignores_rsp_def)
      then show ?thesis using P(4) that Suc l by (simp add: diff_diff_left)
    qed
    moreover have "P f (of_nat i) = pmem k f (of_nat i)" if "i < 512" "j \<le> i" for i
      using P(5) that l slot_inject[of i l] by (simp add: write_word_def)
    ultimately show ?case using P(3) by (intro exI[of _ P]) (auto simp: write_word_def)
  qed
  then show thesis using that by blast
qed

end
