(* ===== verification/Sample_Kernel.thy ===== *)
theory Sample_Kernel
  imports Stack_Access
begin

text \<open>
  A concrete state of the kernel at which the theorems about system calls and processes are applied:
  page \<open>0x400\<close> of the process holds the bytes of a short text, page \<open>0x401\<close> is the
  kernel's stack, and the crates behave as documented.
\<close>

declare bit_numeral_word_iff [simp del]

section \<open>The same machine inside a larger state\<close>

lemma phys_table_transfer:
  fixes m :: "('t, 'y) machine_scheme" and m' :: "('t, 'z) machine_scheme"
  assumes "pmem m' = pmem m"
  shows "phys_next m' f i = phys_next m f i" "phys_table m' f p = phys_table m f p"
    "path_writable m' f p = path_writable m f p" "phys_walk m' f page = phys_walk m f page"
proof -
  show n: "phys_next m' f i = phys_next m f i" for f i by (simp add: phys_next_def assms)
  show t: "phys_table m' f p = phys_table m f p" for f p by (induction p arbitrary: f) (auto simp: n split: option.split)
  show "path_writable m' f p = path_writable m f p" by (induction p arbitrary: f) (auto simp: n assms split: option.splits)
  show "phys_walk m' f page = phys_walk m f page" unfolding phys_walk_def t assms ..
qed

lemma pt_inv_transfer:
  fixes m :: "('t, 'y) machine_scheme" and m' :: "('t, 'z) machine_scheme"
  assumes "pt_inv ok free m r" and "pmem m' = pmem m" "cr3 m' = cr3 m" "phys_trees m' = phys_trees m"
  shows "pt_inv ok free m' r" and "tables m' r = tables m r"
proof -
  note T = phys_table_transfer[OF assms(2)]
  show "tables m' r = tables m r" by (simp add: tables_def T)
  then show "pt_inv ok free m' r"
    using assms(1)
    by (simp add: pt_inv_def recursive_def phys_ok_def tables_inj_def tables_writable_def tables_huge_ok_def
        phys_free_def T assms(2-4))
qed

section \<open>A machine with a text and a stack\<close>

definition user_machine :: "u64 list machine" where
  "user_machine = write_word 0x9000 0 0x6948 (write_word 0x4000 1 0xA003 mapped_machine)"

lemma stack_entry: "pte_present 0xA003" "pte_writable 0xA003" "\<not> pte_huge 0xA003" "pte_frame 0xA003 = 0xA000"
  by (simp_all add: pte_present_def pte_huge_def pte_writable_def pte_frame_def bit_numeral_word_iff)

lemma user_machine_inv:
  "pt_inv list_ok set user_machine 0x1000" "tables user_machine 0x1000 = {0x1000, 0x2000, 0x3000, 0x4000}"
  "phys_walk user_machine 0x1000 (nth_page 0x400) = Some (0x9007, Kib4)"
  "phys_walk user_machine 0x1000 (nth_page 0x401) = Some (0xA003, Kib4)"
proof -
  let ?m = "write_word 0x4000 1 0xA003 mapped_machine"
  have tp: "tree_path [0, 0, 2]" and t: "phys_table mapped_machine 0x1000 [0, 0, 2] = Some 0x4000"
    by (simp_all add: tree_path_def path_ok_def mapped_next)
  have inv: "pt_inv list_ok set ?m 0x1000"
    by (rule pt_inv_leaf_write[OF mapped_inv tp t])
      (simp_all add: leaf_entry_def huge_ok_def)
  have leaf: "leaf_entry (length [0 :: u64, 0, 2]) e" for e by (simp add: leaf_entry_def)
  note T = phys_table_leaf_write(1)[OF pt_invD(3)[OF mapped_inv] tp t leaf leaf]
  have tabs: "tables ?m 0x1000 = {0x1000, 0x2000, 0x3000, 0x4000}"
    using mapped_tables by (simp add: tables_def T cong: conj_cong)
  have d: "\<forall>g \<in> insert (cr3 ?m) (tables ?m 0x1000). pmem user_machine g = pmem ?m g"
    by (auto simp: user_machine_def tabs)
  have s: "cr3 user_machine = cr3 ?m" "phys_trees user_machine = phys_trees ?m" by (simp_all add: user_machine_def)
  note D = data_write[OF inv d s]
  show "pt_inv list_ok set user_machine 0x1000" "tables user_machine 0x1000 = {0x1000, 0x2000, 0x3000, 0x4000}"
    using D(1,2) tabs by simp_all
  show "phys_walk user_machine 0x1000 (nth_page 0x400) = Some (0x9007, Kib4)"
    "phys_walk user_machine 0x1000 (nth_page 0x401) = Some (0xA003, Kib4)"
    by (simp_all add: phys_walk_def phys_next_def user_machine_def mapped_pmem nth_page_def p4_index_def
        p3_index_def p2_index_def p1_index_def mapped_entries stack_entry)
qed

section \<open>The kernel\<close>

definition map_processes :: "(u64 \<Rightarrow> process option) process_map" where
  "map_processes = \<lparr>pm_insert = (\<lambda>p x d. d(p \<mapsto> x)), pm_get = (\<lambda>p d. d p), pm_update = (\<lambda>p x d. d(p \<mapsto> x))\<rparr>"

lemma map_processes_contract: "process_map_contract map_processes"
  by (simp add: process_map_contract_def map_processes_def)

definition list_gdt :: "u64 list gdt_crate" where
  "list_gdt = \<lparr>gdt_new = [0], gdt_slots = length,
     add_entry = (\<lambda>g d. if length g + descriptor_slots d \<le> 8
       then Some (of_nat (length g) * 8 OR descriptor_ring d,
              g @ (case d of UserSegment v \<Rightarrow> [v] | SystemSegment lo hi \<Rightarrow> [lo, hi])) else None),
     kernel_code_segment = UserSegment 0x00209A0000000000,
     tss_segment_with_iomap = (\<lambda>t m. Some (SystemSegment 0x89 0))\<rparr>"

lemma list_gdt_contract: "gdt_contract list_gdt"
proof -
  have "(0x00209A0000000000 :: u64) AND DPL_RING_3 \<noteq> DPL_RING_3" by (simp add: DPL_RING_3_def)
  then show ?thesis
    by (auto simp: gdt_contract_def list_gdt_def descriptor_slots_def split: descriptor.splits)
qed

definition sample_tss :: tss where
  "sample_tss = tss_new 104 \<lparr>privilege_stack_table = [0x402000, 0, 0],
     interrupt_stack_table = [0, 0, 0, 0, 0, 0, 0], iomap_base = 0\<rparr>"

definition sample_pic :: i8259 where
  "sample_pic = \<lparr>imr = 0, isr = 0, irr = 0, vector_base = 0, cascade = 0, pic_mode = 0, icw = 0, read_isr = False\<rparr>"

definition sample_devices :: "listener pit_state" where
  "sample_devices = \<lparr>pic1 = sample_pic, pic2 = sample_pic, pit0 = \<lparr>pit_control = 0, pit_bytes = []\<rparr>,
     io_log = [], listeners = replicate 16 [], interrupt_flag = False, counter = 0\<rparr>"

definition sample_cpu :: cpu where
  "sample_cpu = \<lparr>rax = 0, rcx = 0, rdx = 0, rsi = 0, rdi = 0, r11 = 0, rsp = 0x7FFFFFFFDFF0, rip = 0x400100,
     rflags = 0x202, efer = 0, lstar = 0xFFFFFFFF80001000, star = 0, sfmask = 0x200, cr0_flags = 0, cr4_flags = 0\<rparr>"

definition sample_kernel :: "(u64 list, u64 \<Rightarrow> process option, u64 list) kernel" where
  "sample_kernel = \<lparr>pmem = pmem user_machine, cr3 = 0x1000, cr3_flags = 0, cr0_wp = True, tlb_log = [],
     phys_trees = phys_trees user_machine, heap_tree = None, bootstrap_heap = None, tss_cell = Some sample_tss,
     vga = vga_writer_new (replicate 25 (blank_row Black)), serial_out = [], processes = (\<lambda>_. None), next_pid = 0,
     user_rsp = 0, syscall_stack = 0x402000, cpu = sample_cpu,
     segs = \<lparr>gdtr = None, seg_cs = 0x18, seg_ss = 0x20, seg_ds = 0x20, seg_es = 0x20, seg_fs = 0x20, seg_gs = 0x20,
       task_register = 8\<rparr>,
     static_gdt = None, devices = sample_devices\<rparr>"

lemma sample_kernel_inv:
  "pt_inv list_ok set sample_kernel 0x1000" "tables sample_kernel 0x1000 = {0x1000, 0x2000, 0x3000, 0x4000}"
  using pt_inv_transfer[OF user_machine_inv(1), of sample_kernel] user_machine_inv(2)
  by (simp_all add: sample_kernel_def user_machine_def)

lemma sample_kernel_cr3 [simp]: "cr3 sample_kernel = 0x1000"
  by (simp add: sample_kernel_def)

lemma sample_kernel_walk:
  "phys_walk sample_kernel 0x1000 (nth_page 0x400) = Some (0x9007, Kib4)"
  "phys_walk sample_kernel 0x1000 (nth_page 0x401) = Some (0xA003, Kib4)"
  using user_machine_inv(3,4) phys_table_transfer(4)[of sample_kernel user_machine]
  by (simp_all add: sample_kernel_def)

lemma sample_kernel_stack: "stack_page list_ok set (nth_page 0x401) 0xA000 sample_kernel"
  using mapped_page(1) sample_kernel_inv sample_kernel_walk(2) by (simp add: stack_page_def stack_entry)

lemma sample_kernel_top: "syscall_stack sample_kernel = slot (nth_page 0x401) 512"
  by (simp add: sample_kernel_def slot_def nth_page_def)

text \<open>The first two bytes of page \<open>0x400\<close>.\<close>

lemma sample_kernel_bytes:
  "mmu_translate sample_kernel 0x400000 = Some (0x9000, True, True)" "byte_at sample_kernel 0x400000 = Some 0x48"
  "mmu_translate sample_kernel 0x400001 = Some (0x9000, True, True)" "byte_at sample_kernel 0x400001 = Some 0x69"
proof -
  have u: "pte_user 0x2007" "pte_user 0x3007" "pte_user 0x4007" "pte_user 0x9007"
    by (simp_all add: pte_user_def bit_numeral_word_iff)
  show t: "mmu_translate sample_kernel 0x400000 = Some (0x9000, True, True)"
    "mmu_translate sample_kernel 0x400001 = Some (0x9000, True, True)"
    by (simp_all add: mmu_translate_def sample_kernel_def user_machine_def canonical_def va_p4_def va_p3_def
        va_p2_def va_p1_def mapped_pmem mapped_entries u Let_def)
  show "byte_at sample_kernel 0x400000 = Some 0x48" "byte_at sample_kernel 0x400001 = Some 0x69"
    by (simp_all add: byte_at_def t va_word_def byte_of_def) (simp_all add: sample_kernel_def user_machine_def)
qed

lemma sample_kernel_user: "user_page sample_kernel (nth_page 0x400)"
  using sample_kernel_walk(1) by (simp add: user_page_def pte_user_def bit_numeral_word_iff)

end
