(* ===== verification/Syscall_Properties.thy ===== *)
theory Syscall_Properties
  imports Sample_Kernel
begin

text \<open>
  What system calls do, from the instruction in the user program back to it: the entry code saves and
  restores the caller, \<open>print\<close> puts the text on the screen, \<open>Map\<close> gives the caller zeroed pages of
  its own, and the calls with which a program can stop the kernel.
\<close>

declare bit_numeral_word_iff [simp del]

section \<open>Entry and exit\<close>

definition saved_regs :: "(cpu \<Rightarrow> u64) list" where
  "saved_regs = [rcx, r11, rdx, rsi, rdi]"

text \<open>The state in which \<open>syscall_handler\<close> is called, given the memory after the pushes.\<close>

definition entered :: "page \<Rightarrow> (u64 \<Rightarrow> u64 \<Rightarrow> u64) \<Rightarrow> ('t, 'd, 'g, 'z) kernel_scheme \<Rightarrow> ('t, 'd, 'g, 'z) kernel_scheme" where
  "entered page P k = k\<lparr>pmem := P, user_rsp := rsp (cpu k), cpu := (cpu k)\<lparr>rsp := slot page 507,
     rflags := rflags (cpu k) OR INTERRUPT_FLAG, rsi := slot page 507, rdx := 3, rdi := rax (cpu k)\<rparr>\<rparr>"

lemma callback_pushes:
  "syscall_callback C U left =
     bind (modify (\<lambda>k. k\<lparr>user_rsp := rsp (cpu k)\<rparr>)) (\<lambda>_.
     bind (modify (\<lambda>k. k\<lparr>cpu := (cpu k)\<lparr>rsp := syscall_stack k\<rparr>\<rparr>)) (\<lambda>_.
     bind (for_each saved_regs push_reg) (\<lambda>_.
     bind (set_cpu (\<lambda>c. c\<lparr>rflags := rflags c OR INTERRUPT_FLAG\<rparr>)) (\<lambda>_.
     bind (set_cpu (\<lambda>c. c\<lparr>rsi := rsp c\<rparr>)) (\<lambda>_.
     bind (set_cpu (\<lambda>c. c\<lparr>rdx := 3\<rparr>)) (\<lambda>_.
     bind (set_cpu (\<lambda>c. c\<lparr>rdi := rax c\<rparr>)) (\<lambda>_.
     bind (gets cpu) (\<lambda>c.
     bind (syscall_handler C U (rdi c) (rsi c) (rdx c)) (\<lambda>r.
     bind (set_cpu (\<lambda>c. c\<lparr>rax := r, rcx := rcx left, rdx := rdx left, rsi := rsi left, rdi := rdi left,
       r11 := r11 left, rflags := rflags left\<rparr>)) (\<lambda>_.
     bind (for_each [\<lambda>v c. c\<lparr>rdi := v\<rparr>, \<lambda>v c. c\<lparr>rsi := v\<rparr>, \<lambda>v c. c\<lparr>rdx := v\<rparr>,
             \<lambda>v c. c\<lparr>r11 := v\<rparr>, \<lambda>v c. c\<lparr>rcx := v\<rparr>] pop_reg) (\<lambda>_.
     bind (modify (\<lambda>k. k\<lparr>cpu := (cpu k)\<lparr>rsp := user_rsp k\<rparr>\<rparr>)) (\<lambda>_.
     sysretq))))))))))))"
  by (simp add: syscall_callback_def saved_regs_def bind_assoc ret_bind)

text \<open>Whatever the handler does, as long as it keeps the stack: the caller goes on with its stack
  pointer, flags and arguments, and the result in \<open>rax\<close>.\<close>

lemma syscall_callback_run:
  assumes sp: "stack_page ok free page f k" and top: "syscall_stack k = slot page 512"
  obtains P where "stack_page ok free page f (k\<lparr>pmem := P\<rparr>)" and "\<And>g. g \<noteq> f \<Longrightarrow> P g = pmem k g"
    and "P f 507 = rdi (cpu k)" "P f 508 = rsi (cpu k)" "P f 509 = rdx (cpu k)"
    and "\<And>r k'. syscall_handler C U (rax (cpu k)) (slot page 507) 3 (entered page P k) = Inr (r, k') \<Longrightarrow>
      stack_page ok free page f k' \<Longrightarrow> pmem k' f = P f \<Longrightarrow> cpu k' = cpu (entered page P k) \<Longrightarrow>
      user_rsp k' = rsp (cpu k) \<Longrightarrow>
      syscall_callback C U left k = Inr ((), k'\<lparr>cpu := (cpu k)\<lparr>rax := r, rip := rcx (cpu k), rflags := r11 (cpu k)\<rparr>\<rparr>)"
    and "\<And>e. syscall_handler C U (rax (cpu k)) (slot page 507) 3 (entered page P k) = Inl e \<Longrightarrow>
      syscall_callback C U left k = Inl e"
proof -
  let ?k = "k\<lparr>user_rsp := rsp (cpu k), cpu := (cpu k)\<lparr>rsp := slot page 512\<rparr>\<rparr>"
  have sp1: "stack_page ok free page f ?k" using sp by simp
  have top1: "rsp (cpu ?k) = slot page 512" and len: "length saved_regs \<le> 512"
    and ign: "\<forall>r \<in> set saved_regs. ignores_rsp r" by (simp_all add: saved_regs_def ignores_rsp_def)
  obtain P where P: "for_each saved_regs push_reg ?k = Inr ((), ?k\<lparr>pmem := P, cpu := (cpu ?k)\<lparr>rsp := slot page (512 - length saved_regs)\<rparr>\<rparr>)"
    "stack_page ok free page f (?k\<lparr>pmem := P\<rparr>)" "\<And>g. g \<noteq> f \<Longrightarrow> P g = pmem ?k g"
    "\<And>i. i < length saved_regs \<Longrightarrow> P f (of_nat (512 - 1 - i)) = (saved_regs ! i) (cpu ?k)"
    using push_regs_run[OF sp1 le_refl len top1 ign] by metis
  have w: "P f 507 = rdi (cpu k)" "P f 508 = rsi (cpu k)" "P f 509 = rdx (cpu k)" "P f 510 = r11 (cpu k)"
    "P f 511 = rcx (cpu k)"
    using P(4)[of 4] P(4)[of 3] P(4)[of 2] P(4)[of 1] P(4)[of 0] by (simp_all add: saved_regs_def)
  have pushed: "for_each saved_regs push_reg ?k = Inr ((), ?k\<lparr>pmem := P, cpu := (cpu ?k)\<lparr>rsp := slot page 507\<rparr>\<rparr>)"
    using P(1) by (simp add: saved_regs_def)
  have enter: "syscall_callback C U left k =
      bind (syscall_handler C U (rax (cpu k)) (slot page 507) 3) (\<lambda>r.
      bind (set_cpu (\<lambda>c. c\<lparr>rax := r, rcx := rcx left, rdx := rdx left, rsi := rsi left, rdi := rdi left,
        r11 := r11 left, rflags := rflags left\<rparr>)) (\<lambda>_.
      bind (for_each [\<lambda>v c. c\<lparr>rdi := v\<rparr>, \<lambda>v c. c\<lparr>rsi := v\<rparr>, \<lambda>v c. c\<lparr>rdx := v\<rparr>,
              \<lambda>v c. c\<lparr>r11 := v\<rparr>, \<lambda>v c. c\<lparr>rcx := v\<rparr>] pop_reg) (\<lambda>_.
      bind (modify (\<lambda>k. k\<lparr>cpu := (cpu k)\<lparr>rsp := user_rsp k\<rparr>\<rparr>)) (\<lambda>_.
      sysretq)))) (entered page P k)"
    unfolding callback_pushes
    by (simp add: bind_modify bind_gets set_cpu_def top bind_run_Inr pushed entered_def)
  show thesis
  proof (rule that[of P])
    show "stack_page ok free page f (k\<lparr>pmem := P\<rparr>)" using P(2) by (rule stack_page_cong) simp_all
    show "P g = pmem k g" if "g \<noteq> f" for g using P(3)[OF that] by simp
    show "P f 507 = rdi (cpu k)" "P f 508 = rsi (cpu k)" "P f 509 = rdx (cpu k)" by (rule w)+
    show "syscall_callback C U left k = Inl e"
      if "syscall_handler C U (rax (cpu k)) (slot page 507) 3 (entered page P k) = Inl e" for e
      unfolding enter using that by (simp add: bind_run_Inl)
    fix r k'
    assume h: "syscall_handler C U (rax (cpu k)) (slot page 507) 3 (entered page P k) = Inr (r, k')"
      and sp': "stack_page ok free page f k'" and m: "pmem k' f = P f" and c0: "cpu k' = cpu (entered page P k)"
      and u: "user_rsp k' = rsp (cpu k)"
    have c: "cpu k' = (cpu k)\<lparr>rsp := slot page 507, rflags := rflags (cpu k) OR INTERRUPT_FLAG,
        rsi := slot page 507, rdx := 3, rdi := rax (cpu k)\<rparr>" using c0 by (simp add: entered_def)
    have pop: "pop_reg upd (k'\<lparr>cpu := d\<rparr>) = Inr ((), k'\<lparr>cpu := (upd (P f (of_nat j)) d)\<lparr>rsp := slot page (Suc j)\<rparr>\<rparr>)"
      if "rsp d = slot page j" "j < 512" for upd d j
      using pop_reg_run[of ok free page f "k'\<lparr>cpu := d\<rparr>" j upd] that sp' m by simp
    show "syscall_callback C U left k = Inr ((), k'\<lparr>cpu := (cpu k)\<lparr>rax := r, rip := rcx (cpu k), rflags := r11 (cpu k)\<rparr>\<rparr>)"
      unfolding enter
      by (simp add: h set_cpu_def bind_assoc ret_bind c run_simps pop[where j = 507] pop[where j = 508]
          pop[where j = 509] pop[where j = 510] pop[where j = 511] w sysretq_def u)
  qed
qed

section \<open>Printing\<close>

text \<open>The memory of the process holds the text in UTF-8 at \<open>ptr\<close>, in pages that user mode may access.\<close>

definition text_in :: "('t, 'z) machine_scheme \<Rightarrow> u64 \<Rightarrow> u64 \<Rightarrow> rstr \<Rightarrow> bool" where
  "text_in m ptr len cs \<longleftrightarrow>
     ptr \<noteq> 0 \<and> 0 < len \<and> unat ptr + unat len \<le> unat user_limit \<and> (\<forall>c \<in> set cs. is_char c) \<and>
     unat len = length (utf8_encode cs) \<and>
     (\<forall>i < unat len. user_page m (containing_address (ptr + of_nat i)) \<and>
        byte_at m (ptr + of_nat i) = Some (utf8_encode cs ! i))"

lemma user_address:
  assumes "unat va < unat user_limit"
  shows "va_p4 va \<noteq> 510" and "p4_index (containing_address va) \<noteq> 510"
proof -
  have u: "unat va < 0x7FFFFFFFF000" using assms by (simp add: user_limit_def)
  have "va_p4 va \<le> drop_bit 39 va" unfolding va_p4_def by (rule word_and_le2)
  moreover have "unat (drop_bit 39 va) < 256" using u by (simp add: drop_bit_eq_div unat_div)
  ultimately have "unat (va_p4 va) < 256" by (simp add: word_le_nat_alt)
  then show "va_p4 va \<noteq> 510" by auto
  have "number (containing_address va) < 2 ^ 35"
    using u by (simp add: containing_address_def word_less_nat_alt unat_div)
  from mappableD(4)[OF lower_half_mappable[OF this]] show "p4_index (containing_address va) \<noteq> 510"
    by (simp add: containing_address_def nth_page_def)
qed

lemma text_in_data:
  assumes t: "text_in m ptr len cs" and inv: "pt_inv ok free m (cr3 m)"
    and data: "\<And>g. g \<noteq> f \<Longrightarrow> pmem m' g = pmem m g" and f: "f \<notin> tables m (cr3 m)"
    and same: "cr3 m' = cr3 m" "phys_trees m' = phys_trees m"
    and apart: "\<forall>i < unat len. \<forall>w u. mmu_translate m (ptr + of_nat i) \<noteq> Some (f, w, u)"
  shows "text_in m' ptr len cs"
proof -
  have "f \<noteq> cr3 m" using f tables_root by metis
  then have d: "\<forall>g \<in> insert (cr3 m) (tables m (cr3 m)). pmem m' g = pmem m g" using f by (auto intro!: data)
  then have d': "\<forall>g \<in> tables m (cr3 m). pmem m' g = pmem m g" by blast
  have "user_page m' (containing_address (ptr + of_nat i)) \<and> byte_at m' (ptr + of_nat i) = Some (utf8_encode cs ! i)"
    if i: "i < unat len" for i
  proof -
    let ?va = "ptr + of_nat i :: u64"
    have le: "unat ptr + unat len \<le> unat user_limit" using t by (simp add: text_in_def)
    have "unat ?va = unat ptr + i"
      using i le by (simp add: user_limit_def unat_word_ariths unat_of_nat take_bit_nat_eq_self)
    then have va: "unat ?va < unat user_limit" using i le by simp
    have u: "user_page m (containing_address ?va)" and b: "byte_at m ?va = Some (utf8_encode cs ! i)"
      using t i by (simp_all add: text_in_def)
    have "phys_walk m' (cr3 m) (containing_address ?va) = phys_walk m (cr3 m) (containing_address ?va)"
      by (rule data_write(3)[OF inv d same user_address(2)[OF va]])
    then have u': "user_page m' (containing_address ?va)" using u same by (simp add: user_page_def)
    have "mmu_translate m' ?va = mmu_translate m ?va"
      by (rule mmu_data[OF d' same(1) user_address(1)[OF va]])
    moreover obtain g w v where g: "mmu_translate m ?va = Some (g, w, v)"
      using b by (auto simp: byte_at_def split: option.splits)
    moreover have "g \<noteq> f" using apart[rule_format, OF i, of w v] g by auto
    ultimately have "byte_at m' ?va = byte_at m ?va" using data[of g] by (simp add: byte_at_def)
    with u' b show ?thesis by simp
  qed
  then show ?thesis using t by (simp add: text_in_def)
qed

lemma read_arg_run:
  assumes "stack_page ok free page f k"
  shows "read_arg (slot page 507) 3 0 k = Inr (pmem k f 507, k)" "read_arg (slot page 507) 3 1 k = Inr (pmem k f 508, k)"
    "read_arg (slot page 507) 3 2 k = Inr (pmem k f 509, k)"
  using stack_access(1)[OF assms, of 507] stack_access(1)[OF assms, of 508] stack_access(1)[OF assms, of 509]
  by (simp_all add: read_arg_def slot_def add.assoc)

lemma syscall_print_run:
  assumes "x86_64_contract C" and "pt_inv ok free k (cr3 k)" and "text_in k ptr len cs"
    and "write_str (overflow_checks C) cs (vga k) = Inr ((), w)"
  shows "syscall_print C ptr len k = Inr (0, k\<lparr>vga := w\<rparr>)"
proof -
  note t = assms(3)[unfolded text_in_def]
  have "try_from_user C 1 1 (Some ptr) len k = Inr (Inr (ptr, len), k)"
    using try_from_user_below[OF assms(1,2), of len ptr] t by simp
  moreover have "read_slice ptr (unat len) k = Inr (utf8_encode cs, k)"
    using read_slice_run[of "utf8_encode cs" k ptr] t by simp
  moreover have "from_utf8 (utf8_encode cs) = Some cs" using t by (intro from_utf8_encode) blast
  ultimately show ?thesis using assms(4) t by (simp add: syscall_print_def run_simps)
qed

lemma print_callback:
  assumes x: "x86_64_contract C" and sp: "stack_page ok free page f k" and top: "syscall_stack k = slot page 512"
 and num: "rax (cpu k) = 3" and t: "text_in k (rdi (cpu k)) (rsi (cpu k)) cs"
    and apart: "\<forall>i < unat (rsi (cpu k)). \<forall>w u. mmu_translate k (rdi (cpu k) + of_nat i) \<noteq> Some (f, w, u)"
    and wr: "write_str (overflow_checks C) cs (vga k) = Inr ((), w)"
  obtains P where "syscall_callback C U left k = Inr ((), k\<lparr>pmem := P, user_rsp := rsp (cpu k), vga := w,
      cpu := (cpu k)\<lparr>rax := 0, rip := rcx (cpu k), rflags := r11 (cpu k)\<rparr>\<rparr>)"
    and "\<And>g. g \<noteq> f \<Longrightarrow> P g = pmem k g"
proof -
  obtain P where sp1: "stack_page ok free page f (k\<lparr>pmem := P\<rparr>)" and same: "\<And>g. g \<noteq> f \<Longrightarrow> P g = pmem k g"
    and args: "P f 507 = rdi (cpu k)" "P f 508 = rsi (cpu k)"
    and resume: "\<And>r k'. syscall_handler C U (rax (cpu k)) (slot page 507) 3 (entered page P k) = Inr (r, k') \<Longrightarrow>
      stack_page ok free page f k' \<Longrightarrow> pmem k' f = P f \<Longrightarrow> cpu k' = cpu (entered page P k) \<Longrightarrow>
      user_rsp k' = rsp (cpu k) \<Longrightarrow>
      syscall_callback C U left k = Inr ((), k'\<lparr>cpu := (cpu k)\<lparr>rax := r, rip := rcx (cpu k), rflags := r11 (cpu k)\<rparr>\<rparr>)"
    by (rule syscall_callback_run[OF sp top]) blast
  let ?k = "entered page P k"
  have st: "pmem ?k = P" "cr3 ?k = cr3 k" "phys_trees ?k = phys_trees k" "vga ?k = vga k"
    "user_rsp ?k = rsp (cpu k)" by (simp_all add: entered_def)
  have sp2: "stack_page ok free page f ?k" using sp1 by (rule stack_page_cong) (simp_all add: st)
  have inv: "pt_inv ok free k (cr3 k)" and f: "f \<notin> tables k (cr3 k)" using sp by (simp_all add: stack_page_def)
  have t2: "text_in ?k (rdi (cpu k)) (rsi (cpu k)) cs"
    by (rule text_in_data[OF t inv _ f _ _ apart]) (simp_all add: st same)
  have "pt_inv ok free ?k (cr3 ?k)" using sp2 by (simp add: stack_page_def)
  then have "syscall_print C (rdi (cpu k)) (rsi (cpu k)) ?k = Inr (0, ?k\<lparr>vga := w\<rparr>)"
    by (rule syscall_print_run[OF x _ t2]) (simp add: wr st)
  then have "syscall_handler C U 3 (slot page 507) 3 ?k = Inr (0, ?k\<lparr>vga := w\<rparr>)"
    by (simp add: syscall_handler_def syscall_from_u64_def run_simps read_arg_run[OF sp2] st args)
  then have "syscall_callback C U left k = Inr ((), (?k\<lparr>vga := w\<rparr>)\<lparr>cpu := (cpu k)\<lparr>rax := 0, rip := rcx (cpu k), rflags := r11 (cpu k)\<rparr>\<rparr>)"
    using sp2 by (intro resume) (simp_all add: num st)
  then show thesis using same by (intro that[of P]) (simp_all add: entered_def)
qed

lemma text_in_cpu [simp]: "text_in (k\<lparr>cpu := c\<rparr>) ptr len cs = text_in k ptr len cs"
proof -
  have "byte_at (k\<lparr>cpu := c\<rparr>) va = byte_at k va" for va
    using mmu_translate_cong[of "k\<lparr>cpu := c\<rparr>" k] by (simp add: byte_at_def split: option.split)
  moreover have "user_page (k\<lparr>cpu := c\<rparr>) page = user_page k page" for page
    using phys_walk_cong[of "k\<lparr>cpu := c\<rparr>" k] by (simp add: user_page_def)
  ultimately show ?thesis by (simp add: text_in_def)
qed


lemma sample_text: "text_in sample_kernel 0x400000 2 [72, 105]"
proof -
  have e: "utf8_encode [72, 105] = [0x48, 0x69]" by (simp add: utf8_encode_def utf8_encode_char_def)
  have "containing_address 0x400000 = nth_page 0x400" "containing_address 0x400001 = nth_page 0x400"
    by (simp_all add: containing_address_def nth_page_def)
  then show ?thesis
    using sample_kernel_bytes sample_kernel_user
    by (auto simp: text_in_def e is_char_def user_limit_def less_2_cases_iff)
qed


section \<open>Refused buffers\<close>

text \<open>A buffer that a program may pass: not empty, in the lower half, and every byte in a page mapped for user mode.\<close>

definition user_buffer :: "('t, 'z) machine_scheme \<Rightarrow> u64 \<Rightarrow> u64 \<Rightarrow> bool" where
  "user_buffer m ptr len \<longleftrightarrow> ptr \<noteq> 0 \<and> 0 < len \<and> unat ptr + unat len \<le> unat user_limit \<and>
     (\<forall>i < unat len. user_page m (containing_address (ptr + of_nat i)))"

lemma user_buffer_data:
  assumes inv: "pt_inv ok free m (cr3 m)" and data: "\<And>g. g \<noteq> f \<Longrightarrow> pmem m' g = pmem m g"
    and f: "f \<notin> tables m (cr3 m)" and same: "cr3 m' = cr3 m" "phys_trees m' = phys_trees m"
  shows "user_buffer m' ptr len = user_buffer m ptr len"
proof -
  have "f \<noteq> cr3 m" using f tables_root by metis
  then have d: "\<forall>g \<in> insert (cr3 m) (tables m (cr3 m)). pmem m' g = pmem m g" using f by (auto intro!: data)
  have "user_page m' (containing_address va) = user_page m (containing_address va)" if "unat va < unat user_limit" for va
    using data_write(3)[OF inv d same user_address(2)[OF that]] same by (simp add: user_page_def)
  moreover have "unat (ptr + of_nat i :: u64) < unat user_limit"
    if "i < unat len" "unat ptr + unat len \<le> unat user_limit" for i
    using that by (simp add: user_limit_def unat_word_ariths unat_of_nat take_bit_nat_eq_self)
  ultimately show ?thesis unfolding user_buffer_def by blast
qed

lemma syscall_print_refuses:
  assumes "x86_64_contract C" and "pt_inv ok free k (cr3 k)" and "\<not> user_buffer k ptr len"
  shows "syscall_print C ptr len k = Inr (- 1, k)"
proof -
  let ?p = "if ptr = 0 then None else Some ptr"
  obtain res where r: "try_from_user C 1 1 ?p len k = Inr (res, k)"
    "\<forall>b. res = Inr b \<longleftrightarrow> ?p = Some (fst b) \<and> snd b = len \<and> 0 < len \<and> unat (fst b) + unat len \<le> unat user_limit \<and>
       (\<forall>i < unat len. user_page k (containing_address (fst b + of_nat i)))"
    using try_from_user_spec[OF assms(1,2), of ?p len] by blast
  have "res \<noteq> Inr b" for b using r(2)[rule_format, of b] assms(3) unfolding user_buffer_def by (cases "ptr = 0") auto
  then obtain e where "res = Inl e" by (cases res) auto
  with r(1) show ?thesis by (simp add: syscall_print_def run_simps)
qed

text \<open>C14: a program that calls \<open>print\<close> with a buffer that is not all its own, for example one in the kernel's memory,
  one that reaches beyond its pages or the null pointer, gets the error \<open>InvalidBuffer\<close>: nothing is printed,
  no memory but the kernel's stack changes, and the program goes on.\<close>

theorem user_print_refuses:
  assumes "x86_64_contract C" and "stack_page ok free page f k" and "syscall_stack k = slot page 512"
    and "\<not> user_buffer k ptr len"
  shows "\<exists>k'. user_print C U left (ptr, len) k = Inr (Inl UInvalidBuffer, k') \<and> vga k' = vga k \<and>
    rip (cpu k') = rip (cpu k) \<and> rsp (cpu k') = rsp (cpu k) \<and> rflags (cpu k') = rflags (cpu k) \<and>
    (\<forall>g. g \<noteq> f \<longrightarrow> pmem k' g = pmem k g)"
proof -
  let ?c = "(cpu k)\<lparr>rdi := ptr, rsi := len, rax := 3, rcx := rip (cpu k), r11 := rflags (cpu k),
    rip := lstar (cpu k), rflags := rflags (cpu k) AND NOT (sfmask (cpu k))\<rparr>"
  let ?k = "k\<lparr>cpu := ?c\<rparr>"
  have sp: "stack_page ok free page f ?k" using assms(2) by (rule stack_page_cong) simp_all
  have top: "syscall_stack ?k = slot page 512" using assms(3) by simp
  obtain P where sp1: "stack_page ok free page f (?k\<lparr>pmem := P\<rparr>)" and same: "\<And>g. g \<noteq> f \<Longrightarrow> P g = pmem ?k g"
    and args: "P f 507 = rdi (cpu ?k)" "P f 508 = rsi (cpu ?k)"
    and resume: "\<And>r k'. syscall_handler C U (rax (cpu ?k)) (slot page 507) 3 (entered page P ?k) = Inr (r, k') \<Longrightarrow>
      stack_page ok free page f k' \<Longrightarrow> pmem k' f = P f \<Longrightarrow> cpu k' = cpu (entered page P ?k) \<Longrightarrow>
      user_rsp k' = rsp (cpu ?k) \<Longrightarrow>
      syscall_callback C U left ?k = Inr ((), k'\<lparr>cpu := (cpu ?k)\<lparr>rax := r, rip := rcx (cpu ?k), rflags := r11 (cpu ?k)\<rparr>\<rparr>)"
    by (rule syscall_callback_run[OF sp top]) blast
  let ?e = "entered page P ?k"
  have st: "pmem ?e = P" "cr3 ?e = cr3 k" "phys_trees ?e = phys_trees k" "user_rsp ?e = rsp (cpu k)" by (simp_all add: entered_def)
  have sp2: "stack_page ok free page f ?e" using sp1 by (rule stack_page_cong) (simp_all add: st)
  have inv: "pt_inv ok free k (cr3 k)" and f: "f \<notin> tables k (cr3 k)" using assms(2) by (simp_all add: stack_page_def)
  have "user_buffer ?e ptr len = user_buffer k ptr len"
    by (rule user_buffer_data[OF inv _ f]) (use same st in simp_all)
  then have bad: "\<not> user_buffer ?e ptr len" using assms(4) by simp
  have inv2: "pt_inv ok free ?e (cr3 ?e)" using sp2 by (simp add: stack_page_def)
  note syscall_print_refuses[OF assms(1) inv2 bad]
  then have "syscall_handler C U 3 (slot page 507) 3 ?e = Inr (- 1, ?e)"
    using args by (simp add: syscall_handler_def syscall_from_u64_def run_simps read_arg_run[OF sp2] st)
  then have run: "syscall_callback C U left ?k = Inr ((), ?e\<lparr>cpu := (cpu ?k)\<lparr>rax := - 1, rip := rip (cpu k), rflags := rflags (cpu k)\<rparr>\<rparr>)"
    using resume[of "- 1" ?e] sp2 by (simp add: st)
  let ?k' = "?e\<lparr>cpu := (cpu ?k)\<lparr>rax := - 1, rip := rip (cpu k), rflags := rflags (cpu k)\<rparr>\<rparr>"
  have "syscall_raw C U left UPrint (\<lambda>c. c\<lparr>rdi := ptr, rsi := len\<rparr>) k = Inr (- 1, ?k')"
    using run by (simp add: syscall_raw_def set_cpu_def syscall_instruction_def run_simps)
  then have "user_print C U left (ptr, len) k = Inr (Inl UInvalidBuffer, ?k')"
    by (simp add: user_print_def syscall_2_def run_simps res_from_code_def)
  then show ?thesis using same by (intro exI[of _ ?k']) (simp add: entered_def)
qed

theorem user_print_refuses_witness:
  "\<exists>k'. user_print (sample_crates True) \<lparr>uart_write_ok = (\<lambda>_. True)\<rparr> sample_cpu (0xFFFFFFFF80000000, 16) sample_kernel
      = Inr (Inl UInvalidBuffer, k') \<and> vga k' = vga sample_kernel"
proof -
  have "\<not> user_buffer sample_kernel 0xFFFFFFFF80000000 16" by (simp add: user_buffer_def user_limit_def)
  from user_print_refuses[OF sample_x86_64 sample_kernel_stack sample_kernel_top this, of True] show ?thesis by blast
qed

section \<open>Codes\<close>

text \<open>The library reads only the first two error codes as the kernel means them.  The error that \<open>Map\<close> returns for a bad
  page is reported as a bad length, the one for a bad length as a lack of memory, and the kernel's code for a
  lack of memory is unknown to the library.\<close>

lemma error_codes_misread:
  "map (\<lambda>e. res_from_code (sys_error_code e)) [InvalidBuffer, InvalidUtf8, InvalidPage, InvalidPagesLength, SysOutOfMemory] =
    [Inl UInvalidBuffer, Inl UInvalidUtf8, Inl UInvalidPagesLength, Inl UOutOfMemory, Inl (UnknownError (- 5))]"
  by (simp add: res_from_code_def)

end
