(* ===== verification/Cleared_Pages.thy ===== *)
theory Cleared_Pages
  imports Page_Ranges
begin

text \<open>
  Pages that are mapped with \<open>ZeroPage::Zero\<close> one after the other: at the end of the loop all of them are
  still clear, and no two of them have the same frame.  The later steps take their frames, and those
  of new tables, from the free ones, among which the frames of the earlier steps no longer are.
\<close>

section \<open>What a step gives\<close>

text \<open>Page \<open>no\<close> is mapped to the frame \<open>f\<close>, which is not free, holds no table and is all zero.\<close>

definition cleared :: "('t \<Rightarrow> u64 set) \<Rightarrow> ('t, 'z) machine_scheme \<Rightarrow> u64 \<Rightarrow> u64 \<Rightarrow> bool" where
  "cleared free m no f \<longleftrightarrow> (\<exists>e. phys_walk m (cr3 m) (nth_page no) = Some (e, Kib4) \<and> pte_frame e = f) \<and>
     f \<notin> tables m (cr3 m) \<and> f \<notin> phys_free free m \<and> (\<forall>i < 512. pmem m f i = 0)"

definition new_page :: "('t, 'z) machine_scheme \<Rightarrow> ('t, 'z) machine_scheme \<Rightarrow> u64 \<Rightarrow> bool" where
  "new_page m m' no \<longleftrightarrow> mappable (nth_page no) \<and> phys_walk m (cr3 m) (nth_page no) = None \<and>
     phys_walk m' (cr3 m) (nth_page no) \<noteq> None"

text \<open>From \<open>m\<close> to \<open>m'\<close> mapped pages keep their entries, and new ones are clear, with frames of their own that were free.\<close>

definition gives_cleared :: "('t \<Rightarrow> u64 set) \<Rightarrow> ('t, 'z) machine_scheme \<Rightarrow> ('t, 'z) machine_scheme \<Rightarrow> bool" where
  "gives_cleared free m m' \<longleftrightarrow> keeps free (cr3 m) m m' \<and>
     (\<forall>no. mappable (nth_page no) \<and> phys_walk m (cr3 m) (nth_page no) \<noteq> None \<longrightarrow>
        phys_walk m' (cr3 m) (nth_page no) = phys_walk m (cr3 m) (nth_page no)) \<and>
     (\<forall>no. new_page m m' no \<longrightarrow> (\<exists>f \<in> phys_free free m. cleared free m' no f)) \<and>
     (\<forall>no no' f. new_page m m' no \<and> new_page m m' no' \<and> cleared free m' no f \<and> cleared free m' no' f \<longrightarrow> no = no')"

lemma gives_clearedD:
  assumes "gives_cleared free m m'"
  shows "keeps free (cr3 m) m m'" and "cr3 m' = cr3 m" and "phys_free free m' \<subseteq> phys_free free m"
    and "mappable (nth_page no) \<Longrightarrow> phys_walk m (cr3 m) (nth_page no) \<noteq> None \<Longrightarrow>
      phys_walk m' (cr3 m) (nth_page no) = phys_walk m (cr3 m) (nth_page no)"
    and "new_page m m' no \<Longrightarrow> \<exists>f \<in> phys_free free m. cleared free m' no f"
    and "new_page m m' no \<Longrightarrow> new_page m m' no' \<Longrightarrow> cleared free m' no f \<Longrightarrow> cleared free m' no' f \<Longrightarrow> no = no'"
proof -
  show k: "keeps free (cr3 m) m m'" using assms by (simp add: gives_cleared_def)
  show "cr3 m' = cr3 m" "phys_free free m' \<subseteq> phys_free free m" by (rule keeps_cr3[OF k], rule keepsD(5)[OF k])
  show "mappable (nth_page no) \<Longrightarrow> phys_walk m (cr3 m) (nth_page no) \<noteq> None \<Longrightarrow>
      phys_walk m' (cr3 m) (nth_page no) = phys_walk m (cr3 m) (nth_page no)"
    using assms unfolding gives_cleared_def by blast
  show "new_page m m' no \<Longrightarrow> \<exists>f \<in> phys_free free m. cleared free m' no f"
    using assms unfolding gives_cleared_def by blast
  show "new_page m m' no \<Longrightarrow> new_page m m' no' \<Longrightarrow> cleared free m' no f \<Longrightarrow> cleared free m' no' f \<Longrightarrow> no = no'"
    using assms unfolding gives_cleared_def by blast
qed

lemma cleared_unique: "cleared free m no f \<Longrightarrow> cleared free m no g \<Longrightarrow> f = g"
  by (auto simp: cleared_def)

lemma gives_cleared_refl: "gives_cleared free m m"
  by (auto simp: gives_cleared_def keeps_refl new_page_def)

lemma cleared_stays:
  assumes g: "gives_cleared free m m'" and c: "cleared free m no f" and no: "mappable (nth_page no)"
  shows "cleared free m' no f"
proof -
  note G = gives_clearedD[OF g] and K = keepsD[OF gives_clearedD(1)[OF g]]
  have f: "f \<notin> tables m (cr3 m)" "f \<notin> phys_free free m" using c by (simp_all add: cleared_def)
  then have "f \<notin> tables m' (cr3 m)" "f \<notin> phys_free free m'" "pmem m' f = pmem m f" using K(3-5) by auto
  moreover have "phys_walk m' (cr3 m) (nth_page no) = phys_walk m (cr3 m) (nth_page no)"
    using G(4)[OF no] c by (auto simp: cleared_def)
  ultimately show ?thesis using c by (simp add: cleared_def G(2))
qed

lemma gives_cleared_trans:
  assumes a: "gives_cleared free m m1" and b: "gives_cleared free m1 m2"
  shows "gives_cleared free m m2"
proof -
  note A = gives_clearedD[OF a] and B = gives_clearedD[OF b]
  have new: "new_page m m2 no \<longleftrightarrow> new_page m m1 no \<or>
      mappable (nth_page no) \<and> phys_walk m (cr3 m) (nth_page no) = None \<and> new_page m1 m2 no" for no
    using B(4)[of no] by (auto simp: new_page_def A(2))
  have first: "\<exists>f \<in> phys_free free m - phys_free free m1. cleared free m2 no f" if "new_page m m1 no" for no
  proof -
    from A(5)[OF that] obtain f where f: "f \<in> phys_free free m" "cleared free m1 no f" by blast
    have "cleared free m2 no f" by (rule cleared_stays[OF b f(2)]) (use that in \<open>simp add: new_page_def\<close>)
    with f show ?thesis by (auto simp: cleared_def)
  qed
  have two: "no = no'" if n: "new_page m m1 no" "new_page m m2 no'" and c: "cleared free m2 no f" "cleared free m2 no' f" for no no' f
  proof (cases "new_page m m1 no'")
    case True
    from A(5)[OF n(1)] A(5)[OF True] obtain g g' where g: "cleared free m1 no g" "cleared free m1 no' g'" by blast
    have "cleared free m2 no g" "cleared free m2 no' g'"
      using cleared_stays[OF b g(1)] cleared_stays[OF b g(2)] n(1) True by (simp_all add: new_page_def)
    then have "g = f" "g' = f" using c cleared_unique by blast+
    with A(6)[OF n(1) True] g show ?thesis by blast
  next
    case False
    then have "new_page m1 m2 no'" using n(2) new by blast
    from B(5)[OF this] c(2) cleared_unique have "f \<in> phys_free free m1" by blast
    with first[OF n(1)] c(1) cleared_unique show ?thesis by blast
  qed
  show ?thesis
    unfolding gives_cleared_def
  proof (intro conjI allI impI; (elim conjE)?)
    show "keeps free (cr3 m) m m2" using A(1,2) B(1) keeps_trans by metis
    show "phys_walk m2 (cr3 m) (nth_page no) = phys_walk m (cr3 m) (nth_page no)"
      if "mappable (nth_page no)" "phys_walk m (cr3 m) (nth_page no) \<noteq> None" for no
      using A(4)[OF that] B(4)[OF that(1)] that(2) by (simp add: A(2))
    show "\<exists>f \<in> phys_free free m. cleared free m2 no f" if "new_page m m2 no" for no
      using that first B(5)[of no] A(3) new by blast
    show "no = no'" if "new_page m m2 no" "new_page m m2 no'" "cleared free m2 no f" "cleared free m2 no' f" for no no' f
      using two[of no no' f] two[of no' no f] B(6)[of no no' f] that new by blast
  qed
qed

section \<open>The loop\<close>

lemma try_step_gives:
  assumes fc: "friendly_contract C ok free" and x: "x86_64_contract C" and inv: "pt_inv ok free m (cr3 m)"
    and flags: "flags_ok flags" "pte_writable flags" and p: "mappable (nth_page p)"
    and run: "try_step C flags invplg False Zero p m = Inr (res, m')"
  shows "pt_inv ok free m' (cr3 m)" and "gives_cleared free m m'"
proof -
  have walk: "walk_page_table C (nth_page p) m = Inr (phys_walk m (cr3 m) (nth_page p), m)"
    by (rule walk_page_table_phys[OF pt_invD(1)[OF inv] x pt_inv_walk_supported[OF inv mappableD(4)[OF p]]])
  have "pt_inv ok free m' (cr3 m) \<and> gives_cleared free m m'"
  proof (cases "phys_walk m (cr3 m) (nth_page p)")
    case (Some w)
    then have "m' = m" using run by (simp add: try_step_def run_simps numbered_page_run[OF p] walk)
    with inv show ?thesis by (simp add: gives_cleared_refl)
  next
    case None
    then have nohuge: "\<forall>e. phys_walk m (cr3 m) (nth_page p) \<noteq> Some (e, Mib2)" by simp
    have wr: "Zero = Zero \<longrightarrow> pte_writable flags \<or> \<not> cr0_wp m" using flags(2) by simp
    have mp: "\<exists>r. map_page C (nth_page p) flags invplg Zero m = Inr (r, m')"
      using run None by (auto simp: try_step_def bind_def ret_def numbered_page_run[OF p] walk split: sum.splits)
    from fc x inv refl p flags(1) nohuge wr show ?thesis
    proof (cases rule: map_page_cases[where invplg = invplg])
      case (oom m1)
      then have "m1 = m'" using mp by simp
      with oom show ?thesis
        using mappableD(4) by (auto simp: gives_cleared_def grows_def new_page_def)
    next
      case (ok f m1)
      then have m1: "m1 = m'" using mp by simp
      note O = ok(2-8)[unfolded m1]
      have w: "phys_walk m' (cr3 m) (nth_page no) = (if no = p then Some (f OR (flags OR PRESENT), Kib4)
          else phys_walk m (cr3 m) (nth_page no))" if "mappable (nth_page no)" for no
        using O(6)[OF mappableD(4)[OF that]] page_indices_inject[OF that p] by (auto simp: nth_page_def)
      then have new: "new_page m m' no \<longleftrightarrow> no = p" for no using p None by (auto simp: new_page_def split: if_splits)
      note b = phys_free_bound[OF fc pt_invD(2)[OF inv] O(3)]
      have "f < 2 ^ 48" by (rule order_less_trans[OF b(1)]) simp
      then have "entry_args f flags" using b(2) flags(1) by (simp add: entry_args_def flags_ok_def)
      then have "pte_frame (f OR (flags OR PRESENT)) = f" by (rule entry_args_present(2))
      then have "cleared free m' p f" using w[OF p] O(4,5,7) keeps_cr3[OF O(2)] by (simp add: cleared_def)
      then have "\<exists>f \<in> phys_free free m. cleared free m' p f" using O(3) by blast
      moreover have "phys_walk m' (cr3 m) (nth_page no) = phys_walk m (cr3 m) (nth_page no)"
        if "mappable (nth_page no)" "phys_walk m (cr3 m) (nth_page no) \<noteq> None" for no
        using w[OF that(1)] that(2) None by auto
      ultimately show ?thesis using O(1,2) by (simp add: gives_cleared_def new del: not_None_eq)
    qed
  qed
  then show "pt_inv ok free m' (cr3 m)" "gives_cleared free m m'" by auto
qed

lemma try_steps_give:
  assumes fc: "friendly_contract C ok free" and x: "x86_64_contract C" and flags: "flags_ok flags" "pte_writable flags"
    and "pt_inv ok free m (cr3 m)" and "\<forall>no \<in> set ps. mappable (nth_page no)"
    and "for_each_res ps (try_step C flags invplg False Zero) m = Inr (res, m')"
  shows "gives_cleared free m m'"
  using assms(5-)
proof (induction ps arbitrary: m)
  case Nil
  then show ?case by (simp add: ret_run gives_cleared_refl)
next
  case (Cons p ps)
  from Cons.prems(3) consider (stop) e where "try_step C flags invplg False Zero p m = Inr (Inl e, m')"
    | (go) m1 where "try_step C flags invplg False Zero p m = Inr (Inr (), m1)"
        "for_each_res ps (try_step C flags invplg False Zero) m1 = Inr (res, m')"
    by (auto elim!: bind_res_InrE)
  then show ?case
  proof cases
    case stop
    from try_step_gives(2)[OF fc x Cons.prems(1) flags _ this] Cons.prems(2) show ?thesis by simp
  next
    case go
    have p: "mappable (nth_page p)" using Cons.prems(2) by simp
    note S = try_step_gives[OF fc x Cons.prems(1) flags p go(1)]
    then have "pt_inv ok free m1 (cr3 m1)" using gives_clearedD(2) by metis
    from Cons.IH[OF this _ go(2)] Cons.prems(2) show ?thesis by (auto intro: gives_cleared_trans[OF S(2)])
  qed
qed

lemma try_map_user_range_gives:
  assumes "friendly_contract C ok free" and "x86_64_contract C" and "flags_ok flags" "pte_writable flags"
    and "pt_inv ok free m (cr3 m)" and "page_size pg_start = Some Kib4" "page_size pg_end = Some Kib4"
    and "number pg_start < 2 ^ 52" "number pg_end < 2 ^ 52"
    and run: "try_map_user_range C pg_start pg_end flags invplg False Zero m = Inr (res, m')"
  shows "gives_cleared free m m'"
proof (cases "user_range_error C pg_start pg_end (number pg_start * 4096) (number pg_end * 4096)")
  case None
  have "mappable (nth_page no)" if "no \<in> set (range_incl (number pg_start) (number pg_end))" for no
    using user_range_ok(1)[OF None] lower_half_mappable that by (simp add: set_range_incl)
  with run None show ?thesis
    unfolding try_map_user_range_run[OF assms(6-9)] by (intro try_steps_give[OF assms(1-5)]) simp_all
qed (use run in \<open>simp add: try_map_user_range_run[OF assms(6-9)] gives_cleared_refl\<close>)

text \<open>The frame of a page.\<close>

definition frame_at :: "('t, 'z) machine_scheme \<Rightarrow> u64 \<Rightarrow> u64" where
  "frame_at m no = (case phys_walk m (cr3 m) (nth_page no) of Some (e, _) \<Rightarrow> pte_frame e | None \<Rightarrow> 0)"

lemma cleared_frame_at: "cleared free m no f \<Longrightarrow> frame_at m no = f"
  by (auto simp: cleared_def frame_at_def)

lemma new_frames_distinct:
  assumes "gives_cleared free m m'" and "\<forall>no \<in> X. new_page m m' no"
  shows "inj_on (frame_at m') X"
proof (rule inj_onI)
  note G = gives_clearedD[OF assms(1)]
  fix no no' assume n: "no \<in> X" "no' \<in> X" "frame_at m' no = frame_at m' no'"
  then obtain f g where "cleared free m' no f" "cleared free m' no' g" using G(5) assms(2) by meson
  moreover from this have "f = g" using n(3) cleared_frame_at by metis
  ultimately show "no = no'" using G(6) assms(2) n(1,2) by blast
qed

end
