(* ===== verification/Syscall_Map.thy ===== *)
theory Syscall_Map
  imports Syscall_Properties Cleared_Pages
begin

text \<open>
  The system call \<open>Map\<close>: what a program gets, and that asking for pages it may not write stops the
  kernel, which clears them through the mapping it has just made.
\<close>

declare bit_numeral_word_iff [simp del]

section \<open>The flags a program asks for\<close>

definition user_entry_flags :: "u64 \<Rightarrow> u64" where
  "user_entry_flags flags = entry_flags_from_user (user_flags_from_bits_truncate flags)"

lemma bit_3: "bit (3 :: u64) n \<longleftrightarrow> n < 2"
  using bit_mask_iff[of 2 n, where 'a = u64] by (auto simp: mask_eq_exp_minus_1 dest: bit_imp_le_length)

lemma contains_exp: "n < 64 \<Longrightarrow> contains x (push_bit n 1) \<longleftrightarrow> bit x n"
  by (auto simp: contains_def bit_simps intro!: bit_word_eqI dest!: arg_cong[where f = "\<lambda>w. bit w n"])

lemma user_entry_flags_bits:
  "flags_ok (user_entry_flags flags)" "bit (user_entry_flags flags) 0"
  "bit (user_entry_flags flags) 1 = bit flags 0" "bit (user_entry_flags flags) 2"
  "bit (user_entry_flags flags) 63 = (\<not> bit flags 1)"
proof -
  let ?u = "user_flags_from_bits_truncate flags"
  have u: "?u = flags AND 3" by (simp add: user_flags_from_bits_truncate_def USER_WRITABLE_def USER_EXECUTABLE_def)
  have c: "contains ?u USER_WRITABLE = bit flags 0" "contains ?u USER_EXECUTABLE = bit flags 1"
    using contains_exp[of 0 ?u] contains_exp[of 1 ?u]
    by (simp_all add: USER_WRITABLE_def USER_EXECUTABLE_def u bit_and_iff bit_3)
  have e: "user_entry_flags flags = (if bit flags 0 then 7 else 5) OR (if bit flags 1 then 0 else push_bit 63 1)"
    by (simp add: user_entry_flags_def entry_flags_from_user_def c Let_def flag_defs)
  show "flags_ok (user_entry_flags flags)" "bit (user_entry_flags flags) 0"
    "bit (user_entry_flags flags) 1 = bit flags 0" "bit (user_entry_flags flags) 2"
    "bit (user_entry_flags flags) 63 = (\<not> bit flags 1)"
    unfolding e flags_ok_def by (simp_all add: bit_or_iff bit_numeral_word_iff)
qed

section \<open>Mapping for a program\<close>

lemma syscall_map_try:
  assumes "addr AND 0xFFF = 0" and "len \<noteq> 0" and "unat (addr div 4096) + unat len \<le> 2 ^ 52"
  shows "syscall_map C addr len flags m =
    bind (try_map_user_range C (containing_address addr) (nth_page (addr div 4096 + (len - 1)))
           (user_entry_flags flags) Invalidate False Zero)
      (\<lambda>res. ret (case res of Inr _ \<Rightarrow> 0 | Inl _ \<Rightarrow> sys_error_code InvalidPage)) m"
    and "unat (addr div 4096 + (len - 1)) = unat (addr div 4096) + unat len - 1"
proof -
  have one: "1 \<le> len" using assms(2) by (simp add: word_le_nat_alt Suc_leI unat_gt_0)
  then have u: "unat (len - 1) = unat len - 1" and l1: "1 \<le> unat len" by (simp_all add: unat_sub word_le_nat_alt)
  have lt: "unat (addr div 4096) + unat (len - 1) < 2 ^ 64" using assms(3) u by simp
  have "page_add chk (containing_address addr) (len - 1) m = Inr (nth_page (addr div 4096 + (len - 1)), m)" for chk
    using lt by (simp add: page_add_def containing_address_def run_simps nth_page_def)
  then show "syscall_map C addr len flags m =
    bind (try_map_user_range C (containing_address addr) (nth_page (addr div 4096 + (len - 1)))
           (user_entry_flags flags) Invalidate False Zero)
      (\<lambda>res. ret (case res of Inr _ \<Rightarrow> 0 | Inl _ \<Rightarrow> sys_error_code InvalidPage)) m"
    using assms(1,2) one by (simp add: syscall_map_def Let_def run_simps user_entry_flags_def)
  show "unat (addr div 4096 + (len - 1)) = unat (addr div 4096) + unat len - 1"
    using lt u l1 by (simp add: unat_word_ariths)
qed

text \<open>A page a program has been given: it is mapped, for user mode, to a frame that was free and is now zero.\<close>

definition given_page :: "('t \<Rightarrow> u64 set) \<Rightarrow> u64 \<Rightarrow> ('t, 'z) machine_scheme \<Rightarrow> ('t, 'z) machine_scheme \<Rightarrow> u64 \<Rightarrow> bool" where
  "given_page free flags m m' no \<longleftrightarrow> (\<exists>e. phys_walk m' (cr3 m) (nth_page no) = Some (e, Kib4) \<and>
     pte_frame e \<in> phys_free free m \<and> pte_user e \<and> pte_writable e \<and> bit e 63 = (\<not> bit flags 1) \<and>
     (\<forall>i < 512. pmem m' (pte_frame e) i = 0))"

lemma mapped_fresh_given:
  assumes "friendly_contract C ok free" and "phys_ok ok m" and "bit flags 0"
    and "mapped_fresh free (user_entry_flags flags) m m' no" and g: "gives_cleared free m m'" and "new_page m m' no"
  shows "given_page free flags m m' no"
proof -
  let ?fl = "user_entry_flags flags OR PRESENT"
  from assms(4) obtain f where f: "f \<in> phys_free free m"
    "phys_walk m' (cr3 m) (nth_page no) = Some (f OR ?fl, Kib4)" by (auto simp: mapped_fresh_def)
  note b = phys_free_bound[OF assms(1,2) f(1)]
  have f52: "f < 2 ^ 52" by (rule order_less_trans[OF b(1)]) simp
  have ok: "?fl AND 0x000FFFFFFFFFF000 = 0"
    using user_entry_flags_bits(1)[of flags] by (simp add: flags_ok_def PRESENT_def bit.conj_disj_distrib2)
  note E = entry_fields[OF b(2) f52 ok]
  have "frame_at m' no = f" using f(2) E(1) gives_clearedD(2)[OF g] by (simp add: frame_at_def)
  with gives_clearedD(5)[OF g assms(6)] have z: "\<forall>i < 512. pmem m' f i = 0"
    using cleared_frame_at unfolding cleared_def by metis
  have "\<not> bit f 63" using less_bit[OF f52, of 63] by simp
  then show ?thesis
    using z f user_entry_flags_bits[of flags] assms(3) E(1) E(2)[of 1] E(2)[of 2]
    by (auto simp: given_page_def pte_user_def pte_writable_def bit_or_iff PRESENT_def bit_numeral_word_iff)
qed



section \<open>Read-only pages\<close>

lemma memset_readonly:
  assumes page: "mappable page" and active: "cr3 m = r" and walk: "phys_walk m r page = Some (e, Kib4)"
    and ro: "\<not> pte_writable e" and wp: "cr0_wp m"
  shows "memset_volatile_64bit (number page * 4096) 0 4096 m = Inl (Page_fault (number page * 4096))"
proof -
  from walk obtain p1 where t: "phys_table m r (page_path page) = Some p1"
    "pmem m p1 (p1_index page) = e" "pte_present e" by (rule walk_tables)
  have "\<exists>u. mmu_translate m (number page * 4096) = Some (pte_frame e, False, u)"
    using mmu_page[OF page active _ t, of 0] ro by simp
  then have "vwrite (number page * 4096) 0 m = Inl (Page_fault (number page * 4096))"
    using wp by (auto simp: vwrite_def)
  moreover have "number page * 4096 AND 7 = 0"
    using bit_page_word[of 0 page] by (auto intro!: bit_eqI simp: bit_and_iff bit_push_bit_iff bit_7)
  ultimately show ?thesis
    using range_excl_Cons[of 0 "512 :: u64"] by (simp add: memset_volatile_64bit_def run_simps)
qed

lemma map_page_readonly:
  assumes fc: "friendly_contract C ok free" and x: "x86_64_contract C" and inv: "pt_inv ok free m (cr3 m)"
    and page: "mappable page" and flags: "flags_ok flags" "\<not> pte_writable flags" and wp: "cr0_wp m"
    and walk: "phys_walk m (cr3 m) page = None" and tab: "phys_table m (cr3 m) (page_path page) = Some p1"
    and some: "phys_allocate C 0 m = Inr (Some f, m1)"
  shows "map_page C page flags invplg Zero m = Inl (Page_fault (number page * 4096))"
proof -
  let ?r = "cr3 m"
  note P = mappableD[OF page] and I = pt_invD[OF inv]
  from fc x I(2) show ?thesis
  proof (cases rule: phys_allocate_cases[where order = 0])
    case (out ts)
    with some show ?thesis by simp
  next
    case (got f ts)
    let ?m1 = "m\<lparr>phys_trees := Some ts\<rparr>"
    have f: "f \<in> phys_free free m" and fr: "phys_free free ?m1 = phys_free free m - {f}"
      using got(3,4) by simp_all
    note A = alloc_took[OF inv got(2) f fr] and b = phys_free_bound[OF fc I(2) f]
    have args: "entry_args f flags" using b flags(1)
      by (auto simp: entry_args_def flags_ok_def intro: order_less_trans)
    have nohuge: "\<forall>e. phys_walk ?m1 ?r page \<noteq> Some (e, Mib2)"
      using walk A(2) P(4) by (simp add: grows_def)
    have "phys_table ?m1 ?r (page_path page) = Some p1"
      using tab by (simp add: phys_table_cong[of ?m1 m])
    note yes = map_to_existing[OF x A(1) page args this, of invplg]
    from fc x A(1) page args nohuge show ?thesis
    proof (cases rule: map_to_cases[where invplg = invplg])
      case (oom m0 m')
      with yes show ?thesis by simp
    next
      case (ok m2)
      have st: "cr3 m2 = ?r" "cr0_wp m2" using keepsD(1)[OF ok(3)] wp by (simp_all add: same_statics_def)
      have fl: "(flags OR PRESENT) AND 0x000FFFFFFFFFF000 = 0"
        using flags(1) by (simp add: flags_ok_def PRESENT_def bit.conj_disj_distrib2)
      have "f < 2 ^ 52" by (rule order_less_trans[OF b(1)]) simp
      from entry_fields(2)[OF b(2) this fl, of 1] have "\<not> pte_writable (f OR (flags OR PRESENT))"
        using flags(2) by (simp add: pte_writable_def bit_or_iff PRESENT_def)
      moreover have "phys_walk m2 ?r page = Some (f OR (flags OR PRESENT), Kib4)" using ok(4)[OF P(4)] by simp
      ultimately have "memset_volatile_64bit (number page * 4096) 0 4096 m2 = Inl (Page_fault (number page * 4096))"
        using memset_readonly[OF page st(1) _ _ st(2)] by blast
      then show ?thesis
        by (simp add: map_page_def P(1) run_simps got(1) ok(1) start_address_run[OF P(1,2)])
    qed
  qed
qed

lemma lower_half_bit:
  assumes "no < 2 ^ 35"
  shows "drop_bit 63 (no * 4096 :: u64) \<noteq> 1"
proof -
  have "unat (no * 4096) < 2 ^ 47" using assms by (simp add: unat_word_ariths word_less_nat_alt)
  then have "unat (drop_bit 63 (no * 4096)) = 0" by (simp add: drop_bit_eq_div unat_div)
  then show ?thesis by auto
qed

text \<open>The pages of a request below the stack.\<close>

lemma syscall_map_pages:
  assumes x: "x86_64_contract C" and al: "addr AND 0xFFF = 0" and len: "len \<noteq> 0"
    and low: "unat (addr div 4096) + unat len \<le> unat (number (containing_address STACK_BOTTOM))"
  shows "unat (addr div 4096) + unat len \<le> 2 ^ 52"
    and "mappable (nth_page (addr div 4096))" and "mappable (nth_page (addr div 4096 + (len - 1)))"
    and "addr div 4096 \<le> addr div 4096 + (len - 1)" and "addr div 4096 * 4096 = addr"
    and "user_range_error C (nth_page (addr div 4096)) (nth_page (addr div 4096 + (len - 1))) addr
      ((addr div 4096 + (len - 1)) * 4096) = None"
proof -
  let ?n = "addr div 4096"
  let ?last = "?n + (len - 1)"
  have sb: "unat (number (containing_address STACK_BOTTOM)) = 0x7FFFFFFFD"
    by (simp add: containing_address_def STACK_BOTTOM_def STACK_TOP_def INITIAL_STACK_SIZE_PAGES_def)
  show le: "unat ?n + unat len \<le> 2 ^ 52" using low sb by simp
  note last = syscall_map_try(2)[OF al len le]
  have pos: "1 \<le> unat len" using len by (simp add: Suc_leI unat_gt_0)
  have n35: "?n < 2 ^ 35" and l35: "?last < 2 ^ 35" and nl: "?n \<le> ?last"
    using low sb last pos by (simp_all add: word_less_nat_alt word_le_nat_alt)
  show page: "mappable (nth_page ?n)" and page2: "mappable (nth_page ?last)" and "?n \<le> ?last"
    by (rule lower_half_mappable[OF n35], rule lower_half_mappable[OF l35], rule nl)
  have "unat addr mod 4096 = 0" using al by (simp add: page_aligned_iff)
  then have "unat addr div 4096 * 4096 = unat addr" by (metis add.right_neutral div_mult_mod_eq)
  then have "unat (?n * 4096) = unat addr" using unat_bound[of addr] by (simp add: unat_word_ariths unat_div)
  then show addr: "?n * 4096 = addr" by (simp add: word_unat_eq_iff)
  have "canonical addr" "canonical (?last * 4096)"
    using mappableD(3)[OF page] mappableD(3)[OF page2] addr by (simp_all add: nth_page_def)
  then have vs: "virt_addr_try_new C addr \<noteq> None" "virt_addr_try_new C (?last * 4096) \<noteq> None"
    using x by (simp_all add: x86_64_contract_def)
  have "\<not> number LAST_USABLE_PAGE < ?last" "\<not> number (containing_address STACK_BOTTOM) < ?last"
    using low last pos sb
    by (simp_all add: word_less_nat_alt LAST_USABLE_PAGE_def containing_address_def)
  then show "user_range_error C (nth_page ?n) (nth_page ?last) addr (?last * 4096) = None"
    using vs lower_half_bit[OF n35] lower_half_bit[OF l35] addr by (simp add: user_range_error_def nth_page_def)
qed

text \<open>C38: a program that asks \<open>Map\<close> for a page of its own without \<open>WRITABLE\<close> stops the kernel with a
  page fault at that page: the page is to be cleared, and is cleared through the read-only mapping.\<close>

theorem syscall_map_readonly_stops:
  assumes fc: "friendly_contract C ok free" and x: "x86_64_contract C" and inv: "pt_inv ok free m (cr3 m)"
    and wp: "cr0_wp m" and ro: "\<not> bit flags 0" and al: "addr AND 0xFFF = 0" and len: "len \<noteq> 0"
    and low: "unat (addr div 4096) + unat len \<le> unat (number (containing_address STACK_BOTTOM))"
    and walk: "phys_walk m (cr3 m) (containing_address addr) = None"
    and tab: "phys_table m (cr3 m) (page_path (containing_address addr)) = Some p1"
    and some: "phys_allocate C 0 m = Inr (Some f, m1)"
  shows "syscall_map C addr len flags m = Inl (Page_fault addr)"
proof -
  let ?n = "addr div 4096" and ?fl = "user_entry_flags flags"
  let ?last = "?n + (len - 1)"
  note A = syscall_map_pages[OF x al len low]
  note le = A(1) and page = A(2) and page2 = A(3) and nl = A(4) and addr = A(5) and none = A(6)
  have ca: "containing_address addr = nth_page ?n" by (simp add: containing_address_def nth_page_def)
  have walk': "walk_page_table C (nth_page ?n) m = Inr (None, m)"
    using walk_page_table_phys[OF pt_invD(1)[OF inv] x pt_inv_walk_supported[OF inv mappableD(4)[OF page]]] walk ca by simp
  have mp: "map_page C (nth_page ?n) ?fl Invalidate Zero m = Inl (Page_fault addr)"
    using map_page_readonly[OF fc x inv page user_entry_flags_bits(1)[of flags] _ wp _ _ some]
      user_entry_flags_bits(3)[of flags] ro walk tab ca addr by (simp add: pte_writable_def nth_page_def)
  have st: "try_step C ?fl Invalidate False Zero ?n m = Inl (Page_fault addr)"
    by (simp add: try_step_def bind_def numbered_page_run[OF page] walk' mp ret_def)
  obtain rest where "range_incl ?n ?last = ?n # rest"
    using nl by (auto simp: range_incl_def word_le_nat_alt upt_conv_Cons simp del: upt_Suc)
  then have "for_each_res (range_incl ?n ?last) (try_step C ?fl Invalidate False Zero) m = Inl (Page_fault addr)"
    using st by (simp add: run_simps)
  then have "try_map_user_range C (nth_page ?n) (nth_page ?last) ?fl Invalidate False Zero m = Inl (Page_fault addr)"
    using none mappableD(2)[OF page] mappableD(2)[OF page2] addr
    by (simp add: try_map_user_range_def run_simps start_address_run nth_page_def try_step_def[abs_def])
  then show ?thesis unfolding syscall_map_try(1)[OF al len le] ca by (simp add: run_simps)
qed

theorem syscall_map_readonly_stops_witness:
  "syscall_map (sample_crates True) 0x401000 1 0 mapped_machine = Inl (Page_fault 0x401000)"
proof -
  have inv: "pt_inv list_ok set mapped_machine (cr3 mapped_machine)" using mapped_inv by simp
  have ca: "containing_address 0x401000 = nth_page 0x401" by (simp add: containing_address_def nth_page_def)
  have h: "cr0_wp mapped_machine" "\<not> bit (0 :: u64) 0" "(0x401000 :: u64) AND 0xFFF = 0" "(1 :: u64) \<noteq> 0"
    "unat (0x401000 div 4096 :: u64) + unat (1 :: u64) \<le> unat (number (containing_address STACK_BOTTOM))"
    by (simp_all add: mapped_machine_def sample_machine_def containing_address_def STACK_BOTTOM_def STACK_TOP_def
        INITIAL_STACK_SIZE_PAGES_def)
  have w: "phys_walk mapped_machine (cr3 mapped_machine) (containing_address 0x401000) = None"
    using mapped_page(3) ca by simp
  have t: "phys_table mapped_machine (cr3 mapped_machine) (page_path (containing_address 0x401000)) = Some 0x4000"
    by (simp add: ca page_path_def mapped_next nth_page_def p4_index_def p3_index_def p2_index_def)
  have "list_ok [0x7000]" by (simp add: list_ok_def)
  then have "phys_allocate (sample_crates True) 0 mapped_machine =
      Inr (Some 0x7000, mapped_machine\<lparr>phys_trees := Some (sample_trees [])\<rparr>)"
    by (simp add: phys_allocate_def sample_allocate_loop mapped_machine_def sample_machine_def run_simps)
  from syscall_map_readonly_stops[OF sample_friendly sample_x86_64 inv h w t this] show ?thesis .
qed

section \<open>Calls that stop the kernel\<close>

text \<open>C40: a program can stop the kernel with a system call of its own: with a number that is none of
  the four calls, and with \<open>Unmap\<close> of any page.\<close>

theorem syscall_stops_kernel:
  assumes "stack_page ok free page f k" and "syscall_stack k = slot page 512"
    and "3 < rax (cpu k) \<or> rax (cpu k) = 2 \<and> rdi (cpu k) AND 0xFFF = 0 \<and> rsi (cpu k) \<noteq> 0"
  shows "\<exists>msg. syscall_callback C U left k = Inl (Panic msg)"
proof -
  obtain P where sp: "stack_page ok free page f (k\<lparr>pmem := P\<rparr>)"
    and args: "P f 507 = rdi (cpu k)" "P f 508 = rsi (cpu k)"
    and stops: "\<And>e. syscall_handler C U (rax (cpu k)) (slot page 507) 3 (entered page P k) = Inl e \<Longrightarrow>
      syscall_callback C U left k = Inl e"
    by (rule syscall_callback_run[OF assms(1,2)]) blast
  have sp2: "stack_page ok free page f (entered page P k)" using sp by (rule stack_page_cong) (simp_all add: entered_def)
  have mem: "pmem (entered page P k) = P" by (simp add: entered_def)
  from assms(3) have "\<exists>msg. syscall_handler C U (rax (cpu k)) (slot page 507) 3 (entered page P k) = Inl (Panic msg)"
  proof (elim disjE conjE)
    assume "3 < rax (cpu k)"
    then have "syscall_from_u64 (rax (cpu k)) = None" by (auto simp: syscall_from_u64_def)
    then show ?thesis by (simp add: syscall_handler_def run_simps)
  next
    assume "rax (cpu k) = 2" "rdi (cpu k) AND 0xFFF = 0" "rsi (cpu k) \<noteq> 0"
    then show ?thesis
      by (simp add: syscall_handler_def syscall_from_u64_def run_simps read_arg_run[OF sp2] mem args syscall_unmap_def)
  qed
  then show ?thesis using stops by blast
qed

theorem syscall_stops_kernel_witness:
  "\<exists>msg. syscall_callback (sample_crates True) \<lparr>uart_write_ok = (\<lambda>_. True)\<rparr> sample_cpu
      (sample_kernel\<lparr>cpu := sample_cpu\<lparr>rax := 7\<rparr>\<rparr>) = Inl (Panic msg)"
proof -
  let ?k = "sample_kernel\<lparr>cpu := sample_cpu\<lparr>rax := 7\<rparr>\<rparr>"
  have "stack_page list_ok set (nth_page 0x401) 0xA000 ?k" using sample_kernel_stack by simp
  moreover have "syscall_stack ?k = slot (nth_page 0x401) 512" using sample_kernel_top by simp
  moreover have "3 < rax (cpu ?k) \<or> rax (cpu ?k) = 2 \<and> rdi (cpu ?k) AND 0xFFF = 0 \<and> rsi (cpu ?k) \<noteq> 0" by simp
  ultimately show ?thesis by (rule syscall_stops_kernel)
qed

end
