(* ===== verification/Usermode.thy ===== *)
theory Usermode
  imports Sample_Kernel
begin

text \<open>
  How the processor gets into user mode and back: the segment selectors of the descriptor table, those
  that \<open>jump_usermode\<close> loads and those that the instructions \<open>syscall\<close> and \<open>sysretq\<close> derive from the
  register \<open>STAR\<close> fit together, and \<open>run_by_pid\<close> brings a new process to its first instruction.
\<close>

declare bit_numeral_word_iff [simp del]

section \<open>System calls\<close>

text \<open>What the crate documents of \<open>Star::write\<close>: it fails if the selectors do not have the right
  distances and privilege levels, and otherwise stores the two bases.\<close>

definition star_contract :: "(u16 \<Rightarrow> u16 \<Rightarrow> u16 \<Rightarrow> u16 \<Rightarrow> u64 option) \<Rightarrow> bool" where
  "star_contract W \<longleftrightarrow> (\<forall>cs_sysret ss_sysret cs_syscall ss_syscall.
     W cs_sysret ss_sysret cs_syscall ss_syscall =
       (if cs_sysret - 16 = ss_sysret - 8 \<and> cs_syscall = ss_syscall - 8 \<and> ss_sysret AND 3 = 3 \<and> ss_syscall AND 3 = 0
        then Some (push_bit 48 (ucast (ss_sysret - 8)) OR push_bit 32 (ucast cs_syscall)) else None))"

text \<open>The selectors that the processor loads.\<close>

definition sysret_cs :: "u64 \<Rightarrow> u16" where "sysret_cs v = (ucast (drop_bit 48 v) + 16) OR 3"
definition sysret_ss :: "u64 \<Rightarrow> u16" where "sysret_ss v = (ucast (drop_bit 48 v) + 8) OR 3"
definition syscall_cs :: "u64 \<Rightarrow> u16" where "syscall_cs v = ucast (drop_bit 32 v) AND NOT 3"
definition syscall_ss :: "u64 \<Rightarrow> u16" where "syscall_ss v = ucast (drop_bit 32 v) + 8"

lemma the_gdt_run:
  assumes "gdt_contract G" and "tss_cell k = Some t" and "length (iomap (iopb (tss_iomap t))) = 8192"
    and "always_ff (iopb (tss_iomap t)) = 0xFF" and "static_gdt k = None"
  obtains gd where "the_gdt G k = Inr (gd, k\<lparr>static_gdt := Some gd\<rparr>)" and "gdt_selectors gd =
    \<lparr>kernel_cs = 0x18, kernel_ds = 0x20, user_cs = 0x33, user_ds = 0x2B, tss_selector = 0x08\<rparr>"
proof -
  let ?s = "\<lparr>kernel_cs = 0x18, kernel_ds = 0x20, user_cs = 0x33, user_ds = 0x2B, tss_selector = 0x08\<rparr>"
  obtain g where "build_gdt G (Some t) k = Inr (\<lparr>gdt_table = g, gdt_selectors = ?s\<rparr>, k)"
    using build_gdt_run[OF assms(1,3,4)] by metis
  then show thesis
    using assms(2,5) by (intro that[of "\<lparr>gdt_table = g, gdt_selectors = ?s\<rparr>"]) (simp_all add: the_gdt_def run_simps)
qed


lemma sample_tss_iomap: "length (iomap (iopb (tss_iomap sample_tss))) = 8192" "always_ff (iopb (tss_iomap sample_tss)) = 0xFF"
  by (simp_all add: sample_tss_def tss_new_def iopb_lock_default_def io_bitmap_default_def io_bitmap_new_def)

definition checked_star :: "u16 \<Rightarrow> u16 \<Rightarrow> u16 \<Rightarrow> u16 \<Rightarrow> u64 option" where
  "checked_star cs_sysret ss_sysret cs_syscall ss_syscall =
     (if cs_sysret - 16 = ss_sysret - 8 \<and> cs_syscall = ss_syscall - 8 \<and> ss_sysret AND 3 = 3 \<and> ss_syscall AND 3 = 0
      then Some (push_bit 48 (ucast (ss_sysret - 8)) OR push_bit 32 (ucast cs_syscall)) else None)"


section \<open>The jump to user mode\<close>

lemma jump_usermode_pushes:
  "jump_usermode sp ip =
     bind (on_segments (modify (\<lambda>s. s\<lparr>seg_ds := 0x2B, seg_es := 0x2B, seg_fs := 0x2B, seg_gs := 0x2B\<rparr>))) (\<lambda>_.
     bind (for_each [\<lambda>_. 0x2B, \<lambda>_. sp, rflags, \<lambda>_. 0x33, \<lambda>_. ip] push_reg) (\<lambda>_. iretq))"
  by (simp add: jump_usermode_def bind_assoc ret_bind)

definition user_segments :: "'g segments \<Rightarrow> 'g segments" where
  "user_segments s = s\<lparr>seg_ds := 0x2B, seg_es := 0x2B, seg_fs := 0x2B, seg_gs := 0x2B, seg_cs := 0x33, seg_ss := 0x2B\<rparr>"

lemma jump_usermode_run:
  assumes sp: "stack_page ok free page f k" and j: "5 \<le> j" "j \<le> 512" and top: "rsp (cpu k) = slot page j"
  obtains P where "jump_usermode usp ip k = Inr ((), k\<lparr>pmem := P, segs := user_segments (segs k),
      cpu := (cpu k)\<lparr>rip := ip, rsp := usp\<rparr>\<rparr>)" and "\<And>g. g \<noteq> f \<Longrightarrow> P g = pmem k g"
proof -
  let ?rs = "[\<lambda>_. 0x2B, \<lambda>_. usp, rflags, \<lambda>_. 0x33, \<lambda>_. ip] :: (cpu \<Rightarrow> u64) list"
  let ?k = "k\<lparr>segs := (segs k)\<lparr>seg_ds := 0x2B, seg_es := 0x2B, seg_fs := 0x2B, seg_gs := 0x2B\<rparr>\<rparr>"
  obtain l where l: "j = l + 5" using j(1) le_Suc_ex by (metis add.commute)
  have sp1: "stack_page ok free page f ?k" using sp by simp
  have h: "length ?rs \<le> j" "rsp (cpu ?k) = slot page j" "\<forall>r \<in> set ?rs. ignores_rsp r"
    using j top by (simp_all add: ignores_rsp_def)
  obtain P where P: "for_each ?rs push_reg ?k = Inr ((), ?k\<lparr>pmem := P, cpu := (cpu ?k)\<lparr>rsp := slot page (j - length ?rs)\<rparr>\<rparr>)"
    "stack_page ok free page f (?k\<lparr>pmem := P\<rparr>)" "\<And>g. g \<noteq> f \<Longrightarrow> P g = pmem ?k g"
    "\<And>i. i < length ?rs \<Longrightarrow> P f (of_nat (j - 1 - i)) = (?rs ! i) (cpu ?k)"
    using push_regs_run[OF sp1 j(2) h] by metis
  let ?k1 = "?k\<lparr>pmem := P, cpu := (cpu k)\<lparr>rsp := slot page l\<rparr>\<rparr>"
  have sp2: "stack_page ok free page f ?k1" using P(2) by (rule stack_page_cong) simp_all
  have rd: "vread (slot page i) ?k1 = Inr (P f (of_nat i), ?k1)" if "i < 512" for i
    using stack_access(1)[OF sp2 slot_index[OF that]] by (simp add: slot_def)
  have adr: "slot page l + 8 = slot page (l + 1)" "slot page l + 16 = slot page (l + 2)"
    "slot page l + 24 = slot page (l + 3)" "slot page l + 32 = slot page (l + 4)"
    by (simp_all add: slot_def ring_distribs)
  have w: "P f (of_nat l) = ip" "P f (of_nat (l + 1)) = 0x33" "P f (of_nat (l + 2)) = rflags (cpu k)"
    "P f (of_nat (l + 3)) = usp" "P f (of_nat (l + 4)) = 0x2B"
    using P(4)[of 4] P(4)[of 3] P(4)[of 2] P(4)[of 1] P(4)[of 0] unfolding l by (simp_all add: numeral_eq_Suc)
  have r: "vread (slot page l) ?k1 = Inr (ip, ?k1)" "vread (slot page l + 8) ?k1 = Inr (0x33, ?k1)"
    "vread (slot page l + 16) ?k1 = Inr (rflags (cpu k), ?k1)" "vread (slot page l + 24) ?k1 = Inr (usp, ?k1)"
    "vread (slot page l + 32) ?k1 = Inr (0x2B, ?k1)"
    unfolding adr using rd[of l] rd[of "l + 1"] rd[of "l + 2"] rd[of "l + 3"] rd[of "l + 4"] j(2) l w by simp_all
  have iret: "iretq ?k1 = Inr ((), ?k1\<lparr>cpu := (cpu k)\<lparr>rip := ip, rsp := usp\<rparr>, segs := user_segments (segs k)\<rparr>)"
    using r by (simp add: iretq_def run_simps set_cpu_def user_segments_def)
  have "jump_usermode usp ip k = Inr ((), ?k1\<lparr>cpu := (cpu k)\<lparr>rip := ip, rsp := usp\<rparr>, segs := user_segments (segs k)\<rparr>)"
    unfolding jump_usermode_pushes using P(1) iret l by (simp add: run_simps)
  then show thesis using P(3) by (intro that[of P]) simp_all
qed

section \<open>Running a process\<close>

text \<open>What the operations on page tables keep of the kernel's state.\<close>

lemma kernel_more:
  assumes "machine.more k' = machine.more k"
  shows "tss_cell k' = tss_cell k" "cpu k' = cpu k" "segs k' = segs k" "processes k' = processes k"
    "next_pid k' = next_pid k" "vga k' = vga k"
  using assms by (cases k, cases k', simp)+

lemma stack_page_keeps:
  assumes sp: "stack_page ok free page f m" and inv: "pt_inv ok free m' (cr3 m)" and k: "keeps free (cr3 m) m m'"
    and f: "f \<notin> phys_free free m" and out: "unchanged_outside m m' X" "number page \<notin> X"
  shows "stack_page ok free page f m'"
proof -
  have c: "cr3 m' = cr3 m" by (rule keeps_cr3[OF k])
  from sp obtain e where s: "mappable page" "f \<notin> tables m (cr3 m)"
    "phys_walk m (cr3 m) page = Some (e, Kib4)" "pte_writable e" "pte_frame e = f" by (auto simp: stack_page_def)
  have "page = nth_page (number page)" using mappableD(1)[OF s(1)] by (cases page) (simp add: nth_page_def)
  then have "phys_walk m' (cr3 m) page = phys_walk m (cr3 m) page"
    using out s(1) unfolding unchanged_outside_def by metis
  moreover have "f \<notin> tables m' (cr3 m)" using keepsD(4)[OF k] s(2) f by blast
  ultimately show ?thesis using s inv by (simp add: stack_page_def c)
qed

lemma serial_ports_run:
  assumes "bits_contract (atomic_bitfield C)" and "tss_cell k = Some t" and "\<not> iopb_locked (tss_iomap t)"
    and "length (iomap (iopb (tss_iomap t))) = 8192"
  obtains b where "on_iomap (lock_or_panic (set_port_range_usable (atomic_bitfield C) 0x3F8 (0x3F8 + 7) True)) k
      = Inr ((), k\<lparr>tss_cell := Some (t\<lparr>tss_iomap := (tss_iomap t)\<lparr>iopb := b\<rparr>\<rparr>)\<rparr>)"
    and "\<And>port. is_port_usable (atomic_bitfield C) port b = Inr (if 0x3F8 \<le> port \<and> port \<le> 0x3FF then True
      else usable_port (atomic_bitfield C) (iopb (tss_iomap t)) port, b)"
proof -
  obtain b where b: "set_port_range_usable (atomic_bitfield C) 0x3F8 0x3FF True (iopb (tss_iomap t)) = Inr ((), b)"
    "\<And>port. is_port_usable (atomic_bitfield C) port b = Inr (if 0x3F8 \<le> port \<and> port \<le> 0x3FF then True
      else usable_port (atomic_bitfield C) (iopb (tss_iomap t)) port, b)"
    using set_port_range_run[OF assms(1,4), of "0x3F8" "0x3FF" True] by blast
  show thesis
    by (rule that[OF _ b(2)]) (simp add: on_iomap_def the_tss_def lock_or_panic_def run_simps assms(2,3) b(1))
qed

text \<open>The two pages that \<open>setup\<close> maps.\<close>

definition stack_flags :: u64 where "stack_flags = WRITABLE OR USER_ACCESSIBLE OR NO_EXECUTE"

lemma process_setup_range:
  "process_setup C = map_range C (nth_page 0x7FFFFFFFD) (nth_page 0x7FFFFFFFE) stack_flags NoInvalidate Zero"
  by (simp add: process_setup_def containing_address_def nth_page_def STACK_BOTTOM_def STACK_TOP_def
      INITIAL_STACK_SIZE_PAGES_def stack_flags_def)

lemma stack_flags_bits: "flags_ok stack_flags" "pte_writable stack_flags" "bit stack_flags 2" "bit stack_flags 63"
  by (simp_all add: stack_flags_def flag_defs flags_ok_def pte_writable_def bit_or_iff bit_numeral_word_iff)

definition user_stack_page :: "u64 set \<Rightarrow> ('t, 'z) machine_scheme \<Rightarrow> u64 \<Rightarrow> bool" where
  "user_stack_page frames m no \<longleftrightarrow> (\<exists>e. phys_walk m (cr3 m) (nth_page no) = Some (e, Kib4) \<and>
     pte_frame e \<in> frames \<and> pte_user e \<and> pte_writable e \<and> bit e 63)"

lemma mapped_fresh_stack:
  assumes "friendly_contract C ok free" and "phys_ok ok m" and "mapped_fresh free stack_flags m m' no" and "cr3 m' = cr3 m"
  shows "user_stack_page (phys_free free m) m' no"
proof -
  let ?fl = "stack_flags OR PRESENT"
  from assms(3) obtain f where f: "f \<in> phys_free free m"
    "phys_walk m' (cr3 m) (nth_page no) = Some (f OR ?fl, Kib4)" by (auto simp: mapped_fresh_def)
  note b = phys_free_bound[OF assms(1,2) f(1)]
  have f52: "f < 2 ^ 52" by (rule order_less_trans[OF b(1)]) simp
  have ok: "?fl AND 0x000FFFFFFFFFF000 = 0"
    using stack_flags_bits(1) by (simp add: flags_ok_def PRESENT_def bit.conj_disj_distrib2)
  note E = entry_fields[OF b(2) f52 ok]
  show ?thesis
    using f assms(4) stack_flags_bits E(1) E(2)[of 1] E(2)[of 2]
    by (auto simp: user_stack_page_def pte_user_def pte_writable_def bit_or_iff)
qed

lemma process_setup_run:
  assumes fc: "friendly_contract C ok free" and x: "x86_64_contract C" and inv: "pt_inv ok free m (cr3 m)"
    and small: "0x7FFFFFFFD \<in> small_pages m" "0x7FFFFFFFE \<in> small_pages m"
  obtains (oom) m' where "process_setup C m = Inr (Inl OutOfMemory, m')"
    | (ok) m' where "process_setup C m = Inr (Inr (), m')" "pt_inv ok free m' (cr3 m)" "keeps free (cr3 m) m m'"
        "unchanged_outside m m' {0x7FFFFFFFD, 0x7FFFFFFFE}"
        "\<And>no. no \<in> {0x7FFFFFFFD, 0x7FFFFFFFE} \<Longrightarrow> user_stack_page (phys_free free m) m' no"
proof -
  have rng: "range_incl 0x7FFFFFFFD (0x7FFFFFFFE :: u64) = [0x7FFFFFFFD, 0x7FFFFFFFE]"
    by (simp add: range_incl_def upt_rec)
  have "{number (nth_page 0x7FFFFFFFD)..number (nth_page 0x7FFFFFFFE)} = {0x7FFFFFFFD, 0x7FFFFFFFE}"
    using set_range_incl[of "0x7FFFFFFFD" "0x7FFFFFFFE :: u64"] unfolding rng by (simp add: nth_page_def)
  then have "\<forall>no \<in> {number (nth_page 0x7FFFFFFFD)..number (nth_page 0x7FFFFFFFE)}. mappable (nth_page no) \<and> no \<in> small_pages m"
    using small lower_half_mappable[of "0x7FFFFFFFD"] lower_half_mappable[of "0x7FFFFFFFE"] by simp
  from map_range_total[OF fc x inv stack_flags_bits(1) _ _ _ this, of Zero NoInvalidate] stack_flags_bits(2)
  obtain res m' ds rs where t: "process_setup C m = Inr (res, m')" "pt_inv ok free m' (cr3 m)" "keeps free (cr3 m) m m'"
    "[0x7FFFFFFFD, 0x7FFFFFFFE] = ds @ rs" "res = Inr () \<longrightarrow> rs = []"
    "\<forall>no \<in> set ds. mapped_fresh free stack_flags m m' no" "unchanged_outside m m' (set ds)"
    by (auto simp: process_setup_range nth_page_def rng)
  show thesis
  proof (cases res)
    case (Inl e)
    then show thesis using t(1) oom by (cases e) auto
  next
    case (Inr u)
    then have "ds = [0x7FFFFFFFD, 0x7FFFFFFFE]" using t(4,5) by simp
    then show thesis
      using t Inr mapped_fresh_stack[OF fc pt_invD(2)[OF inv] _ keeps_cr3[OF t(3)]] by (intro ok[of m']) auto
  qed
qed

definition in_space :: "process \<Rightarrow> ('t, 'z) machine_scheme \<Rightarrow> ('t, 'z) machine_scheme" where
  "in_space p m = m\<lparr>cr3 := p4_frame (page_tables p), cr3_flags := p4_flags (page_tables p)\<rparr>"

lemma run_by_pid_switch:
  assumes "pm_get D pid (processes k) = Some p" and "new_process p"
  shows "run_by_pid C D pid k =
     bind_res (process_setup C) (\<lambda>_.
     bind (modify (\<lambda>k. k\<lparr>processes := pm_update D pid (p\<lparr>new_process := False\<rparr>) (processes k)\<rparr>)) (\<lambda>_.
     bind (on_iomap (lock_or_panic (set_port_range_usable (atomic_bitfield C) 0x3F8 (0x3F8 + 7) True))) (\<lambda>_.
     bind (jump_usermode (stack_ptr p) (instruction_ptr p)) (\<lambda>_. ret (Inr ()))))) (in_space p k)"
  using assms
  by (simp add: run_by_pid_def run_simps switch_def in_space_def)
    (simp add: bind_res_def bind_def ret_def modify_def split: sum.split prod.split)

text \<open>A write to the page of the stack changes no translation.\<close>

lemma stack_write_walk:
  assumes sp: "stack_page ok free page f k" and P: "\<And>g. g \<noteq> f \<Longrightarrow> pmem k' g = pmem k g"
    and same: "cr3 k' = cr3 k" "phys_trees k' = phys_trees k" and no: "mappable (nth_page no)"
  shows "phys_walk k' (cr3 k) (nth_page no) = phys_walk k (cr3 k) (nth_page no)"
proof -
  have inv: "pt_inv ok free k (cr3 k)" and f: "f \<notin> tables k (cr3 k)" using sp by (simp_all add: stack_page_def)
  have "f \<noteq> cr3 k" using f tables_root by metis
  then have "g \<noteq> f" if "g \<in> insert (cr3 k) (tables k (cr3 k))" for g using f that by auto
  then have "\<forall>g \<in> insert (cr3 k) (tables k (cr3 k)). pmem k' g = pmem k g" by (simp add: P)
  from data_write(3)[OF inv this same mappableD(4)[OF no]] show ?thesis .
qed

text \<open>The ports of the process and the jump, once its stack is there.\<close>

lemma process_jump_run:
  assumes B: "bits_contract (atomic_bitfield C)" and sp: "stack_page ok free page f k"
    and top: "rsp (cpu k) = slot page j" "5 \<le> j" "j \<le> 512"
    and tss: "tss_cell k = Some t" "\<not> iopb_locked (tss_iomap t)" "length (iomap (iopb (tss_iomap t))) = 8192"
  obtains b P where
    "bind (on_iomap (lock_or_panic (set_port_range_usable (atomic_bitfield C) 0x3F8 (0x3F8 + 7) True)))
       (\<lambda>_. bind (jump_usermode sptr ip) (\<lambda>_. ret (Inr () :: OutOfMemory + unit))) k =
      Inr (Inr (), k\<lparr>tss_cell := Some (t\<lparr>tss_iomap := (tss_iomap t)\<lparr>iopb := b\<rparr>\<rparr>), pmem := P,
        segs := user_segments (segs k), cpu := (cpu k)\<lparr>rip := ip, rsp := sptr\<rparr>\<rparr>)"
    "\<forall>port. is_port_usable (atomic_bitfield C) port b = Inr (if 0x3F8 \<le> port \<and> port \<le> 0x3FF then True
        else usable_port (atomic_bitfield C) (iopb (tss_iomap t)) port, b)"
    "\<forall>g. g \<noteq> f \<longrightarrow> P g = pmem k g"
proof -
  obtain b where b: "on_iomap (lock_or_panic (set_port_range_usable (atomic_bitfield C) 0x3F8 (0x3F8 + 7) True)) k
      = Inr ((), k\<lparr>tss_cell := Some (t\<lparr>tss_iomap := (tss_iomap t)\<lparr>iopb := b\<rparr>\<rparr>)\<rparr>)"
    "\<And>port. is_port_usable (atomic_bitfield C) port b = Inr (if 0x3F8 \<le> port \<and> port \<le> 0x3FF then True
      else usable_port (atomic_bitfield C) (iopb (tss_iomap t)) port, b)"
    using serial_ports_run[OF B tss] by metis
  let ?k = "k\<lparr>tss_cell := Some (t\<lparr>tss_iomap := (tss_iomap t)\<lparr>iopb := b\<rparr>\<rparr>)\<rparr>"
  have sp': "stack_page ok free page f ?k" using sp by (rule stack_page_cong) simp_all
  have c: "rsp (cpu ?k) = slot page j" using top(1) by simp
  obtain P where P: "jump_usermode sptr ip ?k = Inr ((), ?k\<lparr>pmem := P,
      segs := user_segments (segs ?k), cpu := (cpu ?k)\<lparr>rip := ip, rsp := sptr\<rparr>\<rparr>)"
    "\<And>g. g \<noteq> f \<Longrightarrow> P g = pmem ?k g"
    using jump_usermode_run[OF sp' top(2,3), of sptr ip] c by metis
  show thesis by (rule that[of P b]) (use b P in \<open>simp_all add: bind_run_Inr ret_run\<close>)
qed

text \<open>C7: running a new process brings the processor to its entry point in user mode, unless there
  is no memory for the stack.  It is in the address space of the process, with the user's segments
  and the stack pointer at the top of two pages that are mapped, writable, not executable and for
  user mode, to frames that were free; every other translation is as the process's tables had it, the
  process is no longer new, other processes are untouched, and exactly the ports of the
  serial line have been opened.\<close>

theorem run_by_pid_enters:
  assumes fc: "friendly_contract C ok free" and x: "x86_64_contract C" and D: "process_map_contract D"
    and B: "bits_contract (atomic_bitfield C)" and p: "pm_get D pid (processes k) = Some p" "new_process p"
    and sp: "stack_page ok free page f (in_space p k)" and f: "f \<notin> phys_free free k"
    and page: "number page \<notin> {0x7FFFFFFFD, 0x7FFFFFFFE}"
    and top: "rsp (cpu k) = slot page j" "5 \<le> j" "j \<le> 512"
    and small: "0x7FFFFFFFD \<in> small_pages (in_space p k)" "0x7FFFFFFFE \<in> small_pages (in_space p k)"
    and tss: "tss_cell k = Some t" "\<not> iopb_locked (tss_iomap t)" "length (iomap (iopb (tss_iomap t))) = 8192"
  shows "(\<exists>k'. run_by_pid C D pid k = Inr (Inl OutOfMemory, k')) \<or>
    (\<exists>k' t'. run_by_pid C D pid k = Inr (Inr (), k') \<and> rip (cpu k') = instruction_ptr p \<and>
       rsp (cpu k') = stack_ptr p \<and> segs k' = user_segments (segs k) \<and> cr3 k' = p4_frame (page_tables p) \<and>
       (\<forall>no \<in> {0x7FFFFFFFD, 0x7FFFFFFFE}. user_stack_page (phys_free free k) k' no) \<and>
       unchanged_outside (in_space p k) k' {0x7FFFFFFFD, 0x7FFFFFFFE} \<and>
       (\<forall>q. pm_get D q (processes k') =
          (if q = pid then Some (p\<lparr>new_process := False\<rparr>) else pm_get D q (processes k))) \<and>
       tss_cell k' = Some t' \<and>
       (\<forall>port. is_port_usable (atomic_bitfield C) port (iopb (tss_iomap t')) =
          Inr (if 0x3F8 \<le> port \<and> port \<le> 0x3FF then True
            else usable_port (atomic_bitfield C) (iopb (tss_iomap t)) port, iopb (tss_iomap t'))))"
proof -
  let ?k1 = "in_space p k"
  have inv: "pt_inv ok free ?k1 (cr3 ?k1)" using sp by (simp add: stack_page_def)
  have fr: "phys_free free ?k1 = phys_free free k" by (simp add: phys_free_def in_space_def)
  note run = run_by_pid_switch[OF p]
  from fc x inv small show ?thesis
  proof (cases rule: process_setup_run)
    case (oom m')
    then have "run_by_pid C D pid k = Inr (Inl OutOfMemory, m')" unfolding run by (simp add: bind_res_run)
    then show ?thesis by blast
  next
    case (ok k2)
    have more: "machine.more k2 = machine.more ?k1" using keepsD(1)[OF ok(3)] by (simp add: same_statics_def)
    note M = kernel_more[OF more]
    let ?k3 = "k2\<lparr>processes := pm_update D pid (p\<lparr>new_process := False\<rparr>) (processes k2)\<rparr>"
    have t3: "tss_cell ?k3 = Some t" using M(1) tss(1) by (simp add: in_space_def)
    have sp2: "stack_page ok free page f k2"
      by (rule stack_page_keeps[OF sp ok(2,3) _ ok(4) page]) (simp add: fr f)
    then have sp3: "stack_page ok free page f ?k3" by (rule stack_page_cong) simp_all
    have c3: "cpu ?k3 = cpu k" "segs ?k3 = segs k" using M(2,3) by (simp_all add: in_space_def)
    obtain b P where b: "bind (on_iomap (lock_or_panic (set_port_range_usable (atomic_bitfield C) 0x3F8 (0x3F8 + 7) True)))
        (\<lambda>_. bind (jump_usermode (stack_ptr p) (instruction_ptr p)) (\<lambda>_. ret (Inr () :: OutOfMemory + unit))) ?k3 =
        Inr (Inr (), ?k3\<lparr>tss_cell := Some (t\<lparr>tss_iomap := (tss_iomap t)\<lparr>iopb := b\<rparr>\<rparr>), pmem := P,
          segs := user_segments (segs ?k3), cpu := (cpu ?k3)\<lparr>rip := instruction_ptr p, rsp := stack_ptr p\<rparr>\<rparr>)"
      "\<forall>port. is_port_usable (atomic_bitfield C) port b = Inr (if 0x3F8 \<le> port \<and> port \<le> 0x3FF then True
        else usable_port (atomic_bitfield C) (iopb (tss_iomap t)) port, b)"
      "\<forall>g. g \<noteq> f \<longrightarrow> P g = pmem ?k3 g"
      by (rule process_jump_run[OF B sp3 _ top(2,3) t3 tss(2,3)]) (simp add: c3(1)[simplified] top(1))
    let ?k5 = "?k3\<lparr>tss_cell := Some (t\<lparr>tss_iomap := (tss_iomap t)\<lparr>iopb := b\<rparr>\<rparr>), pmem := P,
      segs := user_segments (segs ?k3), cpu := (cpu ?k3)\<lparr>rip := instruction_ptr p, rsp := stack_ptr p\<rparr>\<rparr>"
    have r: "run_by_pid C D pid k = Inr (Inr (), ?k5)"
      unfolding run using ok(1) b(1) by (simp add: bind_res_run bind_assoc bind_modify ret_run bind_run_Inr)
    have c5: "cr3 ?k5 = cr3 ?k1" "cr3 k2 = cr3 ?k1" using keeps_cr3[OF ok(3)] by simp_all
    have w: "phys_walk ?k5 (cr3 ?k1) (nth_page no) = phys_walk k2 (cr3 ?k1) (nth_page no)" if "mappable (nth_page no)" for no
      using stack_write_walk[OF sp2 _ _ _ that, of ?k5] b(3) c5 by simp
    have "user_stack_page (phys_free free k) ?k5 no" if "no \<in> {0x7FFFFFFFD, 0x7FFFFFFFE}" for no
    proof -
      have "mappable (nth_page no)" using that lower_half_mappable[of no] by auto
      with ok(5)[OF that] w show ?thesis by (simp add: user_stack_page_def c5 fr)
    qed
    moreover have "unchanged_outside ?k1 ?k5 {0x7FFFFFFFD, 0x7FFFFFFFE}" using ok(4) w by (simp add: unchanged_outside_def)
    moreover have "pm_get D q (processes ?k5) = (if q = pid then Some (p\<lparr>new_process := False\<rparr>) else pm_get D q (processes k))" for q
      using D p(1) M(4) by (simp add: process_map_contract_def in_space_def)
    moreover have "cr3 ?k5 = p4_frame (page_tables p)" using c5(1) by (simp add: in_space_def)
    ultimately show ?thesis
      using r c3 b(2)
      by (intro disjI2 exI[of _ ?k5] exI[of _ "t\<lparr>tss_iomap := (tss_iomap t)\<lparr>iopb := b\<rparr>\<rparr>"]) simp
  qed
qed

definition sample_process :: process where
  "sample_process = \<lparr>page_tables = \<lparr>p4_frame = 0x1000, p4_flags = 0\<rparr>, stack_ptr = STACK_TOP,
     instruction_ptr = 0x400100, io_port_ranges = [], new_process = True\<rparr>"

definition process_kernel :: "(u64 list, u64 \<Rightarrow> process option, u64 list) kernel" where
  "process_kernel = sample_kernel\<lparr>processes := [7 \<mapsto> sample_process], cpu := sample_cpu\<lparr>rsp := 0x402000\<rparr>\<rparr>"

theorem run_by_pid_enters_witness:
  "\<exists>res k'. run_by_pid (sample_crates True) map_processes 7 process_kernel = Inr (res, k')"
proof -
  let ?k = process_kernel
  have e: "in_space sample_process ?k = ?k" by (simp add: in_space_def process_kernel_def sample_kernel_def sample_process_def)
  have sp: "stack_page list_ok set (nth_page 0x401) 0xA000 (in_space sample_process ?k)"
    unfolding e using sample_kernel_stack by (simp add: process_kernel_def)
  have fr: "phys_free set ?k = {0x7000}"
    by (simp add: phys_free_def process_kernel_def sample_kernel_def user_machine_def mapped_machine_def
        sample_machine_def sample_trees_free)
  have small: "no \<in> small_pages (in_space sample_process ?k)" if "p4_index (nth_page no) \<noteq> 510" for no
  proof -
    have "pmem ?k = pmem user_machine" "cr3 ?k = 0x1000" by (simp_all add: process_kernel_def sample_kernel_def)
    then show ?thesis unfolding e small_pages_def
      by (auto simp: phys_walk_def phys_next_def user_machine_def mapped_pmem mapped_entries stack_entry sample_entry
          Let_def split: option.splits if_splits)
  qed
  have h: "pm_get map_processes 7 (processes ?k) = Some sample_process" "new_process sample_process"
    "0xA000 \<notin> phys_free set ?k" "number (nth_page 0x401) \<notin> {0x7FFFFFFFD, 0x7FFFFFFFE}"
    "rsp (cpu ?k) = slot (nth_page 0x401) 512" "(5 :: nat) \<le> 512" "(512 :: nat) \<le> 512"
    "tss_cell ?k = Some sample_tss" "\<not> iopb_locked (tss_iomap sample_tss)"
    by (simp_all add: fr) (simp_all add: process_kernel_def sample_kernel_def sample_process_def map_processes_def nth_page_def slot_def
        sample_tss_def tss_new_def iopb_lock_default_def)
  have B: "bits_contract (atomic_bitfield (sample_crates True))" by (simp add: sample_crates_def word_bit_ops_contract)
  have i: "p4_index (nth_page 0x7FFFFFFFD) \<noteq> 510" "p4_index (nth_page 0x7FFFFFFFE) \<noteq> 510"
    by (simp_all add: p4_index_def nth_page_def)
  from run_by_pid_enters[OF sample_friendly sample_x86_64 map_processes_contract B h(1,2) sp h(3-7) small[OF i(1)]
      small[OF i(2)] h(8,9) sample_tss_iomap(1)]
  show ?thesis by blast
qed

end
