(* ===== verification/Heap_Properties.thy ===== *)
theory Heap_Properties
  imports Sample_Machines Kernel_Heap
begin

text \<open>
  What the kernel heap promises: the memory of a block that \<open>alloc\<close> returns is mapped and can be
  written, lies in the heap, and is large enough; and what happens when there are no frames
  for it.  \<open>heap_contract\<close> is what the \<open>friendly\<close> crate documents of a tree of 25 levels over blocks
  of 64 bytes.
\<close>

declare bit_numeral_word_iff [simp del]

section \<open>The tree\<close>

definition heap_bytes :: "nat \<Rightarrow> nat \<Rightarrow> nat set" where
  "heap_bytes off n = {off..<off + 2 ^ (n + 6)}"

definition heap_contract :: "'t crates \<Rightarrow> ('t \<Rightarrow> bool) \<Rightarrow> ('t \<Rightarrow> nat set) \<Rightarrow> bool" where
  "heap_contract C hok hfree \<longleftrightarrow>
     tree_max_order C HEAP_LEVELS = 24 \<and>
     (\<forall>t order p t'. hok t \<and> tree_allocate C t order = (Some p, t') \<longrightarrow>
        hok t' \<and> unat p + 2 ^ (unat order + 6) \<le> 2 ^ 30 \<and> 2 ^ (unat order + 6) dvd unat p \<and>
        heap_bytes (unat p) (unat order) \<subseteq> hfree t \<and> hfree t' = hfree t - heap_bytes (unat p) (unat order)) \<and>
     (\<forall>t order t'. hok t \<and> tree_allocate C t order = (None, t') \<longrightarrow> hok t' \<and> hfree t' = hfree t)"

lemma heap_contract_Some:
  assumes "heap_contract C hok hfree" and "hok t" and "tree_allocate C t order = (Some p, t')"
  shows "hok t'" and "unat p + 2 ^ (unat order + 6) \<le> 2 ^ 30" and "2 ^ (unat order + 6) dvd unat p"
    and "heap_bytes (unat p) (unat order) \<subseteq> hfree t"
    and "hfree t' = hfree t - heap_bytes (unat p) (unat order)"
proof -
  from assms(1) have "\<forall>t order p t'. hok t \<and> tree_allocate C t order = (Some p, t') \<longrightarrow>
      hok t' \<and> unat p + 2 ^ (unat order + 6) \<le> 2 ^ 30 \<and> 2 ^ (unat order + 6) dvd unat p \<and>
      heap_bytes (unat p) (unat order) \<subseteq> hfree t \<and> hfree t' = hfree t - heap_bytes (unat p) (unat order)"
    unfolding heap_contract_def by (elim conjE)
  with assms(2,3) show "hok t'" "unat p + 2 ^ (unat order + 6) \<le> 2 ^ 30" "2 ^ (unat order + 6) dvd unat p"
    "heap_bytes (unat p) (unat order) \<subseteq> hfree t" "hfree t' = hfree t - heap_bytes (unat p) (unat order)"
    by metis+
qed

lemma unat_HEAP_START: "unat HEAP_START = 0xFFFFFFFF40000000"
  by (simp add: HEAP_START_def)

text \<open>\<open>heap_take\<close>: a block, or the two early returns.\<close>

lemma heap_take_cases:
  assumes hc: "heap_contract C hok hfree" and tree: "heap_tree m = Some t" "hok t"
  obtains (refused) t' where "heap_take C order m = Inr (None, m\<lparr>heap_tree := Some t'\<rparr>)" "hok t'" "hfree t' = hfree t"
      "24 < order \<or> fst (tree_allocate C t order) = None"
    | (taken) ptr off t' where "heap_take C order m = Inr (Some ptr, m\<lparr>heap_tree := Some t'\<rparr>)" "hok t'"
      "order \<le> 24" "unat ptr = 0xFFFFFFFF40000000 + off" "off + 2 ^ (unat order + 6) \<le> 2 ^ 30"
      "2 ^ (unat order + 6) dvd off" "heap_bytes off (unat order) \<subseteq> hfree t"
      "hfree t' = hfree t - heap_bytes off (unat order)"
proof -
  have mo: "tree_max_order C HEAP_LEVELS = 24" using hc unfolding heap_contract_def by (elim conjE)
  obtain r t' where ta: "tree_allocate C t order = (r, t')" by (cases "tree_allocate C t order")
  show thesis
  proof (cases "24 < order")
    case True
    then have "heap_take C order m = Inr (None, m)"
      using tree by (simp add: heap_take_def heap_lock_def run_simps mo)
    moreover have "m = m\<lparr>heap_tree := Some t\<rparr>" using tree(1) by simp
    ultimately show thesis using tree(2) True by (intro refused[of t]) auto
  next
    case False
    show thesis
    proof (cases r)
      case None
      have "hok t'" "hfree t' = hfree t" using hc tree(2) ta None unfolding heap_contract_def by blast+
      with None False tree ta show thesis
        by (intro refused[of t']) (simp_all add: heap_take_def heap_lock_def run_simps mo set_heap_tree_def)
    next
      case (Some p)
      note T = heap_contract_Some[OF hc tree(2) ta[unfolded Some]]
      have "(0 :: nat) < 2 ^ (unat order + 6)" by simp
      then have lt: "unat p < 2 ^ 30" using T(2) by linarith
      then have ck: "unat p + unat HEAP_START < 2 ^ 64" by (simp add: unat_HEAP_START)
      then have "unat (p + HEAP_START) = 0xFFFFFFFF40000000 + unat p"
        by (simp add: unat_word_ariths unat_HEAP_START)
      moreover have "heap_take C order m = Inr (Some (p + HEAP_START), m\<lparr>heap_tree := Some t'\<rparr>)"
        using Some False tree(1) ta ck by (simp add: heap_take_def heap_lock_def run_simps mo set_heap_tree_def)
      ultimately show thesis using T False by (intro taken[of "p + HEAP_START" t' "unat p"]) auto
    qed
  qed
qed

section \<open>The pages of the heap\<close>

definition heap_pages :: "u64 set" where
  "heap_pages = {no. 0xFFFFFFFF40000 \<le> unat no \<and> unat no < 0xFFFFFFFF80000}"

lemma heap_page_mappable: "no \<in> heap_pages \<Longrightarrow> mappable (nth_page no)"
  by (rule kernel_page_mappable) (simp_all add: heap_pages_def)

text \<open>The number of pages that \<open>alloc\<close> maps for a block of which it uses \<open>2 ^ b\<close> bytes.\<close>

definition pages_of :: "nat \<Rightarrow> nat" where
  "pages_of b = (2 ^ b + 4095) div 4096"

lemma pages_of_alt: "pages_of b = (if 12 \<le> b then 2 ^ (b - 12) else 1)"
proof (cases "12 \<le> b")
  case True
  then have "(2 :: nat) ^ b = 2 ^ (b - 12) * 4096" using power_add[of "2 :: nat" "b - 12" 12] by simp
  then show ?thesis using True by (simp add: pages_of_def)
next
  case False
  then have "(2 :: nat) ^ b \<le> 2 ^ 11" by (intro power_increasing) auto
  moreover have "(1 :: nat) \<le> 2 ^ b" by simp
  ultimately have "(2 ^ b + 4095) div 4096 = (1 :: nat)" by (intro div_nat_eqI) auto
  then show ?thesis using False by (simp add: pages_of_def)
qed

lemma pages_of_bounds:
  assumes "b \<le> 30"
  shows "0 < pages_of b" and "pages_of b \<le> 2 ^ 18"
proof -
  have "(2 :: nat) ^ (b - 12) \<le> 2 ^ 18" using assms by (intro power_increasing) auto
  then show "0 < pages_of b" "pages_of b \<le> 2 ^ 18" by (auto simp: pages_of_alt)
qed

lemma pages_for_run:
  assumes "unat bits = b" and "b \<le> 60"
  shows "pages_for chk bits s = Inr (of_nat (pages_of b), s)"
proof -
  have le: "(2 :: nat) ^ b \<le> 2 ^ 60" using assms(2) by (intro power_increasing) auto
  have u: "unat (push_bit b 1 :: u64) = 2 ^ b" using assms(2) by (simp add: push_bit_eq_mult unat_exp)
  have lt: "unat (push_bit b 1 :: u64) + unat (4096 :: u64) < 2 ^ 64" using u le by simp
  have y: "0 < (4096 :: u64)" by simp
  have "(push_bit b 1 + 4096 - 1 :: u64) = push_bit b 1 + 4095" by simp
  then have rd: "round_up_divide chk (push_bit b 1 :: u64) 4096 s = Inr ((push_bit b 1 + 4095) div 4096, s)"
    using round_up_divide_run(1)[OF y lt, of chk s] by metis
  have "unat ((push_bit b 1 + 4095) div 4096 :: u64) = pages_of b"
    using u le by (simp add: unat_div unat_word_ariths pages_of_def)
  moreover have "pages_of b < 2 ^ 64" using le by (simp add: pages_of_def)
  ultimately have "(push_bit b 1 + 4095) div 4096 = (of_nat (pages_of b) :: u64)"
    by (simp add: word_unat_eq_iff unat_of_nat take_bit_nat_eq_self)
  then show ?thesis using assms rd by (simp add: pages_for_def run_simps)
qed

text \<open>A block that the tree has given: where it lies, its pages, and the pages of its bytes.\<close>

definition heap_block :: "u64 \<Rightarrow> nat \<Rightarrow> bool" where
  "heap_block ptr n \<longleftrightarrow> (\<exists>off. unat ptr = 0xFFFFFFFF40000000 + off \<and> off + 2 ^ (n + 6) \<le> 2 ^ 30 \<and> 2 ^ (n + 6) dvd off)"

lemma heap_block_page:
  assumes "heap_block ptr n" and "i < pages_of b" and "b \<le> n + 6"
  shows "heap_page chk ptr (of_nat i) s = Inr (nth_page (ptr div 4096 + of_nat i), s)"
    and "ptr div 4096 + of_nat i \<in> heap_pages" and "unat (ptr div 4096 + of_nat i) = unat ptr div 4096 + i"
proof -
  from assms(1) obtain off where o: "unat ptr = 0xFFFFFFFF40000000 + off" "off + 2 ^ (n + 6) \<le> 2 ^ 30"
    by (auto simp: heap_block_def)
  have "(2 :: nat) ^ (n + 6) \<le> 2 ^ 30" using o(2) by linarith
  then have n: "n + 6 \<le> 30" by (rule power_le_imp_le_exp[rotated]) simp
  have m: "pages_of b \<le> pages_of (n + 6)" using assms(3) by (auto simp: pages_of_alt intro!: power_increasing)
  have i1: "i < pages_of (n + 6)" using assms(2) m by auto
  have i2: "4096 * i < 2 ^ (n + 6)"
  proof (cases "12 \<le> n + 6")
    case True
    then have "(2 :: nat) ^ (n + 6) = 2 ^ (n + 6 - 12) * 4096" using power_add[of "2 :: nat" "n + 6 - 12" 12] by (simp add: add.commute)
    then show ?thesis using i1 True by (simp add: pages_of_alt)
  next
    case False
    then show ?thesis using i1 by (simp add: pages_of_alt)
  qed
  then have lt: "unat ptr + 4096 * i < 0xFFFFFFFF80000000" using o by simp
  then have i64: "i < 2 ^ 51" using o(1) by simp
  have ui: "unat (of_nat i :: u64) = i" using i64 by (simp add: unat_of_nat take_bit_nat_eq_self)
  have um: "unat (of_nat i * 4096 :: u64) = 4096 * i" using i64 by (simp add: unat_word_ariths ui)
  have ua: "unat (ptr + of_nat i * 4096) = unat ptr + 4096 * i" using lt i64 by (simp add: unat_word_ariths ui)
  have ub: "unat (ptr div 4096 + of_nat i) = unat ptr div 4096 + i" using lt i64 by (simp add: unat_word_ariths unat_div ui)
  then show "unat (ptr div 4096 + of_nat i) = unat ptr div 4096 + i" .
  have eq: "(ptr + of_nat i * 4096) div 4096 = ptr div 4096 + of_nat i" by (simp add: word_unat_eq_iff ub ua unat_div)
  show "ptr div 4096 + of_nat i \<in> heap_pages" using lt o(1) unfolding heap_pages_def mem_Collect_eq ub by linarith
  show "heap_page chk ptr (of_nat i) s = Inr (nth_page (ptr div 4096 + of_nat i), s)"
    using lt i64 by (simp add: heap_page_def run_simps ui um containing_address_def nth_page_def eq)
qed

lemma heap_block_byte:
  assumes "heap_block ptr n" and "x < 2 ^ b" and "b \<le> n + 6"
  obtains i where "i < pages_of b" and "containing_address (ptr + of_nat x) = nth_page (ptr div 4096 + of_nat i)"
    and "unat (ptr + of_nat x) = unat ptr + x"
proof -
  from assms(1) obtain off where o: "unat ptr = 0xFFFFFFFF40000000 + off" "off + 2 ^ (n + 6) \<le> 2 ^ 30" "2 ^ (n + 6) dvd off"
    by (auto simp: heap_block_def)
  have "(2 :: nat) ^ (n + 6) \<le> 2 ^ 30" using o(2) by linarith
  then have n: "n + 6 \<le> 30" by (rule power_le_imp_le_exp[rotated]) simp
  have "(2 :: nat) ^ b \<le> 2 ^ (n + 6)" using assms(3) by (intro power_increasing) auto
  then have x6: "x < 2 ^ (n + 6)" using assms(2) by linarith
  then have x30: "x < 2 ^ 30" using o(2) by linarith
  have ux: "unat (ptr + of_nat x) = unat ptr + x"
    using o(1,2) x30 by (simp add: unat_word_ariths unat_of_nat take_bit_nat_eq_self)
  have "\<exists>i < pages_of b. (unat ptr + x) div 4096 = unat ptr div 4096 + i"
  proof (cases "12 \<le> n + 6")
    case True
    have "(4096 :: nat) dvd 2 ^ (n + 6)" using le_imp_power_dvd[OF True, of "2 :: nat"] by simp
    then have "4096 dvd off" using o(3) by (rule dvd_trans)
    then have "4096 dvd unat ptr" unfolding o(1) by (intro dvd_add) simp_all
    then have "(unat ptr + x) div 4096 = unat ptr div 4096 + x div 4096" by (simp add: div_plus_div_distrib_dvd_left)
    moreover have "x div 4096 < pages_of b" using assms(2) unfolding pages_of_def by linarith
    ultimately show ?thesis by blast
  next
    case False
    have "(2 :: nat) ^ (n + 6) dvd 2 ^ 12" using False by (intro le_imp_power_dvd) simp
    then have d: "(2 :: nat) ^ (n + 6) dvd 4096" by simp
    have "2 ^ (n + 6) dvd unat ptr" unfolding o(1) using d o(3) dvd_trans[OF d, of "0xFFFFFFFF40000000"]
      by (intro dvd_add) simp_all
    then obtain q where q: "unat ptr = 2 ^ (n + 6) * q" by (auto elim: dvdE)
    from d obtain c where c: "(4096 :: nat) = 2 ^ (n + 6) * c" by (auto elim: dvdE)
    have "(2 ^ (n + 6) * q + x) div (2 ^ (n + 6)) = q" using x6 by (intro div_nat_eqI) (simp_all add: algebra_simps)
    then have "(unat ptr + x) div 4096 = unat ptr div 4096"
      unfolding q c by (simp add: div_mult2_eq)
    then show ?thesis using False assms(3) by (intro exI[of _ 0]) (simp add: pages_of_alt)
  qed
  then obtain i where i: "i < pages_of b" "(unat ptr + x) div 4096 = unat ptr div 4096 + i" by blast
  have "(ptr + of_nat x) div 4096 = ptr div 4096 + of_nat i"
    using heap_block_page(3)[OF assms(1) i(1) assms(3)] i(2) by (simp add: word_unat_eq_iff unat_div ux)
  then show thesis using i(1) ux by (intro that) (simp_all add: containing_address_def nth_page_def)
qed

section \<open>The loop of \<open>alloc\<close>\<close>

text \<open>One round of the loop without the undoing of earlier rounds, and what it makes of the page: it stays
  as it is, or gets a fresh frame.\<close>

definition heap_map_step :: "'t crates \<Rightarrow> u64 \<Rightarrow> (('t, 'z) machine_scheme, OutOfMemory + unit) comp" where
  "heap_map_step C no =
     bind (walk_page_table C (nth_page no)) (\<lambda>w.
       if w \<noteq> None then ret (Inr ()) else map_step C heap_flags NoInvalidate Zero no)"

definition heap_entry :: "('t, 'z) alloc_env \<Rightarrow> u64 \<Rightarrow> u64 \<times> page_size \<Rightarrow> bool" where
  "heap_entry s no w \<longleftrightarrow> env_look s no = Some w \<or> env_look s no = None \<and> fresh_entry heap_flags s no w"

lemma heap_flags_ok: "flags_ok heap_flags" "pte_writable heap_flags"
  by (simp_all add: flags_ok_def pte_writable_def heap_flags_def WRITABLE_def NO_EXECUTE_def GLOBAL_def
      bit_numeral_word_iff)

lemma heap_map_step_run:
  assumes env: "mapping_env D heap_flags Zero (C, ok, free, m)" and no: "no \<in> mappable_in D"
  shows "heap_map_step C no m = (case phys_walk m (cr3 m) (nth_page no) of Some _ \<Rightarrow> Inr (Inr (), m)
     | None \<Rightarrow> map_step C heap_flags NoInvalidate Zero no m)"
proof -
  have page: "mappable (nth_page no)" using no by (simp add: mappable_in_def)
  have x: "x86_64_contract C" and inv: "pt_inv ok free m (cr3 m)"
    using env by (simp_all add: mapping_env_def)
  have "walk_page_table C (nth_page no) m = Inr (phys_walk m (cr3 m) (nth_page no), m)"
    by (rule walk_page_table_phys[OF pt_invD(1)[OF inv] x pt_inv_walk_supported[OF inv mappableD(4)[OF page]]])
  then show ?thesis by (simp add: heap_map_step_def run_simps split: option.split)
qed

interpretation heap_loop: page_updates "mapping_env D heap_flags Zero" env_look env_keeps "mappable_in D"
  "\<lambda>no. in_env (\<lambda>C. heap_map_step C no)" heap_entry "\<lambda>s no x. env_look s no = None"
  for D
proof
  fix s t u :: "('a, 'b) alloc_env"
  show "env_keeps s s" by (rule env_keeps_refl)
  show "env_keeps s u" if "env_keeps s t" "env_keeps t u" using that by (rule env_keeps_trans)
next
  fix s s' :: "('a, 'b) alloc_env" and no x
  obtain C ok free m where s: "s = (C, ok, free, m)" by (cases s)
  assume env: "mapping_env D heap_flags Zero s" and no: "no \<in> mappable_in D"
  note run = heap_map_step_run[OF env[unfolded s] no]
    and cs = map_step_cases[OF env[unfolded s] no, of NoInvalidate]
  show "\<exists>res s'. in_env (\<lambda>C. heap_map_step C no) s = Inr (res, s')"
    by (rule cs) (simp_all add: in_env_def s run split: option.split)
  show "mapping_env D heap_flags Zero s' \<and> env_keeps s s' \<and>
      (\<exists>e. env_look s' no = Some e \<and> heap_entry s no e) \<and>
      (\<forall>q \<in> mappable_in D. q \<noteq> no \<longrightarrow> env_look s' q = env_look s q)"
    if "in_env (\<lambda>C. heap_map_step C no) s = Inr (Inr (), s')"
    using that env
    by - (rule cs; auto simp: in_env_def s run env_keeps_def env_look_def heap_entry_def fresh_entry_def
        env_free_def keeps_refl split: option.splits)
  show "mapping_env D heap_flags Zero s' \<and> env_keeps s s' \<and> env_look s no = None \<and>
      (\<forall>q \<in> mappable_in D. env_look s' q = env_look s q)"
    if "in_env (\<lambda>C. heap_map_step C no) s = Inr (Inl x, s')"
    using that
    by - (rule cs; auto simp: in_env_def s run env_keeps_def env_look_def mappable_in_def dest: mappableD(4)
        split: option.splits)
qed

text \<open>What a page of the heap is after the loop: mapped as before, or to a frame that was free.\<close>

definition heap_mapped :: "('t \<Rightarrow> u64 set) \<Rightarrow> ('t, 'z) machine_scheme \<Rightarrow> ('t, 'z) machine_scheme \<Rightarrow> u64 \<Rightarrow> bool" where
  "heap_mapped free m m' no \<longleftrightarrow> (case phys_walk m (cr3 m) (nth_page no) of
       Some w \<Rightarrow> phys_walk m' (cr3 m) (nth_page no) = Some w
     | None \<Rightarrow> mapped_fresh free heap_flags m m' no)"

lemma heap_loop_total:
  assumes fc: "friendly_contract C ok free" and x: "x86_64_contract C" and inv: "pt_inv ok free m (cr3 m)"
    and pages: "set ps \<subseteq> heap_pages" "distinct ps" and small: "heap_pages \<subseteq> small_pages m"
  obtains res m' ds rs where "for_each_res ps (heap_map_step C) m = Inr (res, m')"
    "pt_inv ok free m' (cr3 m)" "keeps free (cr3 m) m m'" "ps = ds @ rs"
    "\<forall>no \<in> set ds. heap_mapped free m m' no" "unchanged_outside m m' (set ds)"
    "res = Inr () \<longrightarrow> rs = []"
proof -
  let ?s = "(C, ok, free, m)" and ?D = "small_pages m"
  have env: "mapping_env ?D heap_flags Zero ?s"
    by (rule small_pages_env[OF fc x inv heap_flags_ok(1)]) (simp add: heap_flags_ok)
  have sub: "set ps \<subseteq> mappable_in ?D" using pages(1) small heap_page_mappable by (auto simp: mappable_in_def)
  from heap_loop.updates_total[OF env sub pages(2)] obtain res s' ds rs where
    run: "for_each_res ps (\<lambda>no. in_env (\<lambda>C. heap_map_step C no)) ?s = Inr (res, s')"
    and env': "mapping_env ?D heap_flags Zero s'" and ext: "env_keeps ?s s'" and ps: "ps = ds @ rs"
    and dn: "\<forall>p \<in> set ds. heap_loop.updated ?s s' p"
    and rest: "\<forall>q \<in> mappable_in ?D - set ds. env_look s' q = env_look ?s q"
    and stop: "heap_loop.stopped ?s rs res" by blast
  from run obtain m' where s': "s' = (C, ok, free, m')"
    and loop: "for_each_res ps (heap_map_step C) m = Inr (res, m')"
    unfolding for_each_res_in_env[symmetric] in_env_Inr by blast
  have k: "keeps free (cr3 m) m m'" using ext by (simp add: s' env_keeps_def)
  have "heap_mapped free m m' no" if that: "no \<in> set ds" for no
  proof -
    from bspec[OF dn that] obtain e t where e: "env_look s' no = Some e" "env_keeps ?s t"
      "env_look t no = env_look ?s no" "heap_entry t no e"
      by (auto simp: heap_loop.updated_def)
    then have "env_look ?s no = Some e \<or> env_look ?s no = None \<and> fresh_entry heap_flags ?s no e"
      using fresh_entry_keeps[OF e(2), of heap_flags no e] by (simp add: heap_entry_def) metis
    with e(1) show ?thesis
      by (auto simp: heap_mapped_def mapped_fresh_def fresh_entry_def env_free_def env_look_def s' keeps_cr3[OF k])
  qed
  moreover have "unchanged_outside m m' (set ds)" by (rule env_outside[OF ext[unfolded s'] rest[unfolded s']])
  moreover have "res = Inr () \<longrightarrow> rs = []" using stop by (auto simp: heap_loop.stopped_def)
  moreover have "pt_inv ok free m' (cr3 m)" using env' by (simp add: s' mapping_env_def keeps_cr3[OF k])
  ultimately show thesis using loop k ps by (intro that[of res m' ds rs]) auto
qed

text \<open>The loop with the undoing: when no round fails, it does what the loop above does; when one does,
  it undoes in the state the failure left.\<close>

lemma undo_loop_ok:
  assumes "for_each_res xs f s = Inr (Inr (), s')"
    and "\<And>x s1 s2. x \<in> set xs \<Longrightarrow> f x s1 = Inr (Inr (), s2) \<Longrightarrow> g x s1 = Inr (Inr (), s2)"
  shows "for_each_res xs g s = Inr (Inr (), s')"
  using assms
proof (induction xs arbitrary: s)
  case (Cons x xs)
  from Cons.prems(1) obtain s1 where s1: "f x s = Inr (Inr (), s1)" "for_each_res xs f s1 = Inr (Inr (), s')"
    by (auto elim!: bind_res_InrE)
  from Cons.IH[OF s1(2)] Cons.prems(2) have "for_each_res xs g s1 = Inr (Inr (), s')" by auto
  with Cons.prems(2)[OF _ s1(1)] show ?case by (simp add: run_simps)
qed (simp add: ret_def)

lemma heap_alloc_step_ok:
  assumes "heap_page (overflow_checks C) ptr i s1 = Inr (nth_page no, s1)" and "mappable (nth_page no)"
    and "heap_map_step C no s1 = Inr (Inr (), s2)"
  shows "heap_alloc_step C ptr i s1 = Inr (Inr (), s2)"
  using assms(3)
  by (auto simp: heap_alloc_step_def heap_map_step_def map_step_def undo_on_error_def assms(1) bind_def ret_def
      numbered_page_run[OF assms(2)] split: sum.splits if_splits prod.splits)

lemma undo_loop_err:
  assumes "for_each_res xs f s = Inr (Inl e, s')"
    and "\<And>x s1 s2. x \<in> set xs \<Longrightarrow> f x s1 = Inr (Inr (), s2) \<Longrightarrow> g x s1 = Inr (Inr (), s2)"
    and "\<And>x s1 s2. x \<in> set xs \<Longrightarrow> f x s1 = Inr (Inl e, s2) \<Longrightarrow> g x s1 = bind (u x) (\<lambda>_. ret (Inl ())) s2"
  shows "\<exists>ds x rs s1. xs = ds @ x # rs \<and> for_each_res ds f s = Inr (Inr (), s1) \<and> f x s1 = Inr (Inl e, s') \<and>
    for_each_res xs g s = bind (u x) (\<lambda>_. ret (Inl ())) s'"
  using assms
proof (induction xs arbitrary: s)
  case (Cons x xs)
  from Cons.prems(1) consider (err) "f x s = Inr (Inl e, s')"
    | (ok) s1 where "f x s = Inr (Inr (), s1)" "for_each_res xs f s1 = Inr (Inl e, s')"
    by (auto elim!: bind_res_InrE)
  then show ?case
  proof cases
    case err
    from Cons.prems(3)[OF _ err] have "for_each_res (x # xs) g s = bind (u x) (\<lambda>_. ret (Inl ())) s'"
      by (simp add: bind_res_def bind_def ret_def split: sum.split prod.split)
    moreover have "for_each_res [] f s = Inr (Inr (), s)" by (simp add: ret_def)
    ultimately show ?thesis using err by (metis append_Nil)
  next
    case ok
    from Cons.IH[OF ok(2)] Cons.prems(2,3) obtain ds y rs s2 where y: "xs = ds @ y # rs"
      "for_each_res ds f s1 = Inr (Inr (), s2)" "f y s2 = Inr (Inl e, s')"
      "for_each_res xs g s1 = bind (u y) (\<lambda>_. ret (Inl ())) s'" by auto
    have "x # xs = (x # ds) @ y # rs" "for_each_res (x # ds) f s = Inr (Inr (), s2)"
      using y(1,2) ok(1) by (simp_all add: run_simps)
    moreover have "for_each_res (x # xs) g s = bind (u y) (\<lambda>_. ret (Inl ())) s'"
      using Cons.prems(2)[OF _ ok(1)] y(4) by (simp add: run_simps)
    ultimately show ?thesis using y(3) by blast
  qed
qed (simp add: ret_def)

lemma heap_alloc_step_err:
  assumes "heap_page (overflow_checks C) ptr i s1 = Inr (nth_page no, s1)" and "mappable (nth_page no)"
    and "heap_map_step C no s1 = Inr (Inl e, s2)"
  shows "heap_alloc_step C ptr i s1 =
    bind (unmap_range C (containing_address ptr) (nth_page no) Free Invalidate) (\<lambda>_. ret (Inl ())) s2"
  using assms(3)
  by (auto simp: heap_alloc_step_def heap_map_step_def map_step_def undo_on_error_def assms(1) bind_def ret_def
      numbered_page_run[OF assms(2)] split: sum.splits if_splits prod.splits)

lemma heap_map_step_err:
  assumes fc: "friendly_contract C ok free" and x: "x86_64_contract C" and inv: "pt_inv ok free m (cr3 m)"
    and page: "mappable (nth_page no)" and fail: "heap_map_step C no m = Inr (Inl e, m')"
  shows "pt_inv ok free m' (cr3 m)" and "grows free (cr3 m) m m'" and "phys_walk m' (cr3 m) (nth_page no) = None"
    and "phys_walk m (cr3 m) (nth_page no) = None"
    and "map_page C (nth_page no) heap_flags NoInvalidate Zero m = Inr (Inl OutOfMemory, m')"
proof -
  note p4 = mappableD(4)[OF page]
  have "walk_page_table C (nth_page no) m = Inr (phys_walk m (cr3 m) (nth_page no), m)"
    by (rule walk_page_table_phys[OF pt_invD(1)[OF inv] x pt_inv_walk_supported[OF inv p4]])
  with fail have none: "phys_walk m (cr3 m) (nth_page no) = None"
    and run: "map_page C (nth_page no) heap_flags NoInvalidate Zero m = Inr (Inl e, m')"
    by (simp_all add: heap_map_step_def map_step_def run_simps numbered_page_run[OF page] del: not_None_eq
        split: if_splits)
  have nohuge: "\<forall>e. phys_walk m (cr3 m) (nth_page no) \<noteq> Some (e, Mib2)" using none by simp
  have wr: "Zero = Zero \<longrightarrow> pte_writable heap_flags \<or> \<not> cr0_wp m" using heap_flags_ok(2) by simp
  have "pt_inv ok free m' (cr3 m) \<and> grows free (cr3 m) m m'"
    using fc x inv refl page heap_flags_ok(1) nohuge wr
  proof (cases rule: map_page_cases[where invplg = NoInvalidate])
    case (oom m1)
    with run show ?thesis by simp
  qed (use run in auto)
  then show "pt_inv ok free m' (cr3 m)" "grows free (cr3 m) m m'" by auto
  then show "phys_walk m' (cr3 m) (nth_page no) = None" using none p4 by (simp add: grows_def)
  show "phys_walk m (cr3 m) (nth_page no) = None"
    "map_page C (nth_page no) heap_flags NoInvalidate Zero m = Inr (Inl OutOfMemory, m')"
    using none run by (cases e; simp)+
qed

lemma for_each_res_map: "for_each_res (map h xs) f = for_each_res xs (\<lambda>x. f (h x))"
  by (induction xs) simp_all

text \<open>The loop of \<open>alloc\<close> over the pages of a block.\<close>

definition block_pages :: "u64 \<Rightarrow> nat \<Rightarrow> u64 set" where
  "block_pages ptr b = (\<lambda>i. ptr div 4096 + of_nat i) ` {..<pages_of b}"

lemma heap_block_list:
  assumes "heap_block ptr n" and "n \<le> 24" and b: "b \<le> n + 6"
  shows "range_excl 0 (of_nat (pages_of b)) = map (of_nat :: nat \<Rightarrow> u64) [0..<pages_of b]"
    and "set (map (\<lambda>i. ptr div 4096 + i) (range_excl 0 (of_nat (pages_of b)))) = block_pages ptr b"
    and "distinct (map (\<lambda>i. ptr div 4096 + i) (range_excl 0 (of_nat (pages_of b))))"
    and "block_pages ptr b \<subseteq> heap_pages"
proof -
  have "pages_of b \<le> 2 ^ 18" using pages_of_bounds(2)[of b] assms(2) b by simp
  then have u: "unat (of_nat (pages_of b) :: u64) = pages_of b"
    by (simp add: unat_of_nat take_bit_nat_eq_self)
  show r: "range_excl 0 (of_nat (pages_of b)) = map (of_nat :: nat \<Rightarrow> u64) [0..<pages_of b]"
    by (simp add: range_excl_def u)
  show "set (map (\<lambda>i. ptr div 4096 + i) (range_excl 0 (of_nat (pages_of b)))) = block_pages ptr b"
    by (auto simp: r block_pages_def)
  have "inj_on (\<lambda>i. ptr div 4096 + of_nat i) {0..<pages_of b}"
    using heap_block_page(3)[OF assms(1) _ b] by (intro inj_onI) (metis add_left_cancel atLeastLessThan_iff)
  then show "distinct (map (\<lambda>i. ptr div 4096 + i) (range_excl 0 (of_nat (pages_of b))))"
    unfolding r map_map comp_def distinct_map by simp
  show "block_pages ptr b \<subseteq> heap_pages" using heap_block_page(2)[OF assms(1) _ b] by (auto simp: block_pages_def)
qed

text \<open>\<open>alloc\<close> uses half of the block.\<close>

lemma add5: "n + 5 \<le> n + (6 :: nat)"
  by simp

section \<open>\<open>alloc\<close>\<close>

text \<open>The invariant of the heap: the tree is there, and the pages of the heap that are mapped are small
  and can be written.\<close>

definition heap_inv :: "('t \<Rightarrow> bool) \<Rightarrow> ('t, 'z) machine_scheme \<Rightarrow> bool" where
  "heap_inv hok m \<longleftrightarrow> (\<exists>t. heap_tree m = Some t \<and> hok t) \<and>
     (\<forall>no \<in> heap_pages. \<forall>e s. phys_walk m (cr3 m) (nth_page no) = Some (e, s) \<longrightarrow> s = Kib4 \<and> pte_writable e)"

text \<open>The bytes of the heap, by their offsets, that are in no block.\<close>

definition heap_free :: "('t \<Rightarrow> nat set) \<Rightarrow> ('t, 'z) machine_scheme \<Rightarrow> nat set" where
  "heap_free hfree m = (case heap_tree m of None \<Rightarrow> {} | Some t \<Rightarrow> hfree t)"

lemma canonical_page: "canonical va \<longleftrightarrow> canonical (va div 4096 * 4096)"
proof -
  have "unat (va div 4096 * 4096) = unat va div 4096 * 4096"
    by (subst unat_mult_lem[THEN iffD1]) (use unat_bound[of va] in \<open>simp_all add: unat_div\<close>)
  then have "unat (drop_bit 47 (va div 4096 * 4096)) = unat va div 4096 * 4096 div (4096 * 2 ^ 35)"
    by (simp add: drop_bit_eq_div unat_div)
  also have "\<dots> = unat va div 4096 div 2 ^ 35" by (simp add: div_mult2_eq)
  also have "\<dots> = unat (drop_bit 47 va)" by (simp add: drop_bit_eq_div unat_div div_mult2_eq[symmetric])
  finally have "drop_bit 47 (va div 4096 * 4096) = drop_bit 47 va" by (simp add: word_unat_eq_iff)
  then show ?thesis by (simp add: canonical_def)
qed

lemma mmu_byte:
  assumes inv: "pt_inv ok free m (cr3 m)" and page: "mappable (nth_page no)"
    and walk: "phys_walk m (cr3 m) (nth_page no) = Some (e, Kib4)" and va: "containing_address va = nth_page no"
  shows "\<exists>u. mmu_translate m va = Some (pte_frame e, pte_writable e, u)"
proof -
  from walk obtain p1 where tab: "phys_table m (cr3 m) (page_path (nth_page no)) = Some p1"
    and e: "pmem m p1 (p1_index (nth_page no)) = e" "pte_present e" by (rule walk_tables)
  have w: "path_writable m (cr3 m) (page_path (nth_page no))"
    using pt_invD(4)[OF inv] tab tree_path_page(3)[OF mappableD(4)[OF page]] by (auto simp: tables_writable_def)
  have "va div 4096 = no" using va by (simp add: containing_address_def nth_page_def)
  then have "canonical va" using mappableD(3)[OF page] canonical_page[of va] by (simp add: nth_page_def)
  with tab e w show ?thesis
    by (auto simp: mmu_translate_def va_indices va page_path_def phys_next_Some Let_def split: option.splits)
qed

lemma heap_mapped_entry:
  assumes "heap_mapped free m m' no" and "no \<in> heap_pages" and "heap_inv hok m"
  obtains e where "phys_walk m' (cr3 m) (nth_page no) = Some (e, Kib4)" "pte_writable e"
proof (cases "phys_walk m (cr3 m) (nth_page no)")
  case None
  then obtain f where "phys_walk m' (cr3 m) (nth_page no) = Some (f OR (heap_flags OR PRESENT), Kib4)"
    using assms(1) by (auto simp: heap_mapped_def mapped_fresh_def)
  moreover have "pte_writable (f OR (heap_flags OR PRESENT))"
    by (simp add: pte_writable_def bit_or_iff heap_flags_def WRITABLE_def bit_numeral_word_iff)
  ultimately show thesis by (rule that)
next
  case (Some w)
  obtain e s where w: "w = (e, s)" by (cases w)
  from assms(2,3) Some have "s = Kib4" "pte_writable e" unfolding heap_inv_def w by metis+
  with assms(1) Some w show thesis by (intro that[of e]) (simp_all add: heap_mapped_def)
qed

lemma heap_inv_tree:
  assumes "heap_inv hok m" and "hok t'"
  shows "heap_inv hok (m\<lparr>heap_tree := Some t'\<rparr>)"
  using assms phys_walk_cong[of "m\<lparr>heap_tree := Some t'\<rparr>" m] by (simp add: heap_inv_def)

lemma pt_inv_tree: "pt_inv ok free m (cr3 m) \<Longrightarrow> pt_inv ok free (m\<lparr>heap_tree := t'\<rparr>) (cr3 m)"
  by (rule pt_inv_cong) (auto dest: pt_invD(2) simp: phys_ok_def phys_free_def)

text \<open>The pages of a block, once the loop has mapped them.\<close>

lemma heap_loop_inv:
  assumes hi: "heap_inv hok m" and k: "keeps free (cr3 m) m m'"
    and dn: "\<And>no. no \<in> X \<Longrightarrow> \<exists>e. phys_walk m' (cr3 m) (nth_page no) = Some (e, Kib4) \<and> pte_writable e"
    and out: "unchanged_outside m m' X"
  shows "heap_inv hok m'"
  unfolding heap_inv_def
proof (intro conjI ballI allI impI)
  have st: "cr3 m' = cr3 m" "heap_tree m' = heap_tree m" using keepsD(1)[OF k] by (simp_all add: same_statics_def)
  show "\<exists>t. heap_tree m' = Some t \<and> hok t" using hi by (simp add: heap_inv_def st)
  fix no e s assume no: "no \<in> heap_pages" and w: "phys_walk m' (cr3 m') (nth_page no) = Some (e, s)"
  note dn[of no]
  moreover have "s = Kib4 \<and> pte_writable e" if "no \<notin> X"
    using out that w no hi heap_page_mappable by (auto simp: unchanged_outside_def st heap_inv_def)
  ultimately show "s = Kib4" "pte_writable e" using w by (auto simp: st)
qed

text \<open>What a caller of \<open>alloc\<close> that gets a pointer can rely on.\<close>

definition heap_given :: "('t \<Rightarrow> u64 set) \<Rightarrow> ('t \<Rightarrow> nat set) \<Rightarrow> u64 \<Rightarrow> ('t, 'z) machine_scheme \<Rightarrow> u64 \<Rightarrow> ('t, 'z) machine_scheme \<Rightarrow> bool" where
  "heap_given free hfree layout_size m p m' \<longleftrightarrow>
     in_heap p \<and> unat p + unat layout_size \<le> 0xFFFFFFFF80000000 \<and>
     (\<forall>i < unat layout_size. \<exists>f u. mmu_translate m' (p + of_nat i) = Some (f, True, u)) \<and>
     {unat (p - HEAP_START)..<unat (p - HEAP_START) + unat layout_size} \<subseteq> heap_free hfree m - heap_free hfree m' \<and>
     heap_free hfree m' \<subseteq> heap_free hfree m \<and> unchanged_outside m m' heap_pages \<and>
     (\<forall>no \<in> heap_pages. phys_walk m' (cr3 m) (nth_page no) = phys_walk m (cr3 m) (nth_page no) \<or>
        phys_walk m (cr3 m) (nth_page no) = None \<and> mapped_fresh free heap_flags m m' no)"

lemma heap_block_given:
  assumes blk: "heap_block ptr n" and n: "n \<le> 24" and size: "unat layout_size \<le> 2 ^ (n + 5)"
    and inv: "pt_inv ok free m' (cr3 m')" and hi: "heap_inv hok m'"
    and pages: "\<And>no. no \<in> block_pages ptr (n + 5) \<Longrightarrow> phys_walk m' (cr3 m') (nth_page no) \<noteq> None"
    and i: "i < unat layout_size"
  shows "\<exists>f u. mmu_translate m' (ptr + of_nat i) = Some (f, True, u)"
proof -
  have "i < 2 ^ (n + 5)" using i size by linarith
  with blk obtain j where j: "j < pages_of (n + 5)"
    "containing_address (ptr + of_nat i) = nth_page (ptr div 4096 + of_nat j)" using add5 by (rule heap_block_byte)
  let ?no = "ptr div 4096 + of_nat j"
  have "?no \<in> block_pages ptr (n + 5)" using j(1) by (auto simp: block_pages_def)
  then have no: "?no \<in> heap_pages" "phys_walk m' (cr3 m') (nth_page ?no) \<noteq> None"
    using heap_block_list(4)[OF blk n add5] pages by auto
  then obtain e s where e: "phys_walk m' (cr3 m') (nth_page ?no) = Some (e, s)" by auto
  with hi no(1) have "s = Kib4" "pte_writable e" unfolding heap_inv_def by metis+
  with mmu_byte[OF inv heap_page_mappable[OF no(1)] _ j(2), of e] e show ?thesis by auto
qed

lemma heap_alloc_run:
  assumes n: "order_of (overflow_checks C) layout_size m = Inr (order, m)" and "order \<le> 24"
    and take: "heap_take C order m = Inr (Some ptr, m0)" and tree: "heap_tree m = Some t"
  shows "heap_alloc C layout_size m =
    bind (for_each_res (range_excl 0 (of_nat (pages_of (unat order + 5)))) (heap_alloc_step C ptr))
      (\<lambda>res. ret (case res of Inl _ \<Rightarrow> 0 | Inr _ \<Rightarrow> ptr)) m0"
proof -
  have o: "unat order \<le> 24" using assms(2) by (simp add: word_le_nat_alt)
  have b: "add_ck chk order HEAP_BASE_ORDER s = Inr (order + 6, s)" "sub_ck chk (order + 6) 1 s = Inr (order + 5, s)" for chk s
    using o by (simp_all add: run_simps HEAP_BASE_ORDER_def word_le_nat_alt unat_word_ariths)
  have "unat (order + 5) = unat order + 5" using o by (simp add: unat_word_ariths)
  then have p: "pages_for chk (order + 5) s = Inr (of_nat (pages_of (unat order + 5)), s)" for chk s
    using o by (intro pages_for_run) simp_all
  have l: "heap_lock m = Inr (t, m)" using tree by (simp add: heap_lock_def run_simps)
  show ?thesis by (simp add: heap_alloc_def Let_def bind_run_Inr l n take b p)
qed

text \<open>There is no frame for a page of the heap, or for a table on the way to it.\<close>

definition no_frame_for :: "'t crates \<Rightarrow> ('t \<Rightarrow> u64 set) \<Rightarrow> ('t, 'z) machine_scheme \<Rightarrow> u64 \<Rightarrow> bool" where
  "no_frame_for C free m no \<longleftrightarrow> (\<exists>(m1 :: ('t, 'z) machine_scheme) m2. phys_free free m1 \<subseteq> phys_free free m \<and>
     phys_walk m1 (cr3 m) (nth_page no) = None \<and>
     map_page C (nth_page no) heap_flags NoInvalidate Zero m1 = Inr (Inl OutOfMemory, m2))"

text \<open>The two outcomes of the loop.\<close>

lemma heap_alloc_taken:
  assumes fc: "friendly_contract C ok free" and x: "x86_64_contract C" and inv: "pt_inv ok free m (cr3 m)"
    and hi: "heap_inv hok m" and blk: "heap_block ptr n" and n: "n \<le> 24"
  obtains (ok) m' where "for_each_res (range_excl 0 (of_nat (pages_of (n + 5)))) (heap_alloc_step C ptr) m = Inr (Inr (), m')"
      "pt_inv ok free m' (cr3 m)" "heap_inv hok m'" "keeps free (cr3 m) m m'"
      "unchanged_outside m m' (block_pages ptr (n + 5))"
      "\<forall>no \<in> block_pages ptr (n + 5). heap_mapped free m m' no"
    | (oom) no m' where "no \<in> block_pages ptr (n + 5)" "phys_walk m' (cr3 m) (nth_page no) = None"
      "pt_inv ok free m' (cr3 m)" "cr3 m' = cr3 m" "heap_inv hok m'" "no_frame_for C free m no"
      "for_each_res (range_excl 0 (of_nat (pages_of (n + 5)))) (heap_alloc_step C ptr) m =
        bind (unmap_range C (containing_address ptr) (nth_page no) Free Invalidate) (\<lambda>_. ret (Inl ())) m'"
proof -
  let ?xs = "range_excl 0 (of_nat (pages_of (n + 5))) :: u64 list"
  let ?h = "\<lambda>i. ptr div 4096 + i" and ?f = "\<lambda>i. heap_map_step C (ptr div 4096 + i)"
  note L = heap_block_list[OF blk n add5]
  have small: "heap_pages \<subseteq> small_pages m" using hi by (auto simp: heap_inv_def small_pages_def)
  have hp: "heap_page chk ptr i s = Inr (nth_page (?h i), s)" "mappable (nth_page (?h i))" "?h i \<in> block_pages ptr (n + 5)"
    if i: "i \<in> set ?xs" for i chk and s :: "('a, 'b) machine_scheme"
  proof -
    from i obtain j where j: "i = of_nat j" "j < pages_of (n + 5)" unfolding L(1) by auto
    then show "heap_page chk ptr i s = Inr (nth_page (?h i), s)" "mappable (nth_page (?h i))" "?h i \<in> block_pages ptr (n + 5)"
      using heap_block_page[OF blk _ add5, of j] heap_page_mappable by (auto simp: block_pages_def)
  qed
  note ok = heap_alloc_step_ok[OF hp(1,2)] and err = heap_alloc_step_err[OF hp(1,2)]
  have sub: "set (map ?h ?xs) \<subseteq> heap_pages" using L(2,4) by simp
  obtain res m' ds rs where
    run: "for_each_res (map ?h ?xs) (heap_map_step C) m = Inr (res, m')" and inv': "pt_inv ok free m' (cr3 m)"
    and k: "keeps free (cr3 m) m m'" and ps: "map ?h ?xs = ds @ rs"
    and dn: "\<forall>no \<in> set ds. heap_mapped free m m' no" and out: "unchanged_outside m m' (set ds)"
    and fin: "res = Inr () \<longrightarrow> rs = []" by (rule heap_loop_total[OF fc x inv sub L(3) small])
  note run' = run[unfolded for_each_res_map]
  have dsp: "set ds \<subseteq> heap_pages" using ps sub by auto
  have "\<exists>e. phys_walk m' (cr3 m) (nth_page no) = Some (e, Kib4) \<and> pte_writable e" if "no \<in> set ds" for no
    by (rule heap_mapped_entry[OF bspec[OF dn that] subsetD[OF dsp that] hi]) auto
  then have hi': "heap_inv hok m'" by (rule heap_loop_inv[OF hi k _ out])
  show thesis
  proof (cases res)
    case (Inr u')
    then have ds: "set ds = block_pages ptr (n + 5)" using fin ps L(2) by simp
    have u: "res = Inr ()" using Inr by simp
    have loop: "for_each_res ?xs (heap_alloc_step C ptr) m = Inr (Inr (), m')"
      by (rule undo_loop_ok[OF run'[unfolded u]]) (rule ok, assumption+)
    show thesis by (rule that(1)[OF loop inv' hi' k out[unfolded ds] dn[unfolded ds]])
  next
    case (Inl e)
    have "\<exists>as i bs m1. ?xs = as @ i # bs \<and> for_each_res as ?f m = Inr (Inr (), m1) \<and> ?f i m1 = Inr (Inl e, m') \<and>
        for_each_res ?xs (heap_alloc_step C ptr) m =
          bind (unmap_range C (containing_address ptr) (nth_page (?h i)) Free Invalidate) (\<lambda>_. ret (Inl ())) m'"
      by (rule undo_loop_err[OF run'[unfolded Inl]]) (rule ok, assumption+, rule err, assumption+)
    then obtain as i bs m1 where
      i: "?xs = as @ i # bs" "for_each_res as ?f m = Inr (Inr (), m1)" "?f i m1 = Inr (Inl e, m')"
      "for_each_res ?xs (heap_alloc_step C ptr) m =
        bind (unmap_range C (containing_address ptr) (nth_page (?h i)) Free Invalidate) (\<lambda>_. ret (Inl ())) m'"
      by blast
    have inx: "i \<in> set ?xs" "set (map ?h as) \<subseteq> heap_pages" "distinct (map ?h as)"
      using i(1) sub L(3) by auto
    obtain res2 m2 where m2: "for_each_res (map ?h as) (heap_map_step C) m = Inr (res2, m2)"
      "pt_inv ok free m2 (cr3 m)" "keeps free (cr3 m) m m2" by (rule heap_loop_total[OF fc x inv inx(2,3) small])
    have "m2 = m1" using m2(1)[unfolded for_each_res_map] i(2) by simp
    then have m1: "pt_inv ok free m1 (cr3 m)" "keeps free (cr3 m) m m1" using m2(2,3) by simp_all
    note c3 = keeps_cr3[OF m1(2)]
    note E = heap_map_step_err[OF fc x _ hp(2)[OF inx(1)] i(3), unfolded c3, OF m1(1)]
    have "no_frame_for C free m (?h i)" unfolding no_frame_for_def using E(4,5) keepsD(5)[OF m1(2)] by blast
    then show thesis by (rule that(2)[OF hp(3)[OF inx(1)] E(3) E(1) keeps_cr3[OF k] hi' _ i(4)])
  qed
qed

lemma heap_block_free:
  assumes ptr: "unat ptr = 0xFFFFFFFF40000000 + off" and off: "off + 2 ^ (n + 6) \<le> 2 ^ 30" "2 ^ (n + 6) dvd off"
    and size: "unat layout_size \<le> 2 ^ (n + 5)"
  shows "in_heap ptr" and "unat ptr + unat layout_size \<le> 0xFFFFFFFF80000000"
    and "unat (ptr - HEAP_START) = off" and "{off..<off + unat layout_size} \<subseteq> heap_bytes off n"
proof -
  have "(2 :: nat) ^ (n + 5) \<le> 2 ^ (n + 6)" by (intro power_increasing) auto
  then have le: "unat layout_size \<le> 2 ^ (n + 6)" using size by linarith
  then show "unat ptr + unat layout_size \<le> 0xFFFFFFFF80000000" using ptr off(1) by simp
  show "{off..<off + unat layout_size} \<subseteq> heap_bytes off n" using le by (auto simp: heap_bytes_def)
  have "(0 :: nat) < 2 ^ (n + 6)" by simp
  then have lt: "off < 2 ^ 30" using off(1) by linarith
  have "HEAP_START \<le> ptr" by (simp add: word_le_nat_alt unat_HEAP_START ptr)
  then show "unat (ptr - HEAP_START) = off" by (simp add: unat_sub unat_HEAP_START ptr)
  show "in_heap ptr" using lt by (simp add: in_heap_def HEAP_START_def word_le_nat_alt word_less_nat_alt ptr)
qed

text \<open>The whole of \<open>alloc\<close>.\<close>

lemma heap_alloc_cases:
  assumes fc: "friendly_contract C ok free" and x: "x86_64_contract C" and hc: "heap_contract C hok hfree"
    and inv: "pt_inv ok free m (cr3 m)" and hi: "heap_inv hok m"
  obtains (refused) t' order where "heap_alloc C layout_size m = Inr (0, m\<lparr>heap_tree := Some t'\<rparr>)"
      "hok t'" "hfree t' = heap_free hfree m"
      "order_of (overflow_checks C) layout_size m = Inr (order, m)"
      "24 < order \<or> fst (tree_allocate C (the (heap_tree m)) order) = None"
    | (ok) p m' where "heap_alloc C layout_size m = Inr (p, m')" "heap_given free hfree layout_size m p m'"
      "pt_inv ok free m' (cr3 m)" "heap_inv hok m'" "cr3 m' = cr3 m"
    | (oom) p n no m' where "heap_block p n" "unat layout_size \<le> 2 ^ (n + 5)" "n = 0 \<or> 2 ^ (n + 4) < unat layout_size"
      "no \<in> block_pages p (n + 5)" "n \<le> 24" "phys_walk m' (cr3 m) (nth_page no) = None"
      "pt_inv ok free m' (cr3 m)" "cr3 m' = cr3 m" "heap_inv hok m'" "no_frame_for C free m no"
      "heap_alloc C layout_size m = bind (unmap_range C (containing_address p) (nth_page no) Free Invalidate) (\<lambda>_. ret 0) m'"
proof -
  obtain t where t: "heap_tree m = Some t" "hok t" using hi by (auto simp: heap_inv_def)
  obtain order where o: "order_of (overflow_checks C) layout_size m = Inr (order, m)"
    "unat layout_size \<le> 2 ^ (unat order + 5)" "order = 0 \<or> 2 ^ (unat order + 4) < unat layout_size"
    by (rule order_of_run)
  from hc t show thesis
  proof (cases rule: heap_take_cases[where order = order])
    case (refused t')
    have "heap_lock m = Inr (t, m)" using t(1) by (simp add: heap_lock_def run_simps)
    then have "heap_alloc C layout_size m = Inr (0, m\<lparr>heap_tree := Some t'\<rparr>)"
      using o(1) refused(1) by (simp add: heap_alloc_def Let_def run_simps)
    then show thesis using refused(2-4) o(1) t(1) by (intro that(1)[of t' order]) (simp_all add: heap_free_def)
  next
    case (taken ptr off t')
    let ?m = "m\<lparr>heap_tree := Some t'\<rparr>" and ?n = "unat order"
    have n: "?n \<le> 24" using taken(3) by (simp add: word_le_nat_alt)
    have blk: "heap_block ptr ?n" using taken(4-6) by (auto simp: heap_block_def)
    note run = heap_alloc_run[OF o(1) taken(3,1) t(1)]
    note hi0 = heap_inv_tree[OF hi taken(2)] and inv0 = pt_inv_tree[OF inv, of "Some t'"]
    have c3: "cr3 ?m = cr3 m" by simp
    from fc x inv0[folded c3] hi0 blk n show thesis
    proof (cases rule: heap_alloc_taken)
      case (ok m')
      have st: "cr3 m' = cr3 m" "heap_tree m' = Some t'"
        using keepsD(1)[OF ok(4)] by (simp_all add: same_statics_def)
      have w: "phys_walk ?m r page = phys_walk m r page" for r page by (rule phys_walk_cong) simp
      have out: "unchanged_outside m m' heap_pages"
        using ok(5) heap_block_list(4)[OF blk n add5] w by (auto simp: unchanged_outside_def)
      have same: "phys_walk m' (cr3 m) (nth_page no) = phys_walk m (cr3 m) (nth_page no) \<or>
          phys_walk m (cr3 m) (nth_page no) = None \<and> mapped_fresh free heap_flags m m' no" if "no \<in> heap_pages" for no
        by (cases "no \<in> block_pages ptr (?n + 5)")
          (use ok(5,6) w heap_page_mappable[OF that] in \<open>auto simp: heap_mapped_def mapped_fresh_def phys_free_def
            unchanged_outside_def split: option.splits\<close>)
      have nz: "phys_walk m' (cr3 m') (nth_page no) \<noteq> None" if "no \<in> block_pages ptr (?n + 5)" for no
        by (rule heap_mapped_entry[OF bspec[OF ok(6) that] subsetD[OF heap_block_list(4)[OF blk n add5] that] hi0]) (simp add: st)
      have "heap_given free hfree layout_size m ptr m'"
        using heap_block_free[OF taken(4-6) o(2)] taken(7,8) t(1) st
          heap_block_given[OF blk n o(2) ok(2)[unfolded c3, folded st(1)] ok(3) nz] same out
        unfolding heap_given_def heap_free_def by (auto simp: st)
      with ok run st show thesis by (intro that(2)[of ptr m']) (simp_all add: run_simps)
    next
      case (oom no m')
      have "heap_alloc C layout_size m = bind (unmap_range C (containing_address ptr) (nth_page no) Free Invalidate) (\<lambda>_. ret 0) m'"
        unfolding run using oom(7) by (simp add: bind_def ret_def split: sum.split prod.split)
      moreover have "no_frame_for C free m no" using oom(6) by (simp add: no_frame_for_def phys_free_def)
      ultimately show thesis using oom(1-5) o(2,3) blk n by (intro that(3)[of ptr ?n no m']) auto
    qed
  qed
qed

section \<open>Properties\<close>

section \<open>Undoing an allocation\<close>

text \<open>One page cannot be unmapped when it is not mapped.\<close>

lemma unmap_unmapped:
  assumes x: "x86_64_contract C" and inv: "pt_inv ok free m (cr3 m)" and page: "mappable (nth_page no)"
    and none: "phys_walk m (cr3 m) (nth_page no) = None"
  shows "unmap C (nth_page no) fr invplg m = Inl (Panic ''Virtual address is not mapped!'')"
proof -
  have w: "walk_page_table C (nth_page no) m = Inr (None, m)"
    using walk_page_table_phys[OF pt_invD(1)[OF inv] x pt_inv_walk_supported[OF inv mappableD(4)[OF page]]] none by simp
  have "number (nth_page no) < 2 ^ 52" using mappableD(2)[OF page] .
  then show ?thesis by (simp add: unmap_def run_simps start_address_run nth_page_def w[unfolded nth_page_def])
qed

text \<open>The structure of the page tables alone, whatever the frame allocator holds to be free: the
  invariant for an allocator without promises.\<close>

abbreviation pt_shape :: "('t, 'z) machine_scheme \<Rightarrow> bool" where
  "pt_shape m \<equiv> pt_inv (\<lambda>_. True) (\<lambda>_. {}) m (cr3 m)"

lemma phys_free_none [simp]: "phys_free (\<lambda>_. {}) m = {}"
  by (auto simp: phys_free_def trees_free_def slot_free_def split: option.splits)

lemma pt_inv_shape: "pt_inv ok free m (cr3 m) \<Longrightarrow> pt_shape m"
  unfolding pt_inv_def phys_ok_def trees_ok_def by auto

lemma phys_deallocate_shape:
  assumes "pt_shape m" and "phys_deallocate C f order m = Inr ((), m')"
  shows "pt_shape m' \<and> pmem m' = pmem m \<and> cr3 m' = cr3 m"
proof -
  from assms(2) obtain ts i t where ts: "phys_trees m = Some ts" "m' = m\<lparr>phys_trees := Some (ts[i := Some t])\<rparr>"
    by (auto simp: phys_deallocate_def Let_def bind_def gets_def expect_def modify_def ret_def stop_with_def
        split: sum.splits option.splits if_splits)
  then have "phys_ok (\<lambda>_. True) m'" using pt_invD(2)[OF assms(1)] by (simp add: phys_ok_def trees_ok_def)
  then have "pt_inv (\<lambda>_. True) (\<lambda>_. {}) m' (cr3 m)" by (intro pt_inv_cong[OF assms(1)]) (simp_all add: ts(2))
  then show ?thesis by (simp add: ts(2))
qed

lemma unmap_shape:
  assumes x: "x86_64_contract C" and inv: "pt_shape m" and page: "mappable page"
    and walk: "phys_walk m (cr3 m) page = Some (e, Kib4)" and run: "unmap C page Free invplg m = Inr ((), m')"
  shows "pt_shape m'" and "p4_index page' \<noteq> 510 \<Longrightarrow> phys_walk m' (cr3 m') page' \<in> {None, phys_walk m (cr3 m) page'}"
proof -
  note P = mappableD[OF page] and tp = tree_path_page(3)[OF mappableD(4)[OF page]]
  from x inv page walk obtain p1 where p1: "phys_table m (cr3 m) (page_path page) = Some p1"
    "pmem m p1 (p1_index page) = e" "unmap C page Free invplg m =
       bind (if Free = Free then phys_deallocate C (pte_frame e) 0 else ret ())
         (\<lambda>_. flush_page C page invplg) (write_word p1 (p1_index page) 0 m)"
    by (rule unmap_run)
  let ?m2 = "write_word p1 (p1_index page) 0 m"
  have leaf: "leaf_entry (length (page_path page)) e" "huge_ok (length (page_path page)) e" for e
    by (simp_all add: leaf_entry_def huge_ok_def page_path_def)
  have inv2: "pt_shape ?m2"
    using pt_inv_leaf_write[OF inv tp p1(1) _ _ leaf(1,1,2), of "p1_index page" 0] by (simp add: page_path_def)
  obtain m3 l where d: "phys_deallocate C (pte_frame e) 0 ?m2 = Inr ((), m3)" and m': "m' = m3\<lparr>tlb_log := l\<rparr>"
    using run unfolding p1(3) by (auto elim!: bind_InrE simp: flush_page_run[OF x P(1-3)])
  note D = phys_deallocate_shape[OF inv2 d]
  from D have "pt_shape m3" by blast
  then show "pt_shape m'" using m' by (simp add: pt_inv_tlb)
  have "phys_walk m' (cr3 m') page' = phys_walk ?m2 (cr3 m) page'"
    using phys_walk_cong[of m' ?m2] D m' by simp
  then show "p4_index page' \<noteq> 510 \<Longrightarrow> phys_walk m' (cr3 m') page' \<in> {None, phys_walk m (cr3 m) page'}"
    using walk_leaf_write[OF inv P(4) p1(1), of page' 0] by (simp add: pte_present_def)
qed

lemma unmap_pages_stop:
  assumes x: "x86_64_contract C" and "pt_shape m"
    and "\<forall>no \<in> heap_pages. \<forall>e s. phys_walk m (cr3 m) (nth_page no) = Some (e, s) \<longrightarrow> s = Kib4"
    and "set ns \<subseteq> heap_pages" and "no \<in> set ns" and "phys_walk m (cr3 m) (nth_page no) = None"
  shows "\<exists>e. for_each (map nth_page ns) (\<lambda>page. unmap C page Free invplg) m = Inl e"
  using assms(2-)
proof (induction ns arbitrary: m)
  case (Cons n ns)
  have n: "n \<in> heap_pages" "mappable (nth_page n)" using Cons.prems(3) heap_page_mappable by auto
  show ?case
  proof (cases "phys_walk m (cr3 m) (nth_page n)")
    case None
    with unmap_unmapped[OF x Cons.prems(1) n(2)] show ?thesis by (auto simp: bind_run_Inl)
  next
    case (Some w)
    then obtain e where w: "phys_walk m (cr3 m) (nth_page n) = Some (e, Kib4)" using Cons.prems(2) n(1) by (cases w) auto
    have no: "no \<in> set ns" using Cons.prems(4,5) w by auto
    show ?thesis
    proof (cases "unmap C (nth_page n) Free invplg m")
      case (Inl e)
      then show ?thesis by (auto simp: bind_run_Inl)
    next
      case (Inr r)
      then obtain m' where r: "unmap C (nth_page n) Free invplg m = Inr ((), m')" by (cases r) auto
      note U = unmap_shape[OF x Cons.prems(1) n(2) w r]
      have p4: "k \<in> heap_pages \<Longrightarrow> p4_index (nth_page k) \<noteq> 510" for k using heap_page_mappable mappableD(4) by blast
      have "\<exists>e. for_each (map nth_page ns) (\<lambda>page. unmap C page Free invplg) m' = Inl e"
      proof (rule Cons.IH[OF U(1) _ _ no])
        show "\<forall>no \<in> heap_pages. \<forall>e s. phys_walk m' (cr3 m') (nth_page no) = Some (e, s) \<longrightarrow> s = Kib4"
          using U(2)[OF p4] Cons.prems(2) by fastforce
        show "set ns \<subseteq> heap_pages" using Cons.prems(3) by simp
        have "no \<in> heap_pages" using Cons.prems(3,4) by auto
        from U(2)[OF p4[OF this]] show "phys_walk m' (cr3 m') (nth_page no) = None" using Cons.prems(5) by auto
      qed
      with r show ?thesis by (auto simp: bind_run_Inr)
    qed
  qed
qed simp

lemma unmap_range_stops:
  assumes "x86_64_contract C" and "pt_inv ok free m (cr3 m)" and "heap_inv hok m"
    and "b \<in> heap_pages" and "no \<in> heap_pages" and "b \<le> no" and "phys_walk m (cr3 m) (nth_page no) = None"
  shows "\<exists>e. unmap_range C (nth_page b) (nth_page no) Free invplg m = Inl e"
proof -
  have "page_range (nth_page b) (nth_page no) = map nth_page (range_incl b no)"
    by (simp add: page_range_def nth_page_def)
  moreover have "set (range_incl b no) \<subseteq> heap_pages"
    using assms(4,5) by (auto simp: set_range_incl heap_pages_def word_le_nat_alt)
  moreover have "no \<in> set (range_incl b no)" using assms(6) by (simp add: set_range_incl)
  moreover have "\<forall>no \<in> heap_pages. \<forall>e s. phys_walk m (cr3 m) (nth_page no) = Some (e, s) \<longrightarrow> s = Kib4"
    using assms(3) by (auto simp: heap_inv_def)
  ultimately show ?thesis
    unfolding unmap_range_def using unmap_pages_stop[OF assms(1) pt_inv_shape[OF assms(2)]] assms(7) by simp
qed

lemma undo_stops:
  assumes x: "x86_64_contract C" and inv: "pt_inv ok free m r" and c: "cr3 m = r" and hi: "heap_inv hok m"
    and blk: "heap_block p n" and n: "n \<le> 24" and no: "no \<in> block_pages p (n + 5)"
    and none: "phys_walk m r (nth_page no) = None"
  shows "no \<in> heap_pages" and "\<exists>e. unmap_range C (containing_address p) (nth_page no) Free invplg m = Inl e"
proof -
  show h: "no \<in> heap_pages" using no heap_block_list(4)[OF blk n add5] by blast
  have "0 < pages_of (n + 5)" by (simp add: pages_of_alt)
  then have b: "p div 4096 \<in> heap_pages" using heap_block_page(2)[OF blk _ add5, of 0] by simp
  obtain j where j: "j < pages_of (n + 5)" "no = p div 4096 + of_nat j" using no by (auto simp: block_pages_def)
  have "pages_of (n + 5) \<le> 2 ^ 18" using pages_of_bounds(2)[of "n + 5"] n by simp
  then have "unat (of_nat j :: u64) = j" using j(1) by (simp add: unat_of_nat take_bit_nat_eq_self)
  moreover have "unat (p div 4096) < 2 ^ 52" using b by (simp add: heap_pages_def)
  ultimately have "unat no = unat (p div 4096) + j"
    using j \<open>pages_of (n + 5) \<le> 2 ^ 18\<close> by (simp add: unat_word_ariths)
  then have "p div 4096 \<le> no" by (simp add: word_le_nat_alt)
  moreover have "containing_address p = nth_page (p div 4096)" by (simp add: containing_address_def nth_page_def)
  ultimately show "\<exists>e. unmap_range C (containing_address p) (nth_page no) Free invplg m = Inl e"
    using unmap_range_stops[OF x _ hi b h, of ok free] inv none by (simp add: c)
qed

lemma in_heap_page:
  assumes "in_heap p"
  shows "p div 4096 \<in> heap_pages" and "canonical p"
proof -
  have "0xFFFFFFFF40000000 \<le> unat p" "unat p < 0xFFFFFFFF80000000"
    using assms by (simp_all add: in_heap_def HEAP_START_def word_le_nat_alt word_less_nat_alt)
  moreover have "unat (p div 4096) = unat p div 4096" by (simp add: unat_div)
  ultimately show "p div 4096 \<in> heap_pages" unfolding heap_pages_def mem_Collect_eq by linarith
  from mappableD(3)[OF heap_page_mappable[OF this]] show "canonical p"
    using canonical_page[of p] by (simp add: nth_page_def)
qed


text \<open>The list of blocks as a tree for the heap: a block of 64 bytes at each of its addresses.\<close>

definition list_bytes :: "u64 list \<Rightarrow> nat set" where
  "list_bytes t = (\<Union>a \<in> set t. {unat a..<unat a + 64})"

definition sample_heap :: "u64 list \<Rightarrow> u64 list machine" where
  "sample_heap t = (sample_machine t)\<lparr>heap_tree := Some [0]\<rparr>"

lemma list_ok_entry:
  assumes "list_ok t" and "a \<in> set t"
  shows "unat a + 4096 \<le> 2 ^ 30" and "4096 dvd unat a"
proof -
  have a: "a < 2 ^ 30" "a AND 0xFFF = 0" using assms by (auto simp: list_ok_def)
  have "0xFFF = (mask 12 :: u64)" by (simp add: mask_eq_exp_minus_1)
  then have "take_bit 12 a = 0" using a(2) by (simp add: take_bit_eq_mask)
  then have "a mod 4096 = 0" by (simp add: take_bit_eq_mod)
  then have "unat (a mod 4096) = 0" by simp
  then have "unat a mod 4096 = 0" by (simp only: unat_mod) simp
  then show d: "4096 dvd unat a" by auto
  from a(1) have "unat a < 2 ^ 30" by (simp add: word_less_nat_alt)
  with d show "unat a + 4096 \<le> 2 ^ 30" by (auto elim!: dvdE)
qed

lemma list_bytes_disjoint:
  assumes "list_ok t" and "a \<in> set t" and "b \<in> set t" and "a \<noteq> b"
  shows "{unat a..<unat a + 64} \<inter> {unat b..<unat b + 64} = {}"
proof -
  obtain i j where "unat a = 4096 * i" "unat b = 4096 * j"
    using list_ok_entry(2)[OF assms(1)] assms(2,3) by (metis dvdE)
  moreover have "unat a \<noteq> unat b" using assms(4) word_unat_eq_iff by blast
  ultimately show ?thesis by (auto simp: disjoint_iff)
qed

lemma sample_heap_contract: "heap_contract (sample_crates chk) list_ok list_bytes"
  unfolding heap_contract_def
proof (intro conjI allI impI; (elim conjE)?)
  show "tree_max_order (sample_crates chk) HEAP_LEVELS = 24" by (simp add: sample_crates_def HEAP_LEVELS_def)
next
  fix t t' :: "u64 list" and order p
  assume t: "list_ok t" and "tree_allocate (sample_crates chk) t order = (Some p, t')"
  then have o: "order = 0" "t = p # t'" by (auto simp: list_allocate_def split: if_splits list.splits)
  note e = list_ok_entry[OF t, of p]
  show "list_ok t'" using t o(2) by (auto simp: list_ok_def)
  show "unat p + 2 ^ (unat order + 6) \<le> 2 ^ 30" using e(1) o by simp
  show "2 ^ (unat order + 6) dvd unat p" using dvd_trans[of 64 4096 "unat p"] e(2) o by simp
  show "heap_bytes (unat p) (unat order) \<subseteq> list_bytes t" using o by (auto simp: heap_bytes_def list_bytes_def)
  have "p \<notin> set t'" using t o(2) by (simp add: list_ok_def)
  then have "x < unat b \<or> unat b + 64 \<le> x" if "b \<in> set t'" "unat p \<le> x" "x < unat p + 64" for b x
    using list_bytes_disjoint[OF t, of p b] o(2) that unfolding disjoint_iff by force
  then show "list_bytes t' = list_bytes t - heap_bytes (unat p) (unat order)"
    using o by (fastforce simp: heap_bytes_def list_bytes_def)
next
  fix t t' :: "u64 list" and order
  assume "list_ok t" and "tree_allocate (sample_crates chk) t order = (None, t')"
  then show "list_ok t'" "list_bytes t' = list_bytes t"
    by (auto simp: list_allocate_def split: if_splits list.splits)
qed

lemma sample_heap_walk: "no \<in> heap_pages \<Longrightarrow> phys_walk (sample_heap t) 0x1000 (nth_page no) = None"
  using sample_walk[OF mappableD(4)[OF heap_page_mappable], of no t]
    phys_walk_cong[of "sample_heap t" "sample_machine t"] by (simp add: sample_heap_def)

lemma sample_heap_cr3 [simp]: "cr3 (sample_heap t) = 0x1000"
  by (simp add: sample_heap_def)

lemma sample_heap_inv:
  "list_ok t \<Longrightarrow> 0x1000 \<notin> set t \<Longrightarrow> pt_inv list_ok set (sample_heap t) 0x1000" "heap_inv list_ok (sample_heap t)"
  using pt_inv_tree[of list_ok set "sample_machine t" "Some [0]"] sample_pt_inv[of t]
  by (auto simp: heap_inv_def sample_heap_walk) (auto simp: sample_heap_def list_ok_def)




end
