(* ===== verification/Region_Properties.thy ===== *)
theory Region_Properties
  imports Heap_Properties Physical_Mapping
begin

text \<open>
  What \<open>map_physical_region\<close> promises: the object can be read and written through the pointer that the
  mapping holds.  The pages are mapped by the loop of \<open>alloc_specific\<close>, an instance of \<open>page_updates\<close>.
\<close>

declare bit_numeral_word_iff [simp del]

section \<open>The loop of \<open>alloc_specific\<close>\<close>

text \<open>The frame for a page of the block: the frames and the pages are counted from the beginning of
  the region and of the block.  Frame numbers have 36 bits.\<close>

definition region_frame :: "u64 \<Rightarrow> u64 \<Rightarrow> u64 \<Rightarrow> u64" where
  "region_frame base frame no = take_bit 36 (frame + (no - base)) * 4096"

definition region_step :: "'t crates \<Rightarrow> u64 \<Rightarrow> u64 \<Rightarrow> u64 \<Rightarrow> (('t, 'z) machine_scheme, OutOfMemory + unit) comp" where
  "region_step C base frame no = map_to C (nth_page no) (region_frame base frame no) heap_flags Invalidate"

definition region_entry :: "u64 \<Rightarrow> u64 \<Rightarrow> ('t, 'z) alloc_env \<Rightarrow> u64 \<Rightarrow> u64 \<times> page_size \<Rightarrow> bool" where
  "region_entry base frame s no w \<longleftrightarrow> w = (region_frame base frame no OR (heap_flags OR PRESENT), Kib4)"

text \<open>The loop fails: the first pages have been mapped, and then there is no frame for a page table.\<close>

definition mapping_fails :: "'t crates \<Rightarrow> u64 \<Rightarrow> u64 \<Rightarrow> ('t, 'z) machine_scheme \<Rightarrow> bool" where
  "mapping_fails C ptr frame m \<longleftrightarrow> (\<exists>i m0 m1.
     for_each_res (range_excl 0 i) (alloc_specific_step C ptr frame) m = Inr (Inr (), m0) \<and>
     map_to C (nth_page (ptr div 4096 + i)) ((frame + i) * 4096) heap_flags Invalidate m0 = Inr (Inl OutOfMemory, m1))"

lemma region_args: "entry_args (region_frame base frame no) heap_flags"
proof -
  let ?n = "take_bit 36 (frame + (no - base)) :: u64"
  have lt: "unat ?n < 2 ^ 36" by (simp add: take_bit_eq_mod unat_mod)
  then have u: "unat (?n * 4096) = unat ?n * 4096" by (simp add: unat_word_ariths)
  have "?n * 4096 < 2 ^ 48" using lt u by (simp add: word_less_nat_alt)
  moreover have "?n * 4096 = push_bit 12 ?n" by (simp add: push_bit_eq_mult)
  then have "?n * 4096 AND 0xFFF = 0"
    by (intro bit_word_eqI) (simp add: bit_and_iff bit_push_bit_iff bit_low_mask)
  ultimately show ?thesis using heap_flags_ok(1) by (simp add: entry_args_def region_frame_def flags_ok_def)
qed

lemma region_step_cases:
  assumes env: "mapping_env D heap_flags NoZero (C, ok, free, m)" and no: "no \<in> mappable_in D"
  obtains (ok) m' where "region_step C base frame no m = Inr (Inr (), m')"
      "mapping_env D heap_flags NoZero (C, ok, free, m')" "keeps free (cr3 m) m m'" "cr3 m' = cr3 m"
      "phys_walk m' (cr3 m) (nth_page no) = Some (region_frame base frame no OR (heap_flags OR PRESENT), Kib4)"
      "\<And>q. q \<in> mappable_in D \<Longrightarrow> q \<noteq> no \<Longrightarrow> phys_walk m' (cr3 m) (nth_page q) = phys_walk m (cr3 m) (nth_page q)"
      "\<And>page e. p4_index page \<noteq> 510 \<Longrightarrow> phys_walk m (cr3 m) page = Some (e, Mib2) \<Longrightarrow>
        phys_walk m' (cr3 m) page = Some (e, Mib2)"
    | (oom) m' where "region_step C base frame no m = Inr (Inl OutOfMemory, m')"
      "mapping_env D heap_flags NoZero (C, ok, free, m')" "keeps free (cr3 m) m m'" "cr3 m' = cr3 m"
      "\<And>page. p4_index page \<noteq> 510 \<Longrightarrow> phys_walk m' (cr3 m) page = phys_walk m (cr3 m) page"
proof -
  have E: "friendly_contract C ok free" "x86_64_contract C" "pt_inv ok free m (cr3 m)" "flags_ok heap_flags"
    "\<forall>no \<in> mappable_in D. \<forall>e. phys_walk m (cr3 m) (nth_page no) \<noteq> Some (e, Mib2)"
    using env by (simp_all add: mapping_env_def)
  have inD: "mappable (nth_page q)" if "q \<in> mappable_in D" for q using that by (simp add: mappable_in_def)
  note page = inD[OF no]
  have nohuge: "\<forall>e. phys_walk m (cr3 m) (nth_page no) \<noteq> Some (e, Mib2)" using E(5) no by blast
  have p4: "p4_index (nth_page q) \<noteq> 510" if "q \<in> mappable_in D" for q using mappableD(4)[OF inD[OF that]] .
  from E(1-3) page region_args[of base frame no] nohuge show thesis
  proof (cases rule: map_to_cases[where invplg = Invalidate])
    case (ok m')
    note st = keeps_cr3[OF ok(3)]
    have other: "phys_walk m' (cr3 m) (nth_page q) = phys_walk m (cr3 m) (nth_page q)"
      if q: "q \<in> mappable_in D" "q \<noteq> no" for q
      using ok(4)[OF p4[OF q(1)]] page_indices_inject[OF inD[OF q(1)] page] q(2) by (auto simp: nth_page_def)
    have this_page: "phys_walk m' (cr3 m) (nth_page no) = Some (region_frame base frame no OR (heap_flags OR PRESENT), Kib4)"
      using ok(4)[OF p4[OF no]] by simp
    have "phys_walk m' (cr3 m) (nth_page q) \<noteq> Some (e, Mib2)" if "q \<in> mappable_in D" for q e
      using other[OF that] this_page E(5) that by (cases "q = no") auto
    then have "mapping_env D heap_flags NoZero (C, ok, free, m')" using E ok(2) by (auto simp: mapping_env_def st)
    moreover have "phys_walk m' (cr3 m) page = Some (e, Mib2)"
      if "p4_index page \<noteq> 510" "phys_walk m (cr3 m) page = Some (e, Mib2)" for page e
    proof -
      have "page_indices page \<noteq> page_indices (nth_page no)" using phys_walk_indices that(2) nohuge by metis
      with ok(4)[OF that(1)] that(2) show ?thesis by simp
    qed
    ultimately show thesis using ok(1,3) other this_page st by (intro that(1)[of m']) (auto simp: region_step_def)
  next
    case (oom m0 m')
    have k: "keeps free (cr3 m) m m'" using oom(3) by (simp add: grows_def)
    note st = keeps_cr3[OF k]
    have w: "phys_walk m' (cr3 m) page = phys_walk m (cr3 m) page" if "p4_index page \<noteq> 510" for page
      using oom(3) that by (simp add: grows_def)
    have "mapping_env D heap_flags NoZero (C, ok, free, m')" using E oom(2) w[OF p4] by (auto simp: mapping_env_def st)
    then show thesis using oom(1) k w st by (intro that(2)[of m']) (auto simp: region_step_def)
  qed
qed

interpretation region_loop: page_updates "mapping_env D heap_flags NoZero" env_look env_keeps "mappable_in D"
  "\<lambda>no. in_env (\<lambda>C. region_step C base frame no)" "region_entry base frame" "\<lambda>s no x. True"
  for D base frame
proof
  fix s t u :: "('a, 'b) alloc_env"
  show "env_keeps s s" by (rule env_keeps_refl)
  show "env_keeps s u" if "env_keeps s t" "env_keeps t u" using that by (rule env_keeps_trans)
next
  fix s s' :: "('a, 'b) alloc_env" and no x
  obtain C ok free m where s: "s = (C, ok, free, m)" by (cases s)
  assume env: "mapping_env D heap_flags NoZero s" and no: "no \<in> mappable_in D"
  note cs = region_step_cases[OF env[unfolded s] no, of base frame]
  show "\<exists>res s'. in_env (\<lambda>C. region_step C base frame no) s = Inr (res, s')"
    by (rule cs) (simp_all add: in_env_def s)
  show "mapping_env D heap_flags NoZero s' \<and> env_keeps s s' \<and>
      (\<exists>e. env_look s' no = Some e \<and> region_entry base frame s no e) \<and>
      (\<forall>q \<in> mappable_in D. q \<noteq> no \<longrightarrow> env_look s' q = env_look s q)"
    if "in_env (\<lambda>C. region_step C base frame no) s = Inr (Inr (), s')"
    using that by - (rule cs; auto simp: in_env_def s env_keeps_def env_look_def region_entry_def)
  show "mapping_env D heap_flags NoZero s' \<and> env_keeps s s' \<and> True \<and>
      (\<forall>q \<in> mappable_in D. env_look s' q = env_look s q)"
    if "in_env (\<lambda>C. region_step C base frame no) s = Inr (Inl x, s')"
    using that
    by - (rule cs; auto simp: in_env_def s env_keeps_def env_look_def mappable_in_def dest: mappableD(4))
qed

lemma region_loop_total:
  assumes fc: "friendly_contract C ok free" and x: "x86_64_contract C" and inv: "pt_inv ok free m (cr3 m)"
    and pages: "set ps \<subseteq> heap_pages" "distinct ps" and small: "heap_pages \<subseteq> small_pages m"
  obtains (ok) m' where "for_each_res ps (region_step C base frame) m = Inr (Inr (), m')"
      "pt_inv ok free m' (cr3 m)" "keeps free (cr3 m) m m'" "unchanged_outside m m' (set ps)"
      "\<forall>no \<in> set ps. phys_walk m' (cr3 m) (nth_page no) = Some (region_frame base frame no OR (heap_flags OR PRESENT), Kib4)"
    | (oom) m' where "for_each_res ps (region_step C base frame) m = Inr (Inl OutOfMemory, m')"
proof -
  let ?s = "(C, ok, free, m)" and ?D = "small_pages m"
  have env: "mapping_env ?D heap_flags NoZero ?s" by (rule small_pages_env[OF fc x inv heap_flags_ok(1)]) simp
  have sub: "set ps \<subseteq> mappable_in ?D" using pages(1) small heap_page_mappable by (auto simp: mappable_in_def)
  from region_loop.updates_total[OF env sub pages(2), of base frame] obtain res s' ds rs where
    run: "for_each_res ps (\<lambda>no. in_env (\<lambda>C. region_step C base frame no)) ?s = Inr (res, s')"
    and env': "mapping_env ?D heap_flags NoZero s'" and ext: "env_keeps ?s s'" and ps: "ps = ds @ rs"
    and dn: "\<forall>p \<in> set ds. region_loop.updated base frame ?s s' p"
    and rest: "\<forall>q \<in> mappable_in ?D - set ds. env_look s' q = env_look ?s q"
    and stop: "region_loop.stopped ?s rs res" by blast
  from run obtain m' where s': "s' = (C, ok, free, m')"
    and loop: "for_each_res ps (region_step C base frame) m = Inr (res, m')"
    unfolding for_each_res_in_env[symmetric] in_env_Inr by blast
  have k: "keeps free (cr3 m) m m'" using ext by (simp add: s' env_keeps_def)
  show thesis
  proof (cases res)
    case (Inr u')
    then have ds: "ds = ps" using stop ps by (simp add: region_loop.stopped_def)
    have "phys_walk m' (cr3 m) (nth_page no) = Some (region_frame base frame no OR (heap_flags OR PRESENT), Kib4)"
      if "no \<in> set ps" for no
    proof -
      from dn that obtain e where "env_look s' no = Some e"
        "e = (region_frame base frame no OR (heap_flags OR PRESENT), Kib4)"
        unfolding ds region_loop.updated_def region_entry_def by blast
      then show ?thesis by (simp add: env_look_def s' keeps_cr3[OF k])
    qed
    moreover have "unchanged_outside m m' (set ps)" by (rule env_outside[OF ext[unfolded s'] rest[unfolded s' ds]])
    moreover have "pt_inv ok free m' (cr3 m)" using env' by (simp add: s' mapping_env_def keeps_cr3[OF k])
    ultimately show thesis using loop Inr k by (intro that(1)[of m']) auto
  next
    case (Inl e)
    moreover have "e = OutOfMemory" by (cases e)
    ultimately show thesis using loop by (intro that(2)[of m']) auto
  qed
qed

text \<open>One round of \<open>alloc_specific\<close> in terms of the page.\<close>

lemma region_frame_nth:
  assumes "unat frame + i < 2 ^ 36"
  shows "region_frame base frame (base + of_nat i) = (frame + of_nat i) * 4096"
    and "unat (frame + of_nat i) = unat frame + i" and "unat ((frame + of_nat i) * 4096) = (unat frame + i) * 4096"
proof -
  show u: "unat (frame + of_nat i) = unat frame + i"
    using assms by (simp add: unat_word_ariths unat_of_nat take_bit_nat_eq_self)
  show "unat ((frame + of_nat i) * 4096) = (unat frame + i) * 4096"
    using assms by (simp only: unat_word_ariths(2) u) simp
  have "unat ((frame + of_nat i) mod 2 ^ 36) = unat (frame + of_nat i)" using assms by (simp add: unat_mod u)
  then have "take_bit 36 (frame + of_nat i) = frame + of_nat i" by (simp add: take_bit_eq_mod word_unat_eq_iff)
  then show "region_frame base frame (base + of_nat i) = (frame + of_nat i) * 4096" by (simp add: region_frame_def)
qed

lemma alloc_specific_step_run:
  assumes x: "x86_64_contract C" and blk: "heap_block ptr n" and i: "i < pages_of (n + 6)"
    and lt: "unat frame + i < 2 ^ 36"
  shows "alloc_specific_step C ptr frame (of_nat i) m =
    bind (region_step C (ptr div 4096) frame (ptr div 4096 + of_nat i))
      (undo_on_error C (containing_address ptr) (nth_page (ptr div 4096 + of_nat i))) m"
proof -
  note F = region_frame_nth[OF lt]
  have "i < 2 ^ 36" using lt by simp
  then have ui: "unat (of_nat i :: u64) = i" by (simp add: unat_of_nat take_bit_nat_eq_self)
  have "(unat frame + i) * 4096 < 2 ^ 48" using lt by simp
  then have pa: "(frame + of_nat i) * 4096 < 2 ^ 52" unfolding word_less_nat_alt F(3) by simp
  have "unat frame + unat (of_nat i :: u64) < 2 ^ 64" "unat (frame + of_nat i) * unat (4096 :: u64) < 2 ^ 64"
    using lt by (simp_all add: ui F(2))
  then show ?thesis
    by (simp add: alloc_specific_step_def Let_def bind_run_Inr heap_block_page(1)[OF blk i order_refl] add_ck_def mul_ck_def
        phys_addr_run[OF x pa] region_step_def F(1) ret_bind del: distrib_right_numeral)
qed

lemma region_writable: "pte_writable (f OR (heap_flags OR PRESENT))"
  by (simp add: pte_writable_def bit_or_iff heap_flags_def WRITABLE_def bit_numeral_word_iff)

lemma region_undo:
  "f s = Inr (Inr (), s') \<Longrightarrow> bind f (undo_on_error C a b) s = Inr (Inr (), s')"
  "f s = Inr (Inl e, s') \<Longrightarrow> bind f (undo_on_error C a b) s = bind (unmap_range C a b Free Invalidate) (\<lambda>_. ret (Inl ())) s'"
  by (simp_all add: bind_def undo_on_error_def ret_def)

lemma range_excl_split:
  assumes "map (of_nat :: nat \<Rightarrow> u64) [0..<k] = ds @ i # rs" and "k \<le> 2 ^ 18"
  shows "ds = range_excl 0 i" and "unat i < k"
proof -
  let ?l = "length ds"
  have "k = length (ds @ i # rs)" by (simp add: assms(1)[symmetric])
  then have l: "?l < k" by simp
  have "i = map of_nat [0..<k] ! ?l" by (simp add: assms(1))
  then have i: "i = of_nat ?l" using l by simp
  have u: "unat i = ?l" using l assms(2) by (simp add: i unat_of_nat take_bit_nat_eq_self)
  then show "unat i < k" using l by simp
  have "ds = take ?l (map of_nat [0..<k])" by (simp add: assms(1))
  then show "ds = range_excl 0 i" using l by (simp add: range_excl_def u take_map)
qed

text \<open>The loop with the undoing, over a whole block.\<close>

lemma alloc_specific_loop:
  assumes fc: "friendly_contract C ok free" and x: "x86_64_contract C" and inv: "pt_inv ok free m (cr3 m)"
    and hi: "heap_inv hok m" and blk: "heap_block ptr n" and n: "n \<le> 24"
    and lt: "unat frame + pages_of (n + 6) \<le> 2 ^ 36"
  obtains (ok) m' where
      "for_each_res (range_excl 0 (of_nat (pages_of (n + 6)))) (alloc_specific_step C ptr frame) m = Inr (Inr (), m')"
      "pt_inv ok free m' (cr3 m)" "keeps free (cr3 m) m m'" "heap_inv hok m'" "unchanged_outside m m' heap_pages"
      "\<And>i. i < pages_of (n + 6) \<Longrightarrow> phys_walk m' (cr3 m) (nth_page (ptr div 4096 + of_nat i)) =
        Some ((frame + of_nat i) * 4096 OR (heap_flags OR PRESENT), Kib4)"
    | (oom) no m1 where
      "for_each_res (range_excl 0 (of_nat (pages_of (n + 6)))) (alloc_specific_step C ptr frame) m =
        bind (unmap_range C (containing_address ptr) (nth_page no) Free Invalidate) (\<lambda>_. ret (Inl ())) m1"
      "mapping_fails C ptr frame m"
proof -
  let ?xs = "range_excl 0 (of_nat (pages_of (n + 6))) :: u64 list" and ?b = "ptr div 4096"
  let ?h = "\<lambda>i. ptr div 4096 + i" and ?f = "\<lambda>i. region_step C (ptr div 4096) frame (ptr div 4096 + i)"
  let ?u = "\<lambda>i. unmap_range C (containing_address ptr) (nth_page (ptr div 4096 + i)) Free Invalidate"
  note L = heap_block_list[OF blk n order_refl]
  have small: "heap_pages \<subseteq> small_pages m" using hi by (auto simp: heap_inv_def small_pages_def)
  have less: "unat frame + i < 2 ^ 36" if "i < pages_of (n + 6)" for i using lt that by linarith
  have step: "alloc_specific_step C ptr frame i s = bind (?f i) (undo_on_error C (containing_address ptr) (nth_page (?h i))) s"
    if i: "i \<in> set ?xs" for i and s :: "('a, 'b) machine_scheme"
  proof -
    from i obtain j where j: "i = of_nat j" "j < pages_of (n + 6)" unfolding L(1) by auto
    then show ?thesis using alloc_specific_step_run[OF x blk j(2) less[OF j(2)]] by simp
  qed
  have fine: "alloc_specific_step C ptr frame i s1 = Inr (Inr (), s2)" if "i \<in> set ?xs" "?f i s1 = Inr (Inr (), s2)"
    for i and s1 s2 :: "('a, 'b) machine_scheme"
    unfolding step[OF that(1)] by (rule region_undo(1)[of "?f i", OF that(2)])
  have err: "alloc_specific_step C ptr frame i s1 = bind (?u i) (\<lambda>_. ret (Inl ())) s2"
    if "i \<in> set ?xs" "?f i s1 = Inr (Inl OutOfMemory, s2)"
    for i and s1 s2 :: "('a, 'b) machine_scheme"
    unfolding step[OF that(1)] by (rule region_undo(2)[of "?f i", OF that(2)])
  have sub: "set (map ?h ?xs) \<subseteq> heap_pages" using L(2,4) by simp
  from fc x inv sub L(3) small show thesis
  proof (cases rule: region_loop_total[where base = "ptr div 4096" and frame = frame])
    case (ok m')
    have "for_each_res ?xs (alloc_specific_step C ptr frame) m = Inr (Inr (), m')"
      by (rule undo_loop_ok[OF ok(1)[unfolded for_each_res_map]]) (rule fine)
    moreover have "heap_inv hok m'"
      by (rule heap_loop_inv[OF hi ok(3) _ ok(4)]) (use ok(5) in \<open>auto simp: region_writable\<close>)
    moreover have "unchanged_outside m m' heap_pages" using ok(4) sub unfolding unchanged_outside_def by blast
    moreover have "phys_walk m' (cr3 m) (nth_page (?b + of_nat i)) = Some ((frame + of_nat i) * 4096 OR (heap_flags OR PRESENT), Kib4)"
      if "i < pages_of (n + 6)" for i
    proof -
      have "?b + of_nat i \<in> set (map ?h ?xs)" unfolding L(2) block_pages_def using that by blast
      from bspec[OF ok(5) this] show ?thesis unfolding region_frame_nth(1)[OF less[OF that]] .
    qed
    ultimately show thesis by (rule that(1)[OF _ ok(2,3)])
  next
    case (oom m')
    have "\<exists>ds i rs s1. ?xs = ds @ i # rs \<and> for_each_res ds ?f m = Inr (Inr (), s1) \<and> ?f i s1 = Inr (Inl OutOfMemory, m') \<and>
        for_each_res ?xs (alloc_specific_step C ptr frame) m = bind (?u i) (\<lambda>_. ret (Inl ())) m'"
      by (rule undo_loop_err[OF oom(1)[unfolded for_each_res_map] fine err])
    then obtain ds i rs s1 where i: "?xs = ds @ i # rs" "for_each_res ds ?f m = Inr (Inr (), s1)" "?f i s1 = Inr (Inl OutOfMemory, m')"
      and res: "for_each_res ?xs (alloc_specific_step C ptr frame) m = bind (?u i) (\<lambda>_. ret (Inl ())) m'" by blast
    have ds: "ds = range_excl 0 i" "unat i < pages_of (n + 6)" using range_excl_split[OF i(1)[unfolded L(1)]] pages_of_bounds(2)[of "n + 6"] n by auto
    have "for_each_res ds (alloc_specific_step C ptr frame) m = Inr (Inr (), s1)"
      by (rule undo_loop_ok[OF i(2)]) (rule fine, use i(1) in auto)
    moreover have "map_to C (nth_page (?b + i)) ((frame + i) * 4096) heap_flags Invalidate s1 = Inr (Inl OutOfMemory, m')"
      using i(3) region_frame_nth(1)[OF less[OF ds(2)], of ?b] by (simp add: region_step_def del: distrib_right_numeral)
    ultimately have "mapping_fails C ptr frame m" unfolding mapping_fails_def ds(1) by blast
    with res show thesis by (rule that(2))
  qed
qed

section \<open>\<open>alloc_specific\<close> and \<open>map_physical_region\<close>\<close>

text \<open>Why a region cannot be mapped: the tree refuses a block, or there is no frame for a table.\<close>

definition heap_refuses :: "'t crates \<Rightarrow> u64 \<Rightarrow> ('t, 'z) machine_scheme \<Rightarrow> bool" where
  "heap_refuses C n m \<longleftrightarrow> (\<exists>order. order_of (overflow_checks C) n m = Inr (order, m) \<and>
     (24 < order \<or> fst (tree_allocate C (the (heap_tree m)) order) = None))"

lemma alloc_specific_run:
  assumes frames: "unat frames * 4096 < 2 ^ 64" and n: "order_of (overflow_checks C) (frames * 4096) m = Inr (order, m)"
    and "order \<le> 24" and take: "heap_take C order m = Inr (Some ptr, m0)" and tree: "heap_tree m = Some t"
  shows "alloc_specific C frame frames m =
    bind (for_each_res (range_excl 0 (of_nat (pages_of (unat order + 6)))) (alloc_specific_step C ptr frame))
      (\<lambda>res. ret (case res of Inl _ \<Rightarrow> 0 | Inr _ \<Rightarrow> ptr)) m0"
proof -
  have o: "unat order \<le> 24" using assms(3) by (simp add: word_le_nat_alt)
  have b: "add_ck chk order HEAP_BASE_ORDER s = Inr (order + 6, s)" for chk s
    using o by (simp add: run_simps HEAP_BASE_ORDER_def)
  have "unat (order + 6) = unat order + 6" using o by (simp add: unat_word_ariths)
  then have p: "pages_for chk (order + 6) s = Inr (of_nat (pages_of (unat order + 6)), s)" for chk s
    using o by (intro pages_for_run) simp_all
  have l: "heap_lock m = Inr (t, m)" using tree by (simp add: heap_lock_def run_simps)
  have s: "mul_ck chk frames 4096 s = Inr (frames * 4096, s)" for chk and s :: "('a, 'b) machine_scheme"
    using frames by (simp add: run_simps)
  show ?thesis by (simp add: alloc_specific_def Let_def bind_run_Inr l s n take b p)
qed

lemma alloc_specific_cases:
  assumes fc: "friendly_contract C ok free" and x: "x86_64_contract C" and hc: "heap_contract C hok hfree"
    and inv: "pt_inv ok free m (cr3 m)" and hi: "heap_inv hok m"
    and frames: "unat frames * 4096 < 2 ^ 64" and lt: "unat frame + 2 ^ 18 \<le> 2 ^ 36"
  obtains (refused) m' where "alloc_specific C frame frames m = Inr (0, m')" "heap_refuses C (frames * 4096) m"
    | (ok) ptr off n m' where "alloc_specific C frame frames m = Inr (ptr, m')" "pt_inv ok free m' (cr3 m)" "heap_inv hok m'"
      "cr3 m' = cr3 m" "unchanged_outside m m' heap_pages" "n \<le> 24" "unat frames * 4096 \<le> 2 ^ (n + 5)"
      "unat ptr = 0xFFFFFFFF40000000 + off" "off + 2 ^ (n + 6) \<le> 2 ^ 30" "2 ^ (n + 6) dvd off"
      "heap_bytes off n \<subseteq> heap_free hfree m" "heap_free hfree m' = heap_free hfree m - heap_bytes off n"
      "\<And>i. i < pages_of (n + 6) \<Longrightarrow> phys_walk m' (cr3 m) (nth_page (ptr div 4096 + of_nat i)) =
        Some ((frame + of_nat i) * 4096 OR (heap_flags OR PRESENT), Kib4)"
    | (oom) order ptr no m1 m2 where "alloc_specific C frame frames m =
        bind (unmap_range C (containing_address ptr) (nth_page no) Free Invalidate) (\<lambda>_. ret 0) m1"
      "heap_take C order m = Inr (Some ptr, m2)" "mapping_fails C ptr frame m2"
proof -
  obtain t where t: "heap_tree m = Some t" "hok t" using hi by (auto simp: heap_inv_def)
  have u: "unat (frames * 4096) = unat frames * 4096" using frames by (simp add: unat_word_ariths)
  obtain order where o: "order_of (overflow_checks C) (frames * 4096) m = Inr (order, m)"
    "unat (frames * 4096) \<le> 2 ^ (unat order + 5)" by (rule order_of_run)
  from hc t show thesis
  proof (cases rule: heap_take_cases[where order = order])
    case (refused t')
    have l: "heap_lock m = Inr (t, m)" using t(1) by (simp add: heap_lock_def run_simps)
    have "mul_ck (overflow_checks C) frames 4096 m = Inr (frames * 4096, m)" using frames by (simp add: run_simps)
    then have "alloc_specific C frame frames m = Inr (0, m\<lparr>heap_tree := Some t'\<rparr>)"
      using o(1) refused(1) l by (simp add: alloc_specific_def Let_def bind_run_Inr ret_def)
    then show thesis using refused(4) o(1) t(1) by (intro that(1)) (auto simp: heap_refuses_def)
  next
    case (taken ptr off t')
    let ?m = "m\<lparr>heap_tree := Some t'\<rparr>" and ?n = "unat order"
    have n: "?n \<le> 24" using taken(3) by (simp add: word_le_nat_alt)
    have blk: "heap_block ptr ?n" using taken(4-6) by (auto simp: heap_block_def)
    have fr: "unat frame + pages_of (?n + 6) \<le> 2 ^ 36" using lt pages_of_bounds(2)[of "?n + 6"] n by simp
    note run = alloc_specific_run[OF frames o(1) taken(3,1) t(1), of frame]
    have c3: "cr3 ?m = cr3 m" by simp
    have w: "phys_walk ?m r page = phys_walk m r page" for r page by (rule phys_walk_cong) simp
    from fc x pt_inv_tree[OF inv, of "Some t'", folded c3] heap_inv_tree[OF hi taken(2)] blk n fr show thesis
    proof (cases rule: alloc_specific_loop)
      case (ok m')
      have st: "cr3 m' = cr3 m" "heap_tree m' = Some t'" using keepsD(1)[OF ok(3)] by (simp_all add: same_statics_def)
      have "alloc_specific C frame frames m = Inr (ptr, m')" unfolding run using ok(1) by (simp add: bind_run_Inr ret_def)
      moreover have "unchanged_outside m m' heap_pages" using ok(5) w by (simp add: unchanged_outside_def)
      moreover have "heap_bytes off ?n \<subseteq> heap_free hfree m" "heap_free hfree m' = heap_free hfree m - heap_bytes off ?n"
        using taken(7,8) t(1) st(2) by (simp_all add: heap_free_def)
      ultimately show thesis
        using that(2)[of ptr m' ?n off] ok(2,4,6) st(1) n o(2) u taken(4-6) by simp
    next
      case (oom no m1)
      have "alloc_specific C frame frames m =
          bind (unmap_range C (containing_address ptr) (nth_page no) Free Invalidate) (\<lambda>_. ret 0) m1"
        unfolding run using oom(1) by (simp add: bind_def ret_def split: sum.split prod.split)
      then show thesis by (rule that(3)[OF _ taken(1) oom(2)])
    qed
  qed
qed

lemma unat_4096: "unat (4096 :: u64) = 4096"
  by simp

text \<open>An address of the block and the page it lies in.\<close>

lemma region_byte:
  assumes blk: "heap_block ptr n" and "6 \<le> n" and xlt: "x < 2 ^ (n + 6)"
  shows "containing_address (ptr + of_nat x) = nth_page (ptr div 4096 + of_nat (x div 4096))" and "x div 4096 < pages_of (n + 6)"
    and "(ptr + of_nat x) mod 4096 = of_nat (x mod 4096)"
proof -
  obtain j where j: "j < pages_of (n + 6)" "containing_address (ptr + of_nat x) = nth_page (ptr div 4096 + of_nat j)"
    and ux: "unat (ptr + of_nat x) = unat ptr + x" using blk xlt order_refl by (rule heap_block_byte)
  from blk obtain off where o: "unat ptr = 0xFFFFFFFF40000000 + off" "2 ^ (n + 6) dvd off" by (auto simp: heap_block_def)
  have "(2 :: nat) ^ 12 dvd 2 ^ (n + 6)" using assms(2) by (intro le_imp_power_dvd) simp
  then have "4096 dvd off" using o(2) dvd_trans by fastforce
  then have d: "4096 dvd unat ptr" unfolding o(1) by (intro dvd_add) simp_all
  have "(ptr + of_nat x) div 4096 = ptr div 4096 + of_nat j"
    using j(2) by (simp add: containing_address_def nth_page_def)
  then have "unat (ptr + of_nat x) div 4096 = unat ptr div 4096 + j"
    using heap_block_page(3)[OF blk j(1) order_refl] by (metis unat_div unat_4096)
  moreover have "(unat ptr + x) div 4096 = unat ptr div 4096 + x div 4096"
    using d by (simp add: div_plus_div_distrib_dvd_left)
  ultimately have eq: "j = x div 4096" unfolding ux by linarith
  show "containing_address (ptr + of_nat x) = nth_page (ptr div 4096 + of_nat (x div 4096))" "x div 4096 < pages_of (n + 6)"
    using j eq by simp_all
  have "(unat ptr + x) mod 4096 = x mod 4096" using d by (metis mod_add_left_eq add_0 dvd_imp_mod_0)
  then have "unat ((ptr + of_nat x) mod 4096) = unat (of_nat (x mod 4096) :: u64)"
    by (simp add: unat_mod ux unat_of_nat take_bit_nat_eq_self)
  then show "(ptr + of_nat x) mod 4096 = of_nat (x mod 4096)" by (simp add: word_unat_eq_iff)
qed

text \<open>The number of frames.\<close>

lemma region_frames:
  assumes fr: "unat region_size + 4096 < 2 ^ 64"
  shows "round_up_divide chk region_size 4096 s = Inr ((region_size + 4095) div 4096, s)"
    and "unat ((region_size + 4095) div 4096) = (unat region_size + 4095) div 4096"
    and "unat ((region_size + 4095) div 4096) * 4096 < 2 ^ 64"
proof -
  have y: "0 < (4096 :: u64)" and lt: "unat region_size + unat (4096 :: u64) < 2 ^ 64" using fr by simp_all
  have eq: "region_size + 4096 - 1 = region_size + 4095" by simp
  show "round_up_divide chk region_size 4096 s = Inr ((region_size + 4095) div 4096, s)"
    using round_up_divide_run(1)[OF y lt, of chk s] unfolding eq .
  show uf: "unat ((region_size + 4095) div 4096) = (unat region_size + 4095) div 4096"
    using round_up_divide_run(2)[OF y lt] unfolding eq by simp
  show "unat ((region_size + 4095) div 4096) * 4096 < 2 ^ 64" using fr unfolding uf by linarith
qed

lemma map_physical_region_run:
  assumes fr: "unat region_size + 4096 < 2 ^ 64" and ck: "overflow_checks C \<longrightarrow> unat ptr + unat addr < 2 ^ 64"
    and al: "alloc_specific C (addr div 4096) ((region_size + 4095) div 4096) m = Inr (ptr, m')" and ptr: "heap_block ptr n"
  shows "map_physical_region C addr region_size mut m = Inr (\<lparr>physical_start = addr div 4096 * 4096,
    virtual_start = ptr + addr mod 4096, mapped_length = (region_size + 4095) div 4096 * 4096, mutable = mut\<rparr>, m')"
proof -
  let ?f = "(region_size + 4095) div 4096"
  note rd = region_frames(1)[OF fr, of "overflow_checks C" m] and uf = region_frames(2)[OF fr]
  have nz: "unat (ptr + addr mod 4096) \<noteq> 0" "unat ptr \<noteq> 0"
  proof -
    obtain off where o: "unat ptr = 0xFFFFFFFF40000000 + off" "off + 2 ^ (n + 6) \<le> 2 ^ 30" "2 ^ (n + 6) dvd off"
      using ptr by (auto simp: heap_block_def)
    have "off < 2 ^ 31" using o(2) by simp
    moreover have "unat (addr mod 4096) < 4096" by (simp add: unat_mod)
    ultimately have "unat (ptr + addr mod 4096) = unat ptr + unat (addr mod 4096)" using o(1) by (simp add: unat_word_ariths(1))
    then show "unat (ptr + addr mod 4096) \<noteq> 0" "unat ptr \<noteq> 0" using o(1) by simp_all
  qed
  have um: "unat (addr div 4096) * 4096 \<le> unat addr" by (simp add: unat_div)
  then have start: "mul_ck chk (addr div 4096) 4096 s = Inr (addr div 4096 * 4096, s)" for chk and s :: "('a, 'b) machine_scheme"
    using unat_bound[of addr] by (intro mul_ck_run) simp
  have u2: "unat (addr div 4096 * 4096) = unat (addr div 4096) * 4096"
    using um unat_bound[of addr] by (simp add: unat_word_ariths(2))
  have "overflow_checks C \<longrightarrow> \<not> ptr + addr < addr div 4096 * 4096"
  proof
    assume "overflow_checks C"
    then have "unat (ptr + addr) = unat ptr + unat addr" using ck by (simp add: unat_word_ariths(1))
    then show "\<not> ptr + addr < addr div 4096 * 4096" using um by (simp add: word_less_nat_alt u2)
  qed
  moreover have "ptr + addr - addr div 4096 * 4096 = ptr + addr mod 4096" by (simp add: minus_div_mult_eq_mod)
  ultimately have sub: "sub_ck (overflow_checks C) (ptr + addr) (addr div 4096 * 4096) s = Inr (ptr + addr mod 4096, s)"
    for s :: "('a, 'b) machine_scheme" by (auto simp: sub_ck_def ret_def)
  have add: "add_ck (overflow_checks C) ptr addr s = Inr (ptr + addr, s)" for s :: "('a, 'b) machine_scheme"
    using ck by (auto simp: add_ck_def ret_def)
  have len: "mul_ck chk ?f 4096 s = Inr (?f * 4096, s)" for chk and s :: "('a, 'b) machine_scheme"
    using fr uf by (intro mul_ck_run) simp
  show ?thesis
    using nz by (simp add: map_physical_region_def Let_def bind_run_Inr rd al add start sub len panic_unless_True ret_def
        word_unat_eq_iff)
qed

text \<open>What the owner of a mapping can rely on: every byte of the object can be read and written through the
  pointer, in a part of the heap that nothing else has.\<close>

definition region_mapped :: "('t \<Rightarrow> nat set) \<Rightarrow> u64 \<Rightarrow> u64 \<Rightarrow> ('t, 'z) machine_scheme \<Rightarrow> physical_mapping
    \<Rightarrow> ('t, 'z) machine_scheme \<Rightarrow> bool" where
  "region_mapped hfree addr region_size m p m' \<longleftrightarrow>
     (\<forall>i < unat region_size.
        (\<exists>u. mmu_translate m' (deref p + of_nat i) = Some ((addr + of_nat i) div 4096 * 4096, True, u)) \<and>
        (deref p + of_nat i) mod 4096 = (addr + of_nat i) mod 4096) \<and>
     {unat (deref p - HEAP_START)..<unat (deref p - HEAP_START) + unat region_size} \<subseteq> heap_free hfree m - heap_free hfree m' \<and>
     heap_free hfree m' \<subseteq> heap_free hfree m \<and> unchanged_outside m m' heap_pages"

lemma region_bytes:
  assumes inv: "pt_inv ok free m' (cr3 m')" and blk: "heap_block ptr n" and n: "7 \<le> n" "n \<le> 24"
    and addr: "unat addr + 2 ^ 30 \<le> 2 ^ 48"
    and pages: "\<And>i. i < pages_of (n + 6) \<Longrightarrow> phys_walk m' (cr3 m') (nth_page (ptr div 4096 + of_nat i)) =
        Some ((addr div 4096 + of_nat i) * 4096 OR (heap_flags OR PRESENT), Kib4)"
    and i: "unat addr mod 4096 + i < 2 ^ (n + 6)"
  shows "\<exists>u. mmu_translate m' (ptr + addr mod 4096 + of_nat i) = Some ((addr + of_nat i) div 4096 * 4096, True, u)"
    and "(ptr + addr mod 4096 + of_nat i) mod 4096 = (addr + of_nat i) mod 4096"
proof -
  let ?x = "unat addr mod 4096 + i" and ?f = "addr div 4096"
  let ?j = "?x div 4096"
  have n6: "6 \<le> n" using n(1) by simp
  note B = region_byte[OF blk n6 i]
  have "unat (addr mod 4096) = unat addr mod 4096" by (simp add: unat_mod)
  then have "addr mod 4096 = of_nat (unat addr mod 4096)" by (metis of_nat_unat ucast_id)
  then have va: "ptr + addr mod 4096 + of_nat i = ptr + of_nat ?x" by simp
  have p30: "(2 :: nat) ^ (n + 6) \<le> 2 ^ 30" using n(2) by (intro power_increasing) auto
  then have i30: "i < 2 ^ 30" using i by linarith
  then have ua: "unat (addr + of_nat i) = unat addr + i"
    using addr by (simp add: unat_word_ariths unat_of_nat take_bit_nat_eq_self)
  have d: "unat addr + i = unat addr div 4096 * 4096 + ?x" using div_mult_mod_eq[of "unat addr" 4096] by linarith
  have q: "(unat addr + i) div 4096 = unat addr div 4096 + ?j" by (subst d) (rule div_mult_self3, simp)
  have j: "unat ?f + ?j < 2 ^ 36" using addr i30 q by (simp add: unat_div)
  note F = region_frame_nth(2,3)[OF j]
  have eq: "(addr + of_nat i) div 4096 * 4096 = (?f + of_nat ?j) * 4096"
  proof -
    have "unat ((addr + of_nat i) div 4096) = unat (?f + of_nat ?j)" unfolding F(1) by (simp add: unat_div ua q)
    then have "(addr + of_nat i) div 4096 = ?f + of_nat ?j" using word_unat_eq_iff by blast
    then show ?thesis by (rule arg_cong)
  qed
  have "mappable (nth_page (ptr div 4096 + of_nat ?j))"
    using heap_block_page(2)[OF blk B(2) order_refl] heap_page_mappable by blast
  from mmu_byte[OF inv this pages[OF B(2)] B(1)] obtain u where
    "mmu_translate m' (ptr + of_nat ?x) = Some (pte_frame ((?f + of_nat ?j) * 4096 OR (heap_flags OR PRESENT)), True, u)"
    by (auto simp: region_writable)
  moreover have "pte_frame ((?f + of_nat ?j) * 4096 OR (heap_flags OR PRESENT)) = (?f + of_nat ?j) * 4096"
    using entry_args_present(2)[OF region_args[of 0 ?f "of_nat ?j"]] region_frame_nth(1)[OF j, of 0] by simp
  ultimately show "\<exists>u. mmu_translate m' (ptr + addr mod 4096 + of_nat i) = Some ((addr + of_nat i) div 4096 * 4096, True, u)"
    unfolding va eq by auto
  have "unat ((addr + of_nat i) mod 4096) = ?x mod 4096" by (simp only: unat_mod ua unat_4096 mod_add_left_eq)
  then have "(addr + of_nat i) mod 4096 = of_nat (?x mod 4096)" by (metis of_nat_unat ucast_id)
  then show "(ptr + addr mod 4096 + of_nat i) mod 4096 = (addr + of_nat i) mod 4096" unfolding va B(3) by simp
qed

lemma region_start:
  assumes ptr: "unat ptr = 0xFFFFFFFF40000000 + off" and off: "off < 2 ^ 30"
  shows "unat (ptr + addr mod 4096 - HEAP_START) = off + unat addr mod 4096"
proof -
  have am: "unat (addr mod 4096) = unat addr mod 4096" by (simp add: unat_mod)
  then have u: "unat (ptr + addr mod 4096) = unat ptr + unat addr mod 4096"
    using ptr off mod_less_divisor[of 4096 "unat addr"] by (simp add: unat_word_ariths(1))
  then have "HEAP_START \<le> ptr + addr mod 4096" by (simp add: word_le_nat_alt unat_HEAP_START ptr)
  then show ?thesis by (simp add: unat_sub unat_HEAP_START u ptr)
qed

text \<open>What happens when \<open>alloc_specific\<close> gives the null pointer.\<close>

lemma region_null:
  assumes rd: "round_up_divide (overflow_checks C) region_size 4096 m = Inr (frames, m)"
  shows "alloc_specific C (addr div 4096) frames m = Inr (0, m') \<Longrightarrow>
      map_physical_region C addr region_size mut m = Inl (Panic ''Ran out of heap memory!'')"
    and "alloc_specific C (addr div 4096) frames m = bind u (\<lambda>_. ret 0) m1 \<Longrightarrow>
      \<exists>e. map_physical_region C addr region_size mut m = Inl e"
proof -
  show "map_physical_region C addr region_size mut m = Inl (Panic ''Ran out of heap memory!'')"
    if "alloc_specific C (addr div 4096) frames m = Inr (0, m')"
    using that by (simp add: map_physical_region_def Let_def bind_run_Inr bind_run_Inl rd panic_unless_def stop_with_def)
  show "\<exists>e. map_physical_region C addr region_size mut m = Inl e"
    if "alloc_specific C (addr div 4096) frames m = bind u (\<lambda>_. ret 0) m1"
    using that by (simp add: map_physical_region_def Let_def bind_run_Inr[of _ m] rd)
      (auto simp: bind_def ret_def panic_unless_def stop_with_def split: sum.split prod.split)
qed


text \<open>C39: in a build with overflow checks no region at or above 3 GiB can be mapped: the sum of the pointer
  into the heap and the physical address, from which the code then subtracts the start of the frame, does not fit in 64 bits.
  Memory-mapped devices such as the interrupt controllers lie there.\<close>

theorem map_physical_region_high_stops:
  assumes "friendly_contract C ok free" and "x86_64_contract C" and "heap_contract C hok hfree"
    and "pt_inv ok free m (cr3 m)" and "heap_inv hok m"
    and "unat region_size < 2 ^ 63" and "unat addr + 2 ^ 30 \<le> 2 ^ 48"
    and "overflow_checks C" and "0xC0000000 \<le> addr"
  shows "\<exists>e. map_physical_region C addr region_size mut m = Inl e"
proof -
  have fr: "unat region_size + 4096 < 2 ^ 64" using assms(6) by simp
  note R = region_frames[OF fr]
  have frame: "unat (addr div 4096) + 2 ^ 18 \<le> 2 ^ 36" using assms(7) by (simp add: unat_div)
  from assms(1-5) R(3) frame show ?thesis
  proof (cases rule: alloc_specific_cases)
    case (refused m')
    then show ?thesis using region_null(1)[OF R(1)] by blast
  next
    case (oom order ptr no m1 m2)
    then show ?thesis using region_null(2)[OF R(1)] by blast
  next
    case (ok ptr off n m')
    have "2 ^ 64 \<le> unat ptr + unat addr" using ok(8) assms(9) by (simp add: word_le_nat_alt)
    moreover have "ptr \<noteq> 0" using ok(8) by (auto simp: unat_eq_0[symmetric])
    ultimately show ?thesis
      using ok(1) assms(8) by (simp add: map_physical_region_def Let_def bind_run_Inr bind_run_Inl R(1) panic_unless_True add_ck_def stop_with_def)
  qed
qed

section \<open>A sample\<close>

text \<open>A tree for the heap as a list that starts with a mark, which no list of frames does: a block of 8 KiB,
  that is of order 7, at each of the addresses that follow.\<close>

definition heap_list_ok :: "u64 list \<Rightarrow> bool" where
  "heap_list_ok t \<longleftrightarrow> (\<exists>bs. t = 1 # bs \<and> distinct bs \<and> (\<forall>b \<in> set bs. unat b + 8192 \<le> 2 ^ 30 \<and> 8192 dvd unat b))"

definition heap_list_bytes :: "u64 list \<Rightarrow> nat set" where
  "heap_list_bytes t = (\<Union>b \<in> set (tl t). {unat b..<unat b + 8192})"

definition heap_list_allocate :: "u64 list \<Rightarrow> u8 \<Rightarrow> u64 option \<times> u64 list" where
  "heap_list_allocate t order = (if t \<noteq> [] \<and> hd t = 1
     then (if order = 7 \<and> tl t \<noteq> [] then (Some (hd (tl t)), 1 # tl (tl t)) else (None, t))
     else list_allocate t order)"

definition region_crates :: "bool \<Rightarrow> u64 list crates" where
  "region_crates chk = (sample_crates chk)\<lparr>tree_allocate := heap_list_allocate\<rparr>"

definition region_machine :: "u64 list machine" where
  "region_machine = (sample_machine sample_free)\<lparr>heap_tree := Some [1, 0]\<rparr>"

lemma heap_list_frames: "list_ok t \<Longrightarrow> heap_list_allocate t order = list_allocate t order"
  by (cases t) (auto simp: heap_list_allocate_def list_ok_def)

lemma region_friendly: "friendly_contract (region_crates chk) list_ok set"
proof -
  have same: "tree_max_order (region_crates chk) = tree_max_order (sample_crates chk)"
    "tree_deallocate (region_crates chk) = tree_deallocate (sample_crates chk)"
    by (simp_all add: region_crates_def)
  have alloc: "list_ok t \<and> tree_allocate (region_crates chk) t order = r \<longleftrightarrow>
      list_ok t \<and> tree_allocate (sample_crates chk) t order = r" for t order r
    by (auto simp: region_crates_def heap_list_frames)
  show ?thesis using sample_friendly[of chk] unfolding friendly_contract_def same alloc .
qed

lemma region_x86_64: "x86_64_contract (region_crates chk)"
  using sample_x86_64[of chk] by (simp add: x86_64_contract_def region_crates_def)

lemma heap_list_disjoint:
  assumes "distinct (b # bs)" and "\<forall>b \<in> set (b # bs). 8192 dvd unat (b :: u64)" and "c \<in> set bs"
    and "unat b \<le> x" "x < unat b + 8192"
  shows "x < unat c \<or> unat c + 8192 \<le> x"
proof -
  obtain i j where ij: "unat b = 8192 * i" "unat c = 8192 * j" using assms(2,3) by (auto elim!: dvdE)
  have "b \<noteq> c" using assms(1,3) by auto
  then have "unat b \<noteq> unat c" using word_unat_eq_iff by blast
  with ij assms(4,5) show ?thesis by auto
qed

lemma region_heap_contract: "heap_contract (region_crates chk) heap_list_ok heap_list_bytes"
  unfolding heap_contract_def
proof (intro conjI allI impI; (elim conjE)?)
  show "tree_max_order (region_crates chk) HEAP_LEVELS = 24"
    by (simp add: region_crates_def sample_crates_def HEAP_LEVELS_def)
next
  fix t t' :: "u64 list" and order p
  assume t: "heap_list_ok t" and "tree_allocate (region_crates chk) t order = (Some p, t')"
  then obtain bs where o: "order = 7" "t = 1 # p # bs" "t' = 1 # bs"
    by (cases t; cases "tl t") (auto simp: heap_list_ok_def region_crates_def heap_list_allocate_def split: if_splits)
  then have b: "distinct (p # bs)" "\<forall>b \<in> set (p # bs). 8192 dvd unat b" "\<forall>b \<in> set (p # bs). unat b + 8192 \<le> 2 ^ 30"
    using t by (auto simp: heap_list_ok_def)
  show "heap_list_ok t'" using t o by (auto simp: heap_list_ok_def)
  show "unat p + 2 ^ (unat order + 6) \<le> 2 ^ 30" "2 ^ (unat order + 6) dvd unat p" using b o(1) by simp_all
  show "heap_bytes (unat p) (unat order) \<subseteq> heap_list_bytes t" using o by (auto simp: heap_bytes_def heap_list_bytes_def)
  show "heap_list_bytes t' = heap_list_bytes t - heap_bytes (unat p) (unat order)"
    using o heap_list_disjoint[OF b(1,2)] by (fastforce simp: heap_bytes_def heap_list_bytes_def)
next
  fix t t' :: "u64 list" and order
  assume "heap_list_ok t" and "tree_allocate (region_crates chk) t order = (None, t')"
  then have "t' = t" by (auto simp: heap_list_ok_def region_crates_def heap_list_allocate_def split: if_splits)
  with \<open>heap_list_ok t\<close> show "heap_list_ok t'" "heap_list_bytes t' = heap_list_bytes t" by simp_all
qed

lemma region_machine_inv: "pt_inv list_ok set region_machine (cr3 region_machine)" "heap_inv heap_list_ok region_machine"
proof -
  have w: "phys_walk region_machine 0x1000 page = phys_walk (sample_machine sample_free) 0x1000 page" for page
    by (rule phys_walk_cong) (simp add: region_machine_def)
  show "pt_inv list_ok set region_machine (cr3 region_machine)"
    using pt_inv_tree[of list_ok set "sample_machine sample_free" "Some [1, 0]"] sample_inv by (simp add: region_machine_def)
  have "cr3 region_machine = 0x1000" "heap_tree region_machine = Some [1, 0]" by (simp_all add: region_machine_def)
  moreover have "heap_list_ok [1, 0]" by (simp add: heap_list_ok_def)
  ultimately show "heap_inv heap_list_ok region_machine"
    using sample_walk[OF mappableD(4)[OF heap_page_mappable]] by (simp add: heap_inv_def w)
qed


theorem map_physical_region_high_stops_witness:
  "\<exists>e. map_physical_region (region_crates True) 0xFEC00000 16 False region_machine = Inl e"
  by (rule map_physical_region_high_stops[OF region_friendly region_x86_64 region_heap_contract region_machine_inv])
    (simp_all add: region_crates_def)

end
