(* ===== verification/Frame_Rules.thy ===== *)
theory Frame_Rules
  imports Temporary_Page Process
begin

text \<open>
  What operations leave alone.  \<open>preserves obs f\<close> says that a run of \<open>f\<close> that returns does not change
  what \<open>obs\<close> sees of the state.  The rules of the collection \<open>preserves\<close> follow the structure of the code,
  and there is a fact in it for every operation on memory: none of them touches the registers of the address
  space or the part of the kernel outside of memory management.
\<close>

named_theorems preserves

section \<open>Rules for the ways to compose code\<close>

definition preserves :: "('s \<Rightarrow> 'o) \<Rightarrow> ('s, 'a) comp \<Rightarrow> bool" where
  "preserves obs f \<longleftrightarrow> (\<forall>s x s'. f s = Inr (x, s') \<longrightarrow> obs s' = obs s)"

lemma preservesI: "(\<And>s x s'. f s = Inr (x, s') \<Longrightarrow> obs s' = obs s) \<Longrightarrow> preserves obs f"
  by (simp add: preserves_def)

lemma preservesD: "preserves obs f \<Longrightarrow> f s = Inr (x, s') \<Longrightarrow> obs s' = obs s"
  by (simp add: preserves_def)

lemma preserves_pure [preserves]:
  "preserves obs (ret x)" "preserves obs (stop_with e)" "preserves obs (gets g)"
  "preserves obs (panic_unless b msg)" "preserves obs (expect v msg)"
  by (auto simp: preserves_def run_simps panic_unless_def expect_def ret_def stop_with_def split: option.splits)

lemma preserves_modify [preserves]: "(\<And>s. obs (g s) = obs s) \<Longrightarrow> preserves obs (modify g)"
  by (simp add: preserves_def run_simps)

lemma preserves_bind [preserves]:
  assumes "preserves obs f" and "\<And>x. preserves obs (g x)"
  shows "preserves obs (bind f g)"
proof (rule preservesI)
  fix s y t assume "bind f g s = Inr (y, t)"
  then obtain x s' where "f s = Inr (x, s')" "g x s' = Inr (y, t)" by (rule bind_InrE)
  then show "obs t = obs s" using preservesD[OF assms(1)] preservesD[OF assms(2)] by simp
qed

lemma preserves_if [preserves]:
  "(b \<Longrightarrow> preserves obs f) \<Longrightarrow> (\<not> b \<Longrightarrow> preserves obs g) \<Longrightarrow> preserves obs (if b then f else g)"
  by simp

lemma preserves_case [preserves]:
  "preserves obs f \<Longrightarrow> (\<And>x. preserves obs (g x)) \<Longrightarrow> preserves obs (case v of None \<Rightarrow> f | Some x \<Rightarrow> g x)"
  "(\<And>x. preserves obs (h x)) \<Longrightarrow> (\<And>x. preserves obs (g' x)) \<Longrightarrow> preserves obs (case r of Inl x \<Rightarrow> h x | Inr x \<Rightarrow> g' x)"
  "(\<And>x y. preserves obs (k x y)) \<Longrightarrow> preserves obs (case p of (x, y) \<Rightarrow> k x y)"
  by (simp_all split: option.split sum.split prod.split)

lemma preserves_bind_res [preserves]:
  assumes "preserves obs f" and "\<And>x. preserves obs (g x)"
  shows "preserves obs (bind_res f g)"
  unfolding bind_res_def using assms by (intro preserves)

lemma preserves_for_each [preserves]: "(\<And>x. preserves obs (f x)) \<Longrightarrow> preserves obs (for_each xs f)"
  by (induction xs) (auto intro!: preserves)

lemma preserves_for_each_res [preserves]: "(\<And>x. preserves obs (f x)) \<Longrightarrow> preserves obs (for_each_res xs f)"
  by (induction xs) (auto intro!: preserves)

lemma preserves_arith [preserves]:
  "preserves obs (add_ck chk a b)" "preserves obs (sub_ck chk a b)" "preserves obs (mul_ck chk a b)"
  "preserves obs (shl_ck chk a n)"
  unfolding add_ck_def sub_ck_def mul_ck_def shl_ck_def by (intro preserves)+

section \<open>Memory\<close>

text \<open>What the operations on memory do not change: the address space, the write protection, and all that
  is not memory management.\<close>

definition statics :: "('t, 'z) machine_scheme \<Rightarrow> u64 \<times> u64 \<times> bool \<times> 'z" where
  "statics m = (cr3 m, cr3_flags m, cr0_wp m, machine.more m)"

lemma statics_upd [simp]:
  "statics (m\<lparr>pmem := v\<rparr>) = statics m" "statics (m\<lparr>phys_trees := t\<rparr>) = statics m" "statics (m\<lparr>heap_tree := h\<rparr>) = statics m"
  "statics (m\<lparr>tlb_log := l\<rparr>) = statics m" "statics (write_word f i w m) = statics m"
  by (simp_all add: statics_def write_word_def)

lemma preserves_access [preserves]:
  "preserves statics (vread va)" "preserves statics (vwrite va v)"
  "preserves statics (vread_byte va)" "preserves statics (vwrite_byte va b)"
  by (auto simp: preserves_def vread_def vwrite_def vread_byte_def vwrite_byte_def split: option.splits if_splits)

lemma preserves_phys_allocate [preserves]: "preserves statics (phys_allocate C order)"
  by (auto simp: preserves_def phys_allocate_def split: option.splits sum.splits prod.splits)

lemma preserves_phys_deallocate [preserves]: "preserves statics (phys_deallocate C f order)"
  unfolding phys_deallocate_def Let_def by (intro preserves) simp

lemma preserves_flush [preserves]: "preserves statics (tlb_flush C a)" "preserves statics tlb_flush_all"
  unfolding tlb_flush_def tlb_flush_all_def by (intro preserves; simp)+

lemma preserves_slices [preserves]: "preserves statics (read_slice a n)" "preserves statics (write_slice a bs)"
proof -
  show "preserves statics (read_slice a n)" by (induction n arbitrary: a) (auto intro!: preserves)
  show "preserves statics (write_slice a bs)" by (induction bs arbitrary: a) (auto intro!: preserves)
qed

lemma preserves_entries [preserves]:
  "preserves statics (phys_addr C a)" "preserves statics (physical_address C e)" "preserves statics (entry_set pa fl)"
  "preserves statics (read_entry t i)" "preserves statics (write_entry t i e)"
  "preserves statics (start_address chk p)" "preserves statics (page_add chk p n)"
  unfolding phys_addr_def physical_address_def entry_set_def Let_def read_entry_def write_entry_def start_address_def page_add_def
  by (intro preserves)+

lemma preserves_tables [preserves]:
  "preserves statics (table_zero t)" "preserves statics (next_page_table t i)"
  unfolding table_zero_def next_page_table_def next_table_addr_def Let_def by (intro preserves)+

lemma preserves_create [preserves]:
  "preserves statics (create_table C l t i)" "preserves statics (next_table_create C l t i)"
  unfolding create_table_def next_table_create_def by (intro preserves)+

lemma preserves_memset [preserves]: "preserves statics (memset_volatile_64bit s c n)"
  unfolding memset_volatile_64bit_def by (intro preserves)

section \<open>The mapper\<close>

lemma preserves_and_then [preserves]: "(\<And>x. preserves obs (f x)) \<Longrightarrow> preserves obs (and_then v f)"
  unfolding and_then_def by (intro preserves)

lemma preserves_walk [preserves]: "preserves statics (walk_page_table C p)"
  unfolding walk_page_table_def walk_huge_page_def by (intro preserves)

lemma preserves_map_to [preserves]: "preserves statics (flush_page C p invplg)" "preserves statics (map_to C p pa fl invplg)"
  unfolding map_to_def flush_page_def expect_table_def by (intro preserves)+

lemma preserves_map_page [preserves]: "preserves statics (map_page C p fl invplg z)" "preserves statics (numbered_page C no)"
  unfolding map_page_def numbered_page_def by (intro preserves)+

lemma preserves_ranges [preserves]:
  "preserves statics (map_range C p q fl invplg z)" "preserves statics (try_map_user_range C p q fl invplg ign z)"
  "preserves statics (set_flags C p q fl invplg)"
  unfolding map_range_def try_map_user_range_def set_flags_def by (intro preserves)+

lemma preserves_unmap [preserves]: "preserves statics (unmap C p fr invplg)" "preserves statics (unmap_range C p q fr invplg)"
  unfolding unmap_range_def unmap_def by (intro preserves)+

lemma preserves_map_to_expect [preserves]: "preserves statics (map_to_expect msg C p pa fl invplg)"
  unfolding map_to_expect_def by (intro preserves)

section \<open>The heap and temporary pages\<close>

lemma preserves_heap_pages [preserves]:
  "preserves obs (order_of chk n)" "preserves obs (pages_for chk b)" "preserves obs (heap_page chk p i)"
  unfolding order_of_def log2_ceil_def Let_def pages_for_def round_up_divide_def heap_page_def by (intro preserves)+

lemma preserves_heap_tree [preserves]:
  "preserves statics heap_lock" "preserves statics (set_heap_tree t)" "preserves statics (heap_take C o')"
  "preserves statics (heap_give C off o')"
  unfolding heap_take_def heap_give_def heap_lock_def set_heap_tree_def by (intro preserves; simp)+

lemma preserves_heap_alloc [preserves]: "preserves statics (heap_alloc C n)"
  unfolding heap_alloc_def heap_alloc_step_def undo_on_error_def Let_def by (intro preserves)

lemma preserves_heap_dealloc [preserves]: "preserves statics (heap_dealloc C p n)"
  unfolding heap_dealloc_def dealloc_small_def unmap_pages_def Let_def by (intro preserves)

lemma preserves_temporary_page [preserves]:
  "preserves statics (temporary_page_new C)" "preserves statics (temporary_page_map C tp f)"
  "preserves statics (temporary_page_unmap C tp)" "preserves statics (temporary_page_drop C tp)"
  "preserves statics (map_table_frame C tp f)"
  unfolding temporary_page_new_def mapped_frame_def temporary_page_map_def temporary_page_unmap_def temporary_page_drop_def
    map_table_frame_def Let_def by (intro preserves)+

lemma preserves_inactive [preserves]:
  "preserves statics (set_recursive t f)" "preserves statics (inactive_page_map_new C f fl tp)"
  unfolding set_recursive_def inactive_page_map_new_def by (intro preserves)+

lemma preserves_process [preserves]:
  "preserves statics (load_header C data h)" "preserves statics (new_process_page_tables C)"
  unfolding load_header_def new_process_page_tables_def Let_def by (intro preserves)+

end
