(* ===== verification/Spawn_Properties.thy ===== *)
theory Spawn_Properties
  imports Frame_Rules Sample_Kernel
begin

text \<open>
  What \<open>spawn_from_elf\<close> does to the kernel, by the frame rules: it comes back in the address space it was called in,
  and a process is registered only when all went well.
\<close>

section \<open>Coming back to the address space\<close>

lemma switch_run: "switch t m = Inr (\<lparr>p4_frame = cr3 m, p4_flags = cr3_flags m\<rparr>, m\<lparr>cr3 := p4_frame t, cr3_flags := p4_flags t\<rparr>)"
  by (simp add: switch_def run_simps)

text \<open>\<open>with\<close> gives back the table that it was called with, and the old one is active again.\<close>

lemma with_inactive_Inr:
  assumes f: "preserves statics f" and run: "with_inactive t f m = Inr (r, m')"
  shows "statics m' = statics m" and "r = Inr t' \<Longrightarrow> t' = t"
proof -
  let ?m = "m\<lparr>cr3 := p4_frame t, cr3_flags := p4_flags t\<rparr>"
  let ?prev = "\<lambda>m1. m1\<lparr>cr3 := cr3 m, cr3_flags := cr3_flags m\<rparr>"
  from run obtain x m1 where x: "f ?m = Inr (x, m1)"
    and r: "r = (case x of Inl e \<Rightarrow> Inl e | Inr _ \<Rightarrow> Inr \<lparr>p4_frame = cr3 m1, p4_flags = cr3_flags m1\<rparr>)" "m' = ?prev m1"
    by (auto simp: with_inactive_def bind_def switch_run ret_def split: sum.splits)
  have s: "statics m1 = statics ?m" by (rule preservesD[OF f x])
  then show "statics m' = statics m" by (cases m; cases m1) (simp add: r(2) statics_def)
  from s have "\<lparr>p4_frame = cr3 m1, p4_flags = cr3_flags m1\<rparr> = t" by (cases t) (simp add: statics_def)
  then show "t' = t" if "r = Inr t'" using r(1) that by (simp split: sum.splits)
qed

section \<open>\<open>spawn_from_elf\<close>\<close>

lemma counter_less: "(x :: u64) \<noteq> - 1 \<Longrightarrow> x < x + 1"
proof -
  assume "x \<noteq> - 1"
  then have "x + 1 \<noteq> 0" by (simp add: eq_neg_iff_add_eq_0)
  then have "unat (x + 1) \<noteq> 0" by (simp add: unat_eq_0)
  then have "unat (x + 1) = unat x + 1" using unat_bound[of x] by (simp add: unat_word_ariths mod_Suc split: if_splits)
  then show ?thesis by (simp add: word_less_nat_alt)
qed

lemma next_process_id_Inr:
  assumes "next_process_id k = Inr (pid, k')"
  shows "pid = next_pid k" and "k' = k\<lparr>next_pid := next_pid k + 1\<rparr>" and "next_pid k \<noteq> - 1"
  using assms by (auto simp: next_process_id_def run_simps panic_unless_def split: if_splits)

lemma statics_kernel:
  assumes "statics k2 = statics k"
  shows "next_pid k2 = next_pid k" and "processes k2 = processes k"
    and "statics (k2\<lparr>next_pid := n, processes := d\<rparr>\<lparr>processes := processes k, next_pid := next_pid k\<rparr>) = statics k"
  using assms by (cases k; cases k2; simp add: statics_def)+

text \<open>The new process.\<close>

definition fresh_process :: "inactive_page_map \<Rightarrow> u64 \<Rightarrow> process" where
  "fresh_process t ip = \<lparr>page_tables = t, stack_ptr = STACK_TOP, instruction_ptr = ip, io_port_ranges = [], new_process = True\<rparr>"

lemma spawn_cases:
  assumes run: "spawn_from_elf C D elf_parse data k = Inr (r, k')"
  obtains (bad_file) e where "r = Inl e" "k' = k"
    | (bad_segment) e where "r = Inl e" "statics k' = statics k"
    | (ok) elf t ip k2 where "elf_parse data = Inr elf" "elf_error elf = None" "r = Inr (next_pid k)"
      "drop_bit 63 (entry_point elf) \<noteq> 1" "virt_addr_try_new C (entry_point elf) = Some ip" "next_pid k \<noteq> - 1"
      "statics k2 = statics k"
      "k' = k2\<lparr>next_pid := next_pid k + 1, processes := pm_insert D (next_pid k) (fresh_process t ip) (processes k)\<rparr>"
proof (cases "elf_parse data")
  case (Inl e)
  with run show thesis by (intro bad_file) (auto simp: spawn_from_elf_def ret_def)
next
  case (Inr elf)
  show thesis
  proof (cases "elf_error elf")
    case (Some e)
    with run Inr show thesis by (intro bad_file) (auto simp: spawn_from_elf_def ret_def)
  next
    case None
    let ?load = "for_each_res (program_headers elf) (load_header C data)"
    from run Inr None obtain t0 k0 where t0: "new_process_page_tables C k = Inr (t0, k0)"
      and rest: "bind_res (with_inactive t0 ?load) (\<lambda>tables.
             if drop_bit 63 (entry_point elf) = 1 \<or> virt_addr_try_new C (entry_point elf) = None
             then ret (Inl (InvalidEntryPoint (entry_point elf)))
             else
               bind (expect (virt_addr_try_new C (entry_point elf))
                      ''address passed to VirtAddr::new is not canonical'') (\<lambda>ip.
               bind next_process_id (\<lambda>pid.
               bind (modify (\<lambda>k. k\<lparr>processes := pm_insert D pid \<lparr>page_tables = tables, stack_ptr = STACK_TOP,
                      instruction_ptr = ip, io_port_ranges = [], new_process = True\<rparr> (processes k)\<rparr>)) (\<lambda>_.
               ret (Inr pid))))) k0 = Inr (r, k')"
      by (auto simp: spawn_from_elf_def elim!: bind_InrE)
    have s0: "statics k0 = statics k" by (rule preservesD[OF preserves_process(2) t0])
    have pl: "preserves statics ?load" by (intro preserves)
    from rest show thesis
    proof (cases rule: bind_res_InrE)
      case (err e)
      with with_inactive_Inr(1)[OF pl err(1)] s0 show thesis by (intro bad_segment) auto
    next
      case (ok tables k1)
      have s1: "statics k1 = statics k" using with_inactive_Inr(1)[OF pl ok(1)] s0 by simp
      show thesis
      proof (cases "drop_bit 63 (entry_point elf) = 1 \<or> virt_addr_try_new C (entry_point elf) = None")
        case True
        with ok(2) s1 show thesis by (intro bad_segment) (auto simp: ret_def)
      next
        case False
        then obtain ip where ip: "virt_addr_try_new C (entry_point elf) = Some ip" by auto
        with False ok(2) obtain pid k2 where n: "next_process_id k1 = Inr (pid, k2)"
          and fin: "r = Inr pid" "k' = k2\<lparr>processes := pm_insert D pid (fresh_process tables ip) (processes k2)\<rparr>"
          by (auto simp: run_simps fresh_process_def elim!: bind_InrE)
        note N = next_process_id_Inr[OF n] and K = statics_kernel(1,2)[OF s1]
        show thesis
          using False Inr None ip N K fin s1 by (intro that(3)[of elf ip k1 tables]) auto
      qed
    qed
  qed
qed

text \<open>C8: the effect of \<open>spawn_from_elf\<close>.  Whenever it returns, the address space of the caller is active again and
  nothing but memory management and, on success, the table of processes and the counter of
  identifiers has changed.  After an error no process is registered.  On success the file has passed all
  checks, the identifier is the one that was next and has not been given before, and under it, and
  under no other identifier, there is a new process that will start at the entry point of the file, which lies in the
  lower half.\<close>

theorem spawn_from_elf_effect:
  assumes "process_map_contract D" and "spawn_from_elf C D elf_parse data k = Inr (r, k')"
  shows "statics (k'\<lparr>processes := processes k, next_pid := next_pid k\<rparr>) = statics k \<and>
    (case r of
       Inl e \<Rightarrow> processes k' = processes k \<and> next_pid k' = next_pid k
     | Inr pid \<Rightarrow> pid = next_pid k \<and> next_pid k < next_pid k' \<and>
         (\<exists>elf t ip. elf_parse data = Inr elf \<and> elf_error elf = None \<and> drop_bit 63 (entry_point elf) \<noteq> 1 \<and>
            virt_addr_try_new C (entry_point elf) = Some ip \<and>
            (\<forall>q. pm_get D q (processes k') = (if q = pid then Some (fresh_process t ip) else pm_get D q (processes k)))))"
  using assms(2)
proof (cases rule: spawn_cases)
  case (bad_file e)
  then show ?thesis by simp
next
  case (bad_segment e)
  note K = statics_kernel(1,2)[OF bad_segment(2)]
  have "k'\<lparr>processes := processes k, next_pid := next_pid k\<rparr> = k'" using K by (cases k'; cases k) simp
  then have "statics (k'\<lparr>processes := processes k, next_pid := next_pid k\<rparr>) = statics k" using bad_segment(2) by (rule ssubst)
  with bad_segment(1) K show ?thesis by simp
next
  case (ok elf t ip k2)
  have get: "pm_get D q (pm_insert D p x d) = (if q = p then Some x else pm_get D q d)" for p q x d
    using assms(1) unfolding process_map_contract_def by blast
  have "next_pid k < next_pid k + 1" by (rule counter_less[OF ok(6)])
  with ok statics_kernel(3)[OF ok(7)] show ?thesis by (auto simp: get)
qed

text \<open>A file that asks for a library, read by a stand-in for the parser.\<close>

definition sample_elf :: "u8 list \<Rightarrow> string + elf" where
  "sample_elf data = Inr \<lparr>is_lib = False, entry_point = 0x400000, is_64 = True, libraries = [''libc''], program_headers = []\<rparr>"

lemma sample_elf_rejected:
  "spawn_from_elf (sample_crates True) map_processes sample_elf [] sample_kernel = Inr (Inl NotStaticallyLinked, sample_kernel)"
  by (simp add: spawn_from_elf_def sample_elf_def elf_error_def ret_def)

theorem spawn_from_elf_effect_witness:
  "spawn_from_elf (sample_crates True) map_processes sample_elf [] sample_kernel = Inr (Inl NotStaticallyLinked, sample_kernel) \<and>
    statics (sample_kernel\<lparr>processes := processes sample_kernel, next_pid := next_pid sample_kernel\<rparr>) = statics sample_kernel"
  using spawn_from_elf_effect[OF map_processes_contract sample_elf_rejected] sample_elf_rejected by blast

end
