(* ===== verification/Stack_Setup.thy ===== *)
theory Stack_Setup
  imports Sample_Kernel
begin

text \<open>
  What \<open>setup_ist\<close> of \<open>kernel/src/memory.rs\<close> makes: eight stacks of four pages, seven for the interrupt
  stack table and one for system calls, each above a page that is not mapped, so that an overflow of a
  stack is a page fault and does not reach the stack below.
\<close>

section \<open>The mapping loop\<close>

text \<open>A loop that skips some of its items and panics on an error, as a loop that ends with the error.\<close>

lemma for_each_skip:
  assumes "\<And>i s. i \<in> set xs \<Longrightarrow> g i s = (if skip i then ret () else
    bind (f (h i)) (\<lambda>r. case r of Inl _ \<Rightarrow> stop_with e | Inr _ \<Rightarrow> ret ())) s"
  shows "for_each xs g s = bind (for_each_res (map h (filter (\<lambda>i. \<not> skip i) xs)) f)
    (\<lambda>r. case r of Inl _ \<Rightarrow> stop_with e | Inr _ \<Rightarrow> ret ()) s"
  using assms
proof (induction xs arbitrary: s)
  case (Cons x xs)
  have "for_each xs g t = bind (for_each_res (map h (filter (\<lambda>i. \<not> skip i) xs)) f)
    (\<lambda>r. case r of Inl _ \<Rightarrow> stop_with e | Inr _ \<Rightarrow> ret ()) t" for t
    using Cons.prems by (intro Cons.IH) auto
  then show ?case using Cons.prems[of x s]
    by (auto simp: bind_def bind_res_def ret_def stop_with_def split: sum.splits)
qed (simp add: run_simps)

definition ist_flags :: u64 where
  "ist_flags = WRITABLE OR NO_EXECUTE OR GLOBAL"

lemma ist_flags_ok: "flags_ok ist_flags" "pte_writable ist_flags"
  by (simp_all add: ist_flags_def flags_ok_def pte_writable_def WRITABLE_def NO_EXECUTE_def GLOBAL_def bit_or_iff
      bit_numeral_word_iff)

text \<open>The pages of the stacks, in the last 2 GiB, where the kernel lies.\<close>

definition stack_region :: "u64 \<Rightarrow> bool" where
  "stack_region b \<longleftrightarrow> 0xFFFFFFFF80000 \<le> unat b \<and> unat b + 32 < 2 ^ 52"

lemma stack_region_page:
  assumes "stack_region b" and "i \<le> 32"
  shows "unat (b + of_nat i) = unat b + i" and "mappable (nth_page (b + of_nat i))"
    and "unat ((b + of_nat i) * 4096) = (unat b + i) * 4096"
proof -
  have b: "0xFFFFFFFF80000 \<le> unat b" "unat b + 32 < 2 ^ 52" using assms(1) by (simp_all add: stack_region_def)
  have i: "unat (of_nat i :: u64) = i" using assms(2) by (simp add: unat_of_nat take_bit_nat_eq_self)
  show u: "unat (b + of_nat i) = unat b + i" using b assms(2) i by (simp add: unat_word_ariths)
  then show "mappable (nth_page (b + of_nat i))" using b assms(2) by (intro kernel_page_mappable) simp_all
  have mul: "unat (w * 4096) = unat w * 4096" if "unat w < 2 ^ 52" for w :: u64
    using that by (simp add: unat_word_ariths)
  have "unat (b + of_nat i) < 2 ^ 52" unfolding u using b assms(2) by simp
  from mul[OF this] show "unat ((b + of_nat i) * 4096) = (unat b + i) * 4096" unfolding u .
qed

lemma map_stack_page_run:
  assumes b: "stack_region b" and i: "i < 32"
  shows "map_stack_page C (nth_page b) (of_nat i) m = (if i mod 4 = 0 then ret () else
    bind (map_step C ist_flags Invalidate Zero (b + of_nat i)) (\<lambda>r. case r of
      Inl _ \<Rightarrow> stop_with (Panic ''Out of physical memory'') | Inr _ \<Rightarrow> ret ())) m"
proof -
  note R = stack_region_page[OF b, of i] and R0 = stack_region_page[OF b, of 0]
  define a :: u64 where "a = b * 4096"
  define o' :: u64 where "o' = of_nat i * 4096"
  define p where "p = b + of_nat i"
  have u: "unat (of_nat i :: u64) = i" using i by (simp add: unat_of_nat take_bit_nat_eq_self)
  then have z: "(of_nat i :: u64) mod 4 = 0 \<longleftrightarrow> i mod 4 = 0" by (simp add: word_unat_eq_iff unat_mod)
  have le: "unat b + 32 < 2 ^ 52" using b by (simp add: stack_region_def)
  have off: "mul_ck chk (of_nat i) 4096 m = Inr (o', m)" for chk using i u by (simp add: o'_def run_simps)
  have "unat o' = i * 4096" using i u by (simp add: o'_def unat_word_ariths)
  moreover have "unat a = unat b * 4096" using R0(3) by (simp add: a_def)
  ultimately have ad: "add_ck chk a o' m = Inr (a + o', m)" for chk using le i by (simp add: add_ck_run)
  have "p * 4096 div 4096 = p"
    unfolding p_def using R(1,3) i by (simp only: word_unat_eq_iff unat_div) simp
  moreover have "a + o' = p * 4096" by (simp add: a_def o'_def p_def algebra_simps)
  ultimately have ca: "containing_address (a + o') = nth_page p" by (simp add: containing_address_def nth_page_def)
  have st: "start_address chk (nth_page b) m = Inr (Some a, m)" for chk
    using start_address_run[OF mappableD(1,2)[OF R0(2)]] by (simp add: nth_page_def a_def)
  have "numbered_page C p m = Inr (nth_page p, m)" using numbered_page_run[OF R(2)] i by (simp add: p_def)
  then show ?thesis unfolding p_def[symmetric]
    by (simp add: map_stack_page_def Let_def z IST_STACK_SIZE_PAGES_def bind_run_Inr bind_expect_Some st off ad ca
        map_step_def ist_flags_def bind_assoc)
qed

section \<open>The tops of the stacks\<close>

definition stack_top :: "tss \<Rightarrow> nat \<Rightarrow> u64" where
  "stack_top t i = (interrupt_stack_table (tss_segment t) @ privilege_stack_table (tss_segment t)) ! i"

definition ist_allocator :: "u64 \<Rightarrow> nat \<Rightarrow> stack_allocator" where
  "ist_allocator b c = \<lparr>sa_base = nth_page b, sa_capacity = 8, stack_size_pages = 4, sa_current = of_nat c\<rparr>"

lemma alloc_stack_top_run:
  assumes x: "x86_64_contract C" and b: "stack_region b" and c: "c < 8"
  shows "alloc_stack_top C (ist_allocator b c) = Inr ((b + of_nat (4 * c + 4)) * 4096, ist_allocator b (Suc c))"
proof -
  note R = stack_region_page[OF b, of "4 * c + 4"]
  define n where "n = unat b * 4096 + c * 16384"
  define top where "top = (b + of_nat (4 * c + 4)) * 4096"
  have le: "unat b + 32 < 2 ^ 52" using b by (simp add: stack_region_def)
  have fit: "stacks_fit (ist_allocator b c)" using le by (simp add: stacks_fit_def ist_allocator_def nth_page_def)
  have u: "unat (of_nat c :: u64) = c" using c by (simp add: unat_of_nat take_bit_nat_eq_self)
  have lt: "of_nat c < (8 :: u64)" using c u by (simp add: word_less_nat_alt)
  have "stack_addr (ist_allocator b c) c = n" by (simp add: ist_allocator_def stack_addr_def nth_page_def n_def)
  then have al: "stack_alloc chk (ist_allocator b c) = Inr (Some (of_nat n), ist_allocator b (Suc c))" for chk
    using stack_alloc_run[OF fit] lt by (simp add: u ist_allocator_def add.commute)
  have n: "n + 16384 < 2 ^ 64" using le c by (simp add: n_def)
  then have w: "unat (of_nat n :: u64) = n" by (simp add: unat_of_nat take_bit_nat_eq_self)
  have "unat (of_nat n + 16384 :: u64) = n + 16384" using n by (simp add: unat_word_ariths w)
  moreover have "unat top = n + 16384" unfolding top_def using R(3) c by (simp add: n_def)
  ultimately have "of_nat n + 16384 = top" by (simp only: word_unat_eq_iff)
  then have ad: "add_ck chk (of_nat n) 16384 s = Inr (top, s)" for chk and s :: stack_allocator
    using n by (simp add: add_ck_run w)
  have "canonical top" unfolding top_def using mappableD(3)[OF R(2)] c by (simp add: nth_page_def)
  then have v: "virt_addr_try_new C top = Some top" using x unfolding x86_64_contract_def by blast
  have "mul_ck chk IST_STACK_SIZE_PAGES 4096 s = Inr (16384, s)" for chk and s :: stack_allocator
    by (simp add: IST_STACK_SIZE_PAGES_def run_simps)
  then show ?thesis unfolding top_def[symmetric]
    by (simp add: alloc_stack_top_def Let_def bind_run_Inr bind_expect_Some al ad v expect_run)
qed

lemma stack_tops_run:
  assumes "x86_64_contract C" and "stack_region b" and "c + n \<le> 8"
  shows "stack_tops C n (ist_allocator b c) =
    Inr (map (\<lambda>k. (b + of_nat (4 * k + 4)) * 4096) [c..<c + n], ist_allocator b (c + n))"
  using assms(3)
proof (induction n arbitrary: c)
  case (Suc n)
  then have "stack_tops C n (ist_allocator b (Suc c)) =
    Inr (map (\<lambda>k. (b + of_nat (4 * k + 4)) * 4096) [Suc c..<Suc c + n], ist_allocator b (Suc c + n))" by simp
  with Suc.prems alloc_stack_top_run[OF assms(1,2), of c] show ?case
    by (simp add: bind_run_Inr ret_run upt_conv_Cons del: upt_Suc distrib_right_numeral)
qed (simp add: ret_run)

lemma new_tss_tops:
  assumes "x86_64_contract C" and "stack_region b"
  obtains t where "new_tss C size_of_segment (ist_allocator b 0) = Inr (t, ist_allocator b 8)"
    "\<forall>i < 8. stack_top t i = (b + of_nat (4 * i + 4)) * 4096"
proof -
  let ?ist = "map (\<lambda>k. (b + of_nat (4 * k + 4)) * 4096) [0..<7]"
  let ?t = "tss_new size_of_segment \<lparr>privilege_stack_table = [(b + of_nat 32) * 4096, 0, 0], interrupt_stack_table = ?ist,
    iomap_base = 0\<rparr>"
  have "new_tss C size_of_segment (ist_allocator b 0) = Inr (?t, ist_allocator b 8)"
    using stack_tops_run[OF assms, of 0 7] alloc_stack_top_run[OF assms, of 7]
    by (simp add: new_tss_def bind_run_Inr ret_run)
  moreover have "stack_top ?t i = (b + of_nat (4 * i + 4)) * 4096" if "i < 8" for i
    using that by (cases "i = 7") (simp_all add: stack_top_def tss_new_def nth_append)
  ultimately show thesis using that by blast
qed

section \<open>\<open>setup_ist\<close>\<close>

text \<open>The pages that are mapped: all but the first of each stack.\<close>

definition stack_numbers :: "u64 \<Rightarrow> u64 list" where
  "stack_numbers b = map (\<lambda>i. b + of_nat i) (filter (\<lambda>i. i mod 4 \<noteq> 0) [0..<32])"

lemma stack_numbers_ok:
  assumes "stack_region b"
  shows "distinct (stack_numbers b)" and "\<forall>no \<in> set (stack_numbers b). mappable (nth_page no)"
    and "i < 32 \<Longrightarrow> b + of_nat i \<in> set (stack_numbers b) \<longleftrightarrow> i mod 4 \<noteq> 0"
proof -
  have u: "unat (of_nat i :: u64) = i" if "i < 32" for i using that by (simp add: unat_of_nat take_bit_nat_eq_self)
  have inj: "i = j" if "(of_nat i :: u64) = of_nat j" "i < 32" "j < 32" for i j
    using arg_cong[OF that(1), of unat] u that(2,3) by simp
  show "distinct (stack_numbers b)"
    unfolding stack_numbers_def distinct_map by (auto intro!: inj_onI dest: inj)
  show "\<forall>no \<in> set (stack_numbers b). mappable (nth_page no)"
    using stack_region_page(2)[OF assms] by (auto simp: stack_numbers_def)
  show "b + of_nat i \<in> set (stack_numbers b) \<longleftrightarrow> i mod 4 \<noteq> 0" if "i < 32"
    using that by (auto simp: stack_numbers_def dest: inj)
qed

lemma for_each_map: "for_each (map h xs) f = for_each xs (\<lambda>x. f (h x))"
  by (induction xs) simp_all

lemma stack_loop_run:
  assumes "stack_region b"
  shows "for_each (range_excl 0 32) (map_stack_page C (nth_page b)) m =
    bind (for_each_res (stack_numbers b) (map_step C ist_flags Invalidate Zero)) (\<lambda>r. case r of
      Inl _ \<Rightarrow> stop_with (Panic ''Out of physical memory'') | Inr _ \<Rightarrow> ret ()) m"
proof -
  have "for_each (range_excl 0 32) (map_stack_page C (nth_page b)) m =
      for_each [0..<32] (\<lambda>i. map_stack_page C (nth_page b) (of_nat i)) m"
    by (simp only: range_excl_def for_each_map) simp
  also have "\<dots> = bind (for_each_res (map (\<lambda>i. b + of_nat i) (filter (\<lambda>i. \<not> i mod 4 = 0) [0..<32]))
      (map_step C ist_flags Invalidate Zero)) (\<lambda>r. case r of
      Inl _ \<Rightarrow> stop_with (Panic ''Out of physical memory'') | Inr _ \<Rightarrow> ret ()) m"
    by (rule for_each_skip) (rule map_stack_page_run[OF assms], simp)
  finally show ?thesis by (simp only: stack_numbers_def)
qed

lemma setup_ist_run:
  assumes b: "stack_region b"
  shows "setup_ist C size_of_segment (nth_page b) m =
    bind (for_each_res (stack_numbers b) (map_step C ist_flags Invalidate Zero)) (\<lambda>r. case r of
      Inl _ \<Rightarrow> stop_with (Panic ''Out of physical memory'')
    | Inr _ \<Rightarrow> bind (gets tss_cell) (\<lambda>once. if once \<noteq> None then ret () else
        (\<lambda>m. case new_tss C size_of_segment (ist_allocator b 0) of
          Inl e \<Rightarrow> Inl e
        | Inr (t, _) \<Rightarrow> Inr ((), m\<lparr>tss_cell := Some t\<rparr>)))) m"
proof -
  have "start_address chk (nth_page b) m = Inr (Some (b * 4096), m)" for chk
    using start_address_run[OF mappableD(1,2)[OF stack_region_page(2)[OF b, of 0]]] by (simp add: nth_page_def)
  then have st: "stack_allocator_new chk (nth_page b) 8 IST_STACK_SIZE_PAGES m = Inr (ist_allocator b 0, m)" for chk
    by (simp add: stack_allocator_new_def bind_run_Inr bind_expect_Some ret_run ist_allocator_def IST_STACK_SIZE_PAGES_def)
  have mu: "mul_ck chk IST_STACK_SIZE_PAGES 8 m = Inr (32, m)" for chk
    by (simp add: IST_STACK_SIZE_PAGES_def run_simps)
  show ?thesis
    unfolding setup_ist_def
    by (simp add: bind_run_Inr st mu) (auto simp: bind_def stack_loop_run[OF b] stop_with_def ret_def split: sum.splits)
qed

text \<open>C16: \<open>setup_ist\<close> on a part of the address space that is not mapped.  Unless there is not enough memory, which is a
  panic, it leaves eight stacks of which the lowest page is not mapped and the three others are, each to a frame that
  was free, writable and not executable; the segment that is loaded at interrupts and system calls points to
  the ends of these stacks, and no other page changes.\<close>

theorem setup_ist_guarded:
  assumes "friendly_contract C ok free" and "x86_64_contract C" and "pt_inv ok free m (cr3 m)" and "stack_region b"
    and "\<forall>i < 32. phys_walk m (cr3 m) (nth_page (b + of_nat i)) = None" and "tss_cell m = None"
  shows "setup_ist C size_of_segment (nth_page b) m = Inl (Panic ''Out of physical memory'') \<or>
    (\<exists>m' t. setup_ist C size_of_segment (nth_page b) m = Inr ((), m') \<and> pt_inv ok free m' (cr3 m) \<and>
       tss_cell m' = Some t \<and>
       (\<forall>i < 8. stack_top t i = (b + of_nat (4 * i + 4)) * 4096 \<and>
          phys_walk m' (cr3 m) (nth_page (b + of_nat (4 * i))) = None \<and>
          (\<forall>j \<in> {1, 2, 3}. mapped_fresh free ist_flags m m' (b + of_nat (4 * i + j)))) \<and>
       unchanged_outside m m' (set (stack_numbers b)))"
proof -
  note N = stack_numbers_ok[OF assms(4)]
  have "no \<in> small_pages m" if "no \<in> set (stack_numbers b)" for no
    using that assms(5) by (auto simp: stack_numbers_def small_pages_def)
  then have "\<forall>no \<in> set (stack_numbers b). mappable (nth_page no) \<and> no \<in> small_pages m" using N(2) by blast
  from map_steps_total[OF assms(1-3) ist_flags_ok(1) _ this N(1), of Zero Invalidate] obtain res m1 ds rs where
    loop: "for_each_res (stack_numbers b) (map_step C ist_flags Invalidate Zero) m = Inr (res, m1)"
    and inv: "pt_inv ok free m1 (cr3 m)" and k: "keeps free (cr3 m) m m1"
    and ds: "stack_numbers b = ds @ rs" "res = Inr () \<longrightarrow> rs = []"
    and dn: "\<forall>no \<in> set ds. mapped_fresh free ist_flags m m1 no" and out: "unchanged_outside m m1 (set ds)"
    using ist_flags_ok(2) by blast
  note run = setup_ist_run[OF assms(4), of C size_of_segment m]
  show ?thesis
  proof (cases res)
    case (Inl e)
    then show ?thesis using run loop by (simp add: bind_run_Inr stop_with_def)
  next
    case (Inr u)
    then have d: "ds = stack_numbers b" using ds by simp
    obtain t where t: "new_tss C size_of_segment (ist_allocator b 0) = Inr (t, ist_allocator b 8)"
      "\<forall>i < 8. stack_top t i = (b + of_nat (4 * i + 4)) * 4096" using assms(2,4) by (rule new_tss_tops)
    have "machine.more m1 = machine.more m" using keepsD(1)[OF k] by (simp add: same_statics_def)
    then have "tss_cell m1 = None" using assms(6) by (cases m, cases m1) simp
    let ?m = "m1\<lparr>tss_cell := Some t\<rparr>"
    have r: "setup_ist C size_of_segment (nth_page b) m = Inr ((), ?m)"
      using run Inr \<open>tss_cell m1 = None\<close> t(1) loop by (simp add: bind_run_Inr gets_run)
    have w: "phys_walk ?m q page = phys_walk m1 q page" for q page by (rule phys_walk_cong) simp
    have "pt_inv ok free ?m (cr3 m)"
      by (rule pt_inv_cong[OF inv]) (use pt_invD(2)[OF inv] in \<open>simp_all add: phys_ok_def phys_free_def\<close>)
    moreover have "phys_walk ?m (cr3 m) (nth_page (b + of_nat (4 * i))) = None" if "i < 8" for i
      using out assms(5)[rule_format, of "4 * i"] N(3)[of "4 * i"] stack_region_page(2)[OF assms(4), of "4 * i"] that
      by (simp add: unchanged_outside_def w d)
    moreover have "mapped_fresh free ist_flags m ?m (b + of_nat (4 * i + j))" if "i < 8" "j \<in> {1, 2, 3}" for i j
    proof -
      have "(4 * i + j) mod 4 \<noteq> 0" using that(2) by auto
      then have "b + of_nat (4 * i + j) \<in> set ds" unfolding d using N(3)[of "4 * i + j"] that by auto
      with dn show ?thesis by (auto simp: mapped_fresh_def w)
    qed
    moreover have "unchanged_outside m ?m (set (stack_numbers b))" using out by (simp add: unchanged_outside_def w d)
    ultimately show ?thesis using r t(2) by (intro disjI2 exI[of _ ?m] exI[of _ t]) simp
  qed
qed

text \<open>A machine with 40 free frames and nothing mapped.\<close>

definition ist_frames :: "u64 list" where
  "ist_frames = map (\<lambda>i. of_nat i * 0x1000) [2..<42]"

definition ist_state :: "u64 list mem_state" where
  "ist_state = machine.extend (sample_machine ist_frames) \<lparr>tss_cell = None\<rparr>"

lemma ist_state_inv:
  "pt_inv list_ok set ist_state 0x1000" "cr3 ist_state = 0x1000" "tss_cell ist_state = None"
  "p4_index page \<noteq> 510 \<Longrightarrow> phys_walk ist_state 0x1000 page = None"
proof -
  have s: "pmem ist_state = pmem (sample_machine ist_frames)" "cr3 ist_state = cr3 (sample_machine ist_frames)"
    "phys_trees ist_state = phys_trees (sample_machine ist_frames)" "tss_cell ist_state = None"
    by (simp_all add: ist_state_def machine.defs)
  then show "cr3 ist_state = 0x1000" "tss_cell ist_state = None" by simp_all
  have "list_ok ist_frames" "0x1000 \<notin> set ist_frames" by (simp_all add: ist_frames_def list_ok_def upt_rec)
  then show "pt_inv list_ok set ist_state 0x1000" by (intro pt_inv_transfer(1)[OF sample_pt_inv s(1-3)])
  show "p4_index page \<noteq> 510 \<Longrightarrow> phys_walk ist_state 0x1000 page = None"
    using sample_walk[of page ist_frames] phys_table_transfer(4)[OF s(1)] by simp
qed

theorem setup_ist_guarded_witness:
  "setup_ist (sample_crates True) 104 (nth_page 0xFFFFFFFF80200) ist_state = Inl (Panic ''Out of physical memory'') \<or>
    (\<exists>m' t. setup_ist (sample_crates True) 104 (nth_page 0xFFFFFFFF80200) ist_state = Inr ((), m') \<and>
       tss_cell m' = Some t \<and> stack_top t 0 = 0xFFFFFFFF80204000 \<and>
       phys_walk m' 0x1000 (nth_page 0xFFFFFFFF80200) = None \<and>
       mapped_fresh set ist_flags ist_state m' 0xFFFFFFFF80203)"
proof -
  let ?b = "0xFFFFFFFF80200 :: u64"
  have b: "stack_region ?b" by (simp add: stack_region_def)
  have none: "\<forall>i < 32. phys_walk ist_state (cr3 ist_state) (nth_page (?b + of_nat i)) = None"
    using ist_state_inv(2,4) mappableD(4)[OF stack_region_page(2)[OF b]] by simp
  have "pt_inv list_ok set ist_state (cr3 ist_state)" using ist_state_inv(1,2) by simp
  from setup_ist_guarded[OF sample_friendly sample_x86_64 this b none ist_state_inv(3), of True 104] show ?thesis
    by (elim disjE exE conjE) (simp, intro disjI2, force simp: ist_state_inv(2) dest!: spec[of _ "0 :: nat"])
qed

end
