(* ===== verification/Spec2Isabelle.thy ===== *)
theory Spec2Isabelle
  imports Mapper_Properties Kmain Syscall_Map Usermode Region_Properties Spawn_Properties Stack_Setup
begin

text \<open>
  \<^bold>\<open>Wolffia\<close> is a nanokernel for x86-64 written in Rust, with a library and a first program for user mode.
  This development models the kernel (\<open>kernel/src\<close>) and the user side (\<open>userspace\<close>) function by
  function and proves what their parts promise, down to the tables the memory management unit walks.

  \<^bold>\<open>The program and how its parts interact.\<close>  \<open>kmain\<close> (\<open>lib.rs\<close>) initialises the parts in order.
  \<open>init_memory\<close> (\<open>memory.rs\<close>) takes the memory map of the boot loader, puts a \<open>BootstrapHeap\<close> behind the kernel
  whose boxes hold the buddy trees of the \<open>PhysicalAllocator\<close>, makes the kernel \<open>Heap\<close>, remaps the kernel with
  the permissions of its sections and sets up the stacks of the task state segment.  The
  \<open>Mapper\<close> edits page tables through a recursive entry and takes frames for new tables from the
  allocator; the heap, the stacks, processes and the system call \<open>Map\<close> all get their pages from it.
  Interrupts go through the descriptor table and the two 8259 controllers to listeners, one of which is
  the clock.  \<open>spawn_from_elf\<close> (\<open>process.rs\<close>) builds an address space, \<open>run_by_pid\<close> enters it, and the process comes back
  by \<open>syscall\<close> to \<open>syscall_callback\<close>, which checks what it is given (\<open>memory/buffer.rs\<close>) before it touches
  the screen or the page tables.

  \<^bold>\<open>How the model is built.\<close>  A computation is a function from a state to a stop or a result with the new
  state (\<open>comp\<close> of \<open>Prelude\<close>).  A stop is a panic with its message, a page fault, an
  index out of bounds, an arithmetic overflow, a lock that is never released or the final halt; \<open>Result\<close> is a sum and
  \<open>?\<close> is \<open>bind_res\<close>.  Integers are words of their width; \<open>+\<close>, \<open>-\<close>, \<open>*\<close> and \<open><<\<close> are \<open>add_ck\<close>, \<open>sub_ck\<close>, \<open>mul_ck\<close> and
  \<open>shl_ck\<close>, which stop on overflow in a build with overflow checks and wrap in one without.  The statics of the
  kernel and the processor are records that extend each other: \<open>machine\<close> (memory, page
  table registers, allocators), \<open>mem_state\<close> (with the task state segment), \<open>kernel\<close> (with
  terminal, devices, processes, registers).  Reads and writes of page tables, of heap
  memory and of stacks go through \<open>mmu_translate\<close>, the walk that the hardware does.

  \<^bold>\<open>Code outside of the repository\<close> is an argument of the definitions that use it, with a contract that says what
  its documentation promises: the trees of \<open>friendly\<close> (\<open>friendly_contract\<close>, \<open>heap_contract\<close>), addresses and registers of
  \<open>x86_64\<close> (\<open>x86_64_contract\<close>, \<open>gdt_contract\<close>, \<open>star_contract\<close>), the bit operations of \<open>bit_field\<close> and \<open>atomic_bitfield\<close>
  (\<open>bits_contract\<close>), the map of \<open>dashmap\<close> (\<open>process_map_contract\<close>); the parser \<open>goblin\<close>, the tags of
  \<open>multiboot2\<close>, the search of \<open>acpi\<close> and the serial driver have no contract.  \<open>Sample_Crates\<close>,
  \<open>Sample_Machines\<close> and \<open>Sample_Kernel\<close> give concrete functions and states that satisfy the contracts and
  invariants, and every theorem with hypotheses is applied to them.

  \<^bold>\<open>Theories and sources\<close> (under \<open>kernel/src\<close> if nothing else is said).
    \<^item> \<open>Prelude\<close>: computations, loops, checked arithmetic, \<open>run_simps\<close>, the locale \<open>bitmap\<close>.
    \<^item> \<open>Bootstrap_Heap\<close>: \<open>memory/bootstrap_heap.rs\<close>, with its step relation, invariant and abstract allocator.
    \<^item> \<open>Machine\<close>, \<open>Byte_Access\<close>: the hardware: memory, MMU, faults, flushes, single bytes.  \<open>Util\<close>: \<open>util.rs\<close>.
    \<^item> \<open>Physical_Allocator\<close>: \<open>memory/physical_allocator.rs\<close> and the locale \<open>frame_allocator\<close>, interpreted on it; its
      properties are in \<open>Frame_Allocation\<close>.  \<open>Memory_Map\<close>: the memory map of \<open>memory.rs\<close>.
    \<^item> \<open>Paging\<close>: \<open>memory/paging.rs\<close>.  \<open>Page_Map\<close>, \<open>Temporary_Page\<close>: \<open>memory/paging/page_map.rs\<close>.  \<open>Remap\<close>:
      \<open>memory/paging/remap.rs\<close>.
    \<^item> \<open>Recursive_Mapping\<close>, \<open>Page_Walk\<close>, \<open>Page_Tables\<close>, \<open>Page_Mapping\<close>, \<open>Page_Ranges\<close>: the proofs about the mapper, in this order:
      an access through the recursive entry reaches the table; \<open>walk_page_table\<close> is the walk over
      physical memory, which is the walk of the MMU; the invariant \<open>pt_inv\<close> and what creating a table does to it; one page; loops over pages,
      by the locale \<open>page_updates\<close>, which is interpreted on the loops of \<open>map_range\<close>, \<open>try_map_user_range\<close>, the heap's \<open>alloc\<close>
      and \<open>alloc_specific\<close>.  \<open>Cleared_Pages\<close>: pages that a loop has cleared stay clear and share no
      frame.  \<open>Mapper_Properties\<close> has the properties.
    \<^item> \<open>Kernel_Heap\<close>: \<open>memory/heap.rs\<close>, properties in \<open>Heap_Properties\<close>.  \<open>Physical_Mapping\<close>:
      \<open>memory/physical_mapping.rs\<close> and \<open>acpi_handler.rs\<close>, properties in \<open>Region_Properties\<close>.
    \<^item> \<open>Stack_Allocator\<close>: \<open>memory/stack_allocator.rs\<close>.  \<open>Memory_Setup\<close>: the rest of \<open>memory.rs\<close>; \<open>Stack_Setup\<close> has the property of the stacks.
    \<^item> \<open>Vga\<close>: \<open>vga.rs\<close>.  \<open>Ports\<close>: the ports and the two 8259 chips.  \<open>Pic\<close>: \<open>interrupts/pic.rs\<close>.  \<open>Interrupts\<close>:
      \<open>interrupts.rs\<close> and \<open>interrupts/exceptions.rs\<close>.  \<open>Pit\<close>: \<open>pit.rs\<close>.  \<open>Tss\<close>: \<open>tss.rs\<close>.  \<open>Gdt\<close>: \<open>gdt.rs\<close>.
    \<^item> \<open>Kernel_State\<close>: the whole state.  \<open>Logging\<close>: \<open>log.rs\<close> and \<open>lang.rs\<close>.  \<open>Utf8\<close>: the encoding of \<open>str\<close>.  \<open>Buffer\<close>:
      \<open>memory/buffer.rs\<close>.  \<open>Syscall\<close>: \<open>syscall.rs\<close>.  \<open>Process\<close>: \<open>process.rs\<close>.  \<open>Kmain\<close>: \<open>lib.rs\<close>.
    \<^item> \<open>Libwolffia\<close>: \<open>userspace/libwolffia\<close>, what its attribute macro makes, and \<open>userspace/init\<close>.
    \<^item> \<open>Stack_Access\<close>, \<open>Syscall_Properties\<close>, \<open>Syscall_Map\<close>, \<open>Usermode\<close>, \<open>Frame_Rules\<close>, \<open>Spawn_Properties\<close>: the proofs about system
      calls and processes, which span most of the components.

  \<^bold>\<open>What is shown.\<close>
    \<^item> Frames: whatever the other cores hold, \<open>allocate\<close> returns, what it returns was free, and it is not handed out again until it
      is given back; it refuses only when every tree does.  The boxes of the bootstrap heap do not overlap.
    \<^item> Address spaces: \<open>map_to\<close>, \<open>map\<close>, \<open>map_range\<close>, \<open>try_map_user_range\<close> and \<open>unmap\<close> return, change the translation of the pages
      they are given and of no others, keep \<open>pt_inv\<close>, and never give out a frame that is in use; \<open>walk_page_table\<close> finds what the hardware finds.
    \<^item> Heap: a pointer that \<open>alloc\<close> returns is to memory that can be written and was not in use; a region of physical
      memory is reached at the pointer of its mapping; the stacks of the kernel lie above pages that are not mapped.
    \<^item> User mode: \<open>print\<close> of a program shows its text, or returns an error when the buffer is not all its own; \<open>Map\<close> gives zeroed pages below the
      stack and nothing else; a spawned process is registered once, and starts at its entry point in
      user mode; the selectors of the descriptor table, of the registers and of the code fit together.
    \<^item> Devices: the terminal shows the end of an endless sheet; each interrupt line reaches its own listeners and is
      acknowledged; exceptions stop the kernel on stacks of their own; \<open>sleep\<close> returns; the permission bitmap is exact.
    \<^item> Failures, each proved: the heap panics instead of returning null when frames run out; no region at 3 GiB or above can be mapped
      with overflow checks; interrupts of the second controller are not acknowledged; \<open>range_sub\<close> can add addresses; a program
      can stop the kernel with \<open>Map\<close> for pages it may not write, with \<open>Unmap\<close> and with unknown numbers.

  \<^bold>\<open>Loops.\<close>  No definition uses fuel.  Two loops may run forever and are \<open>partial_function\<close>s whose value is then \<^const>\<open>None\<close>: that of
  \<open>allocate\<close>, which tries locks that other cores hold (they are an argument), and that of \<open>sleep\<close>, which waits for the clock
  (its values are an argument).  The first is proved to return when the locks are held for finitely many attempts, the second
  when the clock reaches the time.  \<open>log2\<close> of the heap halves its argument, which is its termination measure.  All other loops run over lists.

  \<^bold>\<open>Not modelled.\<close>  The build script, which runs at build time; the assembly that boots the processor before \<open>kmain\<close>; the checks that
  the attribute macro makes of its tokens.  Interrupts are not delivered in the middle of a handler.  The TLB is a log of flushes: accesses
  see the tables as they are in memory, so stale translations are not modelled.  Memory that the crates themselves
  take from the kernel heap is not counted.  Formatted messages are texts; only the arithmetic of \<open>print_memory_info\<close> is there.  The stack on which
  the kernel runs is part of the memory only where the code pushes and pops explicitly.
\<close>

end
